(* ===== verification/Prelude.thy ===== *)
theory Prelude
  imports Complex_Main "HOL-Library.Sublist"
begin

text \<open>
  Shared vocabulary of the development: the table statements the backend issues against Postgres
  (\<open>findMany\<close>, \<open>updateMany\<close>, \<open>deleteMany\<close>, aggregates) read as functions on lists of rows, the
  result type of operations that may throw, array slicing in chunks, and the contract of a guarded
  \<open>updateMany\<close>, which every worker of the backend uses to stay idempotent.
\<close>

section \<open>Lemma collections\<close>

named_theorems table_simps \<open>rewriting of table statements\<close>
named_theorems js_simps \<open>evaluation of the JavaScript library functions\<close>

section \<open>Decimal digits\<close>

lemma below_ten: "0 \<le> (d :: int) \<Longrightarrow> d < 10 \<Longrightarrow> d \<in> {0, 1, 2, 3, 4, 5, 6, 7, 8, 9}"
proof -
  assume "0 \<le> d" "d < 10"
  then have "d \<in> set [0..9]" by simp
  then show ?thesis by (simp add: upto.simps insert_commute)
qed

section \<open>Results of operations that may throw\<close>

text \<open>
  A promise that resolves with \<open>x\<close> is \<open>Inr x\<close>; one that rejects with the error \<open>e\<close> is \<open>Inl e\<close>.
\<close>

type_synonym ('e, 'a) result = "'e + 'a"

fun mapResult :: "('a \<Rightarrow> ('e, 'b) result) \<Rightarrow> 'a list \<Rightarrow> ('e, 'b list) result" where
  "mapResult f [] = Inr []"
| "mapResult f (x # xs) =
     (case f x of Inl e \<Rightarrow> Inl e
      | Inr y \<Rightarrow> (case mapResult f xs of Inl e \<Rightarrow> Inl e | Inr ys \<Rightarrow> Inr (y # ys)))"

lemma mapResult_Inr_length: "mapResult f xs = Inr ys \<Longrightarrow> length ys = length xs"
  by (induction xs arbitrary: ys) (auto split: sum.splits)

lemma mapResult_Inr_nth:
  "mapResult f xs = Inr ys \<Longrightarrow> i < length xs \<Longrightarrow> f (xs ! i) = Inr (ys ! i)"
proof (induction xs arbitrary: ys i)
  case (Cons x xs)
  then show ?case by (cases i) (auto split: sum.splits)
qed simp

lemma mapResult_Inr_map:
  assumes "\<And>x. x \<in> set xs \<Longrightarrow> f x = Inr (g x)"
  shows "mapResult f xs = Inr (map g xs)"
  using assms by (induction xs) auto

section \<open>Table statements\<close>

definition updateMany :: "('r \<Rightarrow> bool) \<Rightarrow> ('r \<Rightarrow> 'r) \<Rightarrow> 'r list \<Rightarrow> 'r list" where
  "updateMany sel upd rows = map (\<lambda>r. if sel r then upd r else r) rows"

definition countMany :: "('r \<Rightarrow> bool) \<Rightarrow> 'r list \<Rightarrow> nat" where
  "countMany sel rows = length (filter sel rows)"

definition deleteMany :: "('r \<Rightarrow> bool) \<Rightarrow> 'r list \<Rightarrow> 'r list" where
  "deleteMany sel rows = filter (\<lambda>r. \<not> sel r) rows"

definition sumMany :: "('r \<Rightarrow> int) \<Rightarrow> 'r list \<Rightarrow> int" where
  "sumMany f rows = sum_list (map f rows)"

lemma updateMany_Nil [simp, table_simps]: "updateMany sel upd [] = []"
  by (simp add: updateMany_def)

lemma updateMany_Cons [simp, table_simps]:
  "updateMany sel upd (r # rs) = (if sel r then upd r else r) # updateMany sel upd rs"
  by (simp add: updateMany_def)

lemma updateMany_append [simp]:
  "updateMany sel upd (xs @ ys) = updateMany sel upd xs @ updateMany sel upd ys"
  by (simp add: updateMany_def)

lemma length_updateMany [simp]: "length (updateMany sel upd rs) = length rs"
  by (simp add: updateMany_def)

lemma updateMany_noop: "(\<And>r. r \<in> set rs \<Longrightarrow> \<not> sel r) \<Longrightarrow> updateMany sel upd rs = rs"
  by (induction rs) auto

lemma set_updateMany: "set (updateMany sel upd rs) = (\<lambda>r. if sel r then upd r else r) ` set rs"
  by (simp add: updateMany_def)

lemma map_updateMany_key:
  "(\<And>r. k (upd r) = k r) \<Longrightarrow> map k (updateMany sel upd rs) = map k rs"
  by (induction rs) auto

lemma updateMany_cong:
  "(\<And>r. r \<in> set rs \<Longrightarrow> sel r = sel' r) \<Longrightarrow>
   (\<And>r. r \<in> set rs \<Longrightarrow> sel r \<Longrightarrow> upd r = upd' r) \<Longrightarrow>
   updateMany sel upd rs = updateMany sel' upd' rs"
  by (induction rs) auto

lemma updateMany_updateMany:
  "updateMany s2 u2 (updateMany s1 u1 rs) =
   map (\<lambda>r. let r' = (if s1 r then u1 r else r) in if s2 r' then u2 r' else r') rs"
  by (simp add: updateMany_def Let_def)

lemma countMany_Nil [simp]: "countMany sel [] = 0"
  by (simp add: countMany_def)

lemma countMany_Cons [simp]:
  "countMany sel (r # rs) = (if sel r then 1 else 0) + countMany sel rs"
  by (simp add: countMany_def)

lemma countMany_0_iff: "countMany sel rs = 0 \<longleftrightarrow> (\<forall>r \<in> set rs. \<not> sel r)"
  by (induction rs) auto

lemma sumMany_Nil [simp]: "sumMany f [] = 0"
  by (simp add: sumMany_def)

lemma sumMany_Cons [simp]: "sumMany f (r # rs) = f r + sumMany f rs"
  by (simp add: sumMany_def)

lemma sumMany_append [simp]: "sumMany f (xs @ ys) = sumMany f xs + sumMany f ys"
  by (simp add: sumMany_def)

lemma sumMany_nonneg: "(\<And>r. r \<in> set rs \<Longrightarrow> 0 \<le> f r) \<Longrightarrow> 0 \<le> sumMany f rs"
  by (induction rs) (auto intro: add_nonneg_nonneg)

lemma filter_updateMany_same:
  "(\<And>r. P (upd r) = P r) \<Longrightarrow> filter P (updateMany sel upd rs) = updateMany sel upd (filter P rs)"
  by (induction rs) auto

text \<open>A sequence of statements acts on each row by itself.\<close>

lemma fold_updateMany:
  "fold (\<lambda>g. updateMany (s g) (u g)) gs ts = map (\<lambda>r. fold (\<lambda>g r. if s g r then u g r else r) gs r) ts"
  by (induction gs arbitrary: ts) (simp_all add: updateMany_def)

subsection \<open>Unique keys\<close>

lemma distinct_map_eq:
  "distinct (map k rs) \<Longrightarrow> a \<in> set rs \<Longrightarrow> b \<in> set rs \<Longrightarrow> k a = k b \<Longrightarrow> a = b"
  by (induction rs) (auto simp: image_iff)

lemma find_unique:
  "distinct (map k rs) \<Longrightarrow> r \<in> set rs \<Longrightarrow> k r = v \<Longrightarrow> List.find (\<lambda>x. k x = v) rs = Some r"
  by (induction rs) (auto simp: image_iff)

lemma find_Some_iff_mem:
  "List.find P rs = Some r \<Longrightarrow> r \<in> set rs \<and> P r"
  by (auto simp: find_Some_iff)

lemma find_None_not: "List.find P rs = None \<Longrightarrow> r \<in> set rs \<Longrightarrow> \<not> P r"
  by (auto simp: find_None_iff)

lemma list_all2_source: "list_all2 P xs ys \<Longrightarrow> y \<in> set ys \<Longrightarrow> \<exists>x \<in> set xs. P x y"
  by (induction rule: list_all2_induct) auto

section \<open>The guarded update\<close>

text \<open>
  \<open>prisma.x.updateMany(\<lbrace> where: guard, data \<rbrace>)\<close> whose data moves every row it touches out of its
  own guard, without changing the primary key: a second run (a duplicate job, a second process, a
  re-run after a crash) finds nothing to update.
\<close>

locale guarded_update =
  fixes sel :: "'r \<Rightarrow> bool"
    and upd :: "'r \<Rightarrow> 'r"
    and key :: "'r \<Rightarrow> 'k"
  assumes upd_key: "key (upd r) = key r"
    and upd_leaves: "sel r \<Longrightarrow> \<not> sel (upd r)"
begin

lemma none_left: "r \<in> set (updateMany sel upd rs) \<Longrightarrow> \<not> sel r"
  by (auto simp: set_updateMany upd_leaves)

lemma second_run: "updateMany sel upd (updateMany sel upd rs) = updateMany sel upd rs"
  by (rule updateMany_noop) (rule none_left)

lemma second_count: "countMany sel (updateMany sel upd rs) = 0"
  by (simp add: countMany_0_iff none_left)

lemma keys: "map key (updateMany sel upd rs) = map key rs"
  by (rule map_updateMany_key) (rule upd_key)

lemma untouched: "r \<in> set rs \<Longrightarrow> \<not> sel r \<Longrightarrow> r \<in> set (updateMany sel upd rs)"
  by (force simp: set_updateMany)

end

section \<open>Slicing an array in chunks\<close>

text \<open>
  The loop \<open>for (let i = 0; i < xs.length; i += n) f(xs.slice(i, i + n))\<close>. For \<open>n = 0\<close> the
  JavaScript loop does not end; the two call sites use the constants 15 and 65.
\<close>

fun chunksOf :: "nat \<Rightarrow> 'a list \<Rightarrow> 'a list list" where
  "chunksOf n xs = (if n = 0 \<or> xs = [] then [] else take n xs # chunksOf n (drop n xs))"

declare chunksOf.simps [simp del]

lemma chunksOf_Nil [simp]: "chunksOf n [] = []"
  by (simp add: chunksOf.simps)

lemma chunksOf_step: "0 < n \<Longrightarrow> xs \<noteq> [] \<Longrightarrow> chunksOf n xs = take n xs # chunksOf n (drop n xs)"
  by (subst chunksOf.simps) simp

lemma concat_chunksOf: "0 < n \<Longrightarrow> concat (chunksOf n xs) = xs"
proof (induction n xs rule: chunksOf.induct)
  case (1 n xs)
  then show ?case by (cases "xs = []") (simp_all add: chunksOf_step)
qed

lemma chunksOf_bounds: "0 < n \<Longrightarrow> c \<in> set (chunksOf n xs) \<Longrightarrow> c \<noteq> [] \<and> length c \<le> n"
proof (induction n xs rule: chunksOf.induct)
  case (1 n xs)
  then show ?case by (cases "xs = []") (auto simp: chunksOf_step)
qed

lemma length_chunksOf: "0 < n \<Longrightarrow> length (chunksOf n xs) = (length xs + n - 1) div n"
proof (induction n xs rule: chunksOf.induct)
  case (1 n xs)
  show ?case
  proof (cases "xs = []")
    case True
    then show ?thesis using "1.prems" by simp
  next
    case False
    with "1" have IH: "length (chunksOf n (drop n xs)) = (length xs - n + n - 1) div n"
      by simp
    show ?thesis
    proof (cases "n \<le> length xs")
      case True
      then obtain m where m: "length xs = n + m" by (auto simp: le_iff_add)
      have "(m + n - 1 + n) div n = Suc ((m + n - 1) div n)"
        using div_add_self2 [of n "m + n - 1"] "1.prems" by linarith
      moreover have "length xs + n - 1 = m + n - 1 + n" "length xs - n + n - 1 = m + n - 1"
        using m "1.prems" by linarith+
      ultimately have "(length xs + n - 1) div n = Suc ((length xs - n + n - 1) div n)"
        by metis
      with IH False "1.prems" show ?thesis by (simp add: chunksOf_step)
    next
      case False2: False
      with False have "0 < length xs" "length xs < n" by auto
      then have "(length xs + n - 1) div n = 1"
        by (intro div_nat_eqI; simp; linarith)
      with False False2 "1.prems" show ?thesis by (simp add: chunksOf_step)
    qed
  qed
qed

end
