(* ===== verification/JsStd.thy ===== *)
theory JsStd
  imports Prelude
begin

text \<open>
  The part of the JavaScript standard library the program uses: JSON values and property access,
  \<open>parseInt\<close>, \<open>Number\<close>, \<open>BigInt\<close> and \<open>toString\<close> on decimal text, truncating BigInt division,
  the digit test \<open>/^\d+$/\<close>, \<open>includes\<close>, and dates as milliseconds. Object keys are unique, in
  insertion order. An API number is a rational; \<open>NaN\<close> and the infinities are \<open>None\<close>.
\<close>

section \<open>Characters and digits\<close>

definition isWhite :: "char \<Rightarrow> bool" where
  "isWhite c = (c \<in> {CHR '' '', CHR 0x09, CHR 0x0A, CHR 0x0B, CHR 0x0C, CHR 0x0D,
     CHR 0xA0})"

definition trimWhite :: "string \<Rightarrow> string" where
  "trimWhite s = rev (dropWhile isWhite (rev (dropWhile isWhite s)))"

definition isDigit :: "char \<Rightarrow> bool" where
  "isDigit c = (48 \<le> (of_char c :: nat) \<and> (of_char c :: nat) \<le> 57)"

definition digitVal :: "char \<Rightarrow> int" where
  "digitVal c = int (of_char c) - 48"

definition digitChar :: "int \<Rightarrow> char" where
  "digitChar d = ''0123456789'' ! nat d"

definition isHexDigit :: "char \<Rightarrow> bool" where
  "isHexDigit c = (isDigit c \<or> c \<in> set ''abcdefABCDEF'')"

definition hexVal :: "char \<Rightarrow> int" where
  "hexVal c = (if isDigit c then digitVal c
               else if (of_char c :: nat) \<ge> 97 then int (of_char c) - 87 else int (of_char c) - 55)"

fun digitsVal :: "int \<Rightarrow> string \<Rightarrow> int" where
  "digitsVal acc [] = acc"
| "digitsVal acc (c # cs) = digitsVal (10 * acc + digitVal c) cs"

fun radixVal :: "int \<Rightarrow> int \<Rightarrow> string \<Rightarrow> int" where
  "radixVal b acc [] = acc"
| "radixVal b acc (c # cs) = radixVal b (b * acc + hexVal c) cs"

text \<open>The test \<open>/^\d+$/.test(s)\<close>.\<close>

definition allDigits :: "string \<Rightarrow> bool" where
  "allDigits s = (s \<noteq> [] \<and> list_all isDigit s)"

text \<open>A whole number in another base after its prefix; the digits must all belong to the base.\<close>

definition radixLiteral :: "string \<Rightarrow> int option" where
  "radixLiteral s =
     (let pre = take 2 s; ds = drop 2 s in
      if ds = [] then None
      else if pre \<in> {''0x'', ''0X''} \<and> list_all isHexDigit ds then Some (radixVal 16 0 ds)
      else if pre \<in> {''0o'', ''0O''} \<and> list_all (\<lambda>c. isDigit c \<and> digitVal c < 8) ds
        then Some (radixVal 8 0 ds)
      else if pre \<in> {''0b'', ''0B''} \<and> list_all (\<lambda>c. isDigit c \<and> digitVal c < 2) ds
        then Some (radixVal 2 0 ds)
      else None)"

section \<open>Numbers in text\<close>

text \<open>\<open>parseInt(s, 10)\<close>: leading blanks and a sign, then the longest run of digits.\<close>

definition parseInt10 :: "string \<Rightarrow> int option" where
  "parseInt10 s =
     (let t = dropWhile isWhite s;
          neg = (take 1 t = ''-'');
          u = (if take 1 t \<in> {''-'', ''+''} then drop 1 t else t);
          ds = takeWhile isDigit u
      in if ds = [] then None else Some (if neg then - digitsVal 0 ds else digitsVal 0 ds))"

text \<open>\<open>BigInt(s)\<close> on a string; \<open>None\<close> is its \<open>SyntaxError\<close>.\<close>

definition bigIntOf :: "string \<Rightarrow> int option" where
  "bigIntOf s =
     (let t = trimWhite s in
      if t = [] then Some 0
      else if allDigits t then Some (digitsVal 0 t)
      else if take 1 t \<in> {''-'', ''+''} \<and> allDigits (drop 1 t)
        then Some ((if take 1 t = ''-'' then -1 else 1) * digitsVal 0 (drop 1 t))
      else radixLiteral t)"

text \<open>An unsigned decimal literal with an optional fraction and exponent.\<close>

definition decimalLiteral :: "string \<Rightarrow> rat option" where
  "decimalLiteral u =
     (let ip = takeWhile isDigit u; r1 = dropWhile isDigit u;
          fp = (if take 1 r1 = ''.'' then takeWhile isDigit (drop 1 r1) else []);
          r2 = (if take 1 r1 = ''.'' then dropWhile isDigit (drop 1 r1) else r1);
          mant = of_int (digitsVal 0 (ip @ fp)) / 10 ^ length fp
      in if ip = [] \<and> fp = [] then None
         else if r2 = [] then Some mant
         else if take 1 r2 \<in> {''e'', ''E''} then
           (let e = drop 1 r2;
                ed = (if take 1 e \<in> {''-'', ''+''} then drop 1 e else e)
            in if \<not> allDigits ed then None
               else if take 1 e = ''-'' then Some (mant / 10 ^ nat (digitsVal 0 ed))
               else Some (mant * 10 ^ nat (digitsVal 0 ed)))
         else None)"

text \<open>\<open>Number(s)\<close> on a string.\<close>

definition numberOf :: "string \<Rightarrow> rat option" where
  "numberOf s =
     (let t = trimWhite s in
      if t = [] then Some 0
      else if take 1 t = ''-'' then map_option uminus (decimalLiteral (drop 1 t))
      else if take 1 t = ''+'' then decimalLiteral (drop 1 t)
      else case radixLiteral t of Some n \<Rightarrow> Some (of_int n) | None \<Rightarrow> decimalLiteral t)"

text \<open>\<open>n.toString()\<close> of a BigInt.\<close>

function digitsOf :: "int \<Rightarrow> string" where
  "digitsOf n = (if n < 10 then [digitChar n] else digitsOf (n div 10) @ [digitChar (n mod 10)])"
  by auto
termination by (relation "measure nat") auto

declare digitsOf.simps [simp del]

definition bigIntToString :: "int \<Rightarrow> string" where
  "bigIntToString n = (if n < 0 then ''-'' @ digitsOf (- n) else digitsOf n)"

lemma digitChar_digit [simp]:
  assumes "0 \<le> d" "d < 10"
  shows "isDigit (digitChar d)" and "digitVal (digitChar d) = d"
proof -
  have "d \<in> {0, 1, 2, 3, 4, 5, 6, 7, 8, 9}" using assms by (rule below_ten)
  then show "isDigit (digitChar d)" "digitVal (digitChar d) = d"
    by (auto simp: isDigit_def digitVal_def digitChar_def of_char_of)
qed

lemma digitsVal_append: "digitsVal a (xs @ ys) = digitsVal (digitsVal a xs) ys"
  by (induction xs arbitrary: a) auto

lemma digitsOf_digits: "0 \<le> n \<Longrightarrow> list_all isDigit (digitsOf n) \<and> digitsOf n \<noteq> []"
proof (induction n rule: digitsOf.induct)
  case (1 n)
  then show ?case by (cases "n < 10") (auto simp: digitsOf.simps [of n])
qed

lemma digitsVal_digitsOf: "0 \<le> n \<Longrightarrow> digitsVal 0 (digitsOf n) = n"
proof (induction n rule: digitsOf.induct)
  case (1 n)
  then show ?case
    by (cases "n < 10") (auto simp: digitsOf.simps [of n] digitsVal_append)
qed

lemma allDigits_toString [simp]: "0 \<le> n \<Longrightarrow> allDigits (bigIntToString n)"
  by (simp add: allDigits_def bigIntToString_def digitsOf_digits)

lemma digit_not_white: "isDigit c \<Longrightarrow> \<not> isWhite c"
  by (auto simp: isDigit_def isWhite_def)

lemma trimWhite_digits: "list_all isDigit s \<Longrightarrow> trimWhite s = s"
proof -
  assume a: "list_all isDigit s"
  have drop: "dropWhile isWhite t = t" if "list_all isDigit t" for t
    using that by (cases t) (auto simp: digit_not_white)
  show ?thesis using drop [OF a] drop [of "rev s"] a by (simp add: trimWhite_def list_all_rev)
qed

lemma bigIntOf_digits: "allDigits s \<Longrightarrow> bigIntOf s = Some (digitsVal 0 s)"
  by (simp add: bigIntOf_def allDigits_def trimWhite_digits)

lemma bigIntOf_toString [simp]: "0 \<le> n \<Longrightarrow> bigIntOf (bigIntToString n) = Some n"
  using allDigits_toString [of n]
  by (simp add: bigIntOf_digits bigIntToString_def digitsVal_digitsOf)

lemma parseInt10_toString: "0 \<le> n \<Longrightarrow> parseInt10 (bigIntToString n) = Some n"
proof -
  assume n: "0 \<le> n"
  let ?s = "bigIntToString n"
  have d: "list_all isDigit ?s" "?s \<noteq> []"
    using allDigits_toString [OF n] by (auto simp: allDigits_def)
  then obtain c cs where s: "?s = c # cs" "isDigit c" by (cases ?s) auto
  have tw: "takeWhile isDigit ?s = ?s"
    using d(1) unfolding list_all_iff takeWhile_eq_all_conv .
  moreover have "dropWhile isWhite ?s = ?s" using s by (simp add: digit_not_white)
  moreover have "take 1 ?s \<notin> {''-'', ''+''}" using s by (auto simp: isDigit_def)
  ultimately show ?thesis
    using d(2) n by (simp add: parseInt10_def Let_def del: takeWhile_eq_all_conv)
      (simp add: bigIntToString_def digitsVal_digitsOf)
qed

section \<open>BigInt and Number arithmetic\<close>

text \<open>BigInt division truncates toward zero.\<close>

definition bigDiv :: "int \<Rightarrow> int \<Rightarrow> int" where
  "bigDiv a b = sgn a * sgn b * (\<bar>a\<bar> div \<bar>b\<bar>)"

lemma bigDiv_nonneg [simp]: "0 \<le> a \<Longrightarrow> 0 < b \<Longrightarrow> bigDiv a b = a div b"
  by (cases "a = 0") (auto simp: bigDiv_def)

text \<open>\<open>Number.isInteger\<close>.\<close>

definition isInteger :: "rat option \<Rightarrow> bool" where
  "isInteger x = (case x of None \<Rightarrow> False | Some r \<Rightarrow> of_int \<lfloor>r\<rfloor> = r)"

section \<open>JSON\<close>

datatype json = JNull | JBool bool | JNum rat | JStr string | JArr "json list"
  | JObj "(string \<times> json) list"

text \<open>\<open>v?.key\<close>; \<open>None\<close> is \<open>undefined\<close>. Only objects carry the keys the program reads.\<close>

fun getProp :: "string \<Rightarrow> json \<Rightarrow> json option" where
  "getProp k (JObj kvs) = map_of kvs k"
| "getProp k _ = None"

text \<open>\<open>Number(v)\<close>: a one-element array goes through its string, so a boolean in it is \<open>NaN\<close>.\<close>

fun numberOfJson :: "json \<Rightarrow> rat option" where
  "numberOfJson JNull = Some 0"
| "numberOfJson (JBool b) = Some (if b then 1 else 0)"
| "numberOfJson (JNum r) = Some r"
| "numberOfJson (JStr s) = numberOf s"
| "numberOfJson (JArr []) = Some 0"
| "numberOfJson (JArr [JBool b]) = None"
| "numberOfJson (JArr [x]) = numberOfJson x"
| "numberOfJson (JArr (x # y # zs)) = None"
| "numberOfJson (JObj kvs) = None"

section \<open>Text search\<close>

text \<open>\<open>s.includes(sub)\<close>.\<close>

fun jsIncludes :: "string \<Rightarrow> string \<Rightarrow> bool" where
  "jsIncludes [] sub = (sub = [])"
| "jsIncludes (c # cs) sub = (take (length sub) (c # cs) = sub \<or> jsIncludes cs sub)"

lemma jsIncludes_iff: "jsIncludes s sub \<longleftrightarrow> (\<exists>pre post. s = pre @ sub @ post)"
proof (induction s)
  case Nil
  then show ?case by auto
next
  case (Cons c cs)
  show ?case
  proof
    assume "jsIncludes (c # cs) sub"
    then consider "take (length sub) (c # cs) = sub" | "jsIncludes cs sub" by auto
    then show "\<exists>pre post. c # cs = pre @ sub @ post"
    proof cases
      case 1
      then have "c # cs = [] @ sub @ drop (length sub) (c # cs)"
        by (metis append_Nil append_take_drop_id)
      then show ?thesis by blast
    next
      case 2
      then obtain pre post where "cs = pre @ sub @ post" using Cons.IH by blast
      then have "c # cs = (c # pre) @ sub @ post" by simp
      then show ?thesis by blast
    qed
  next
    assume "\<exists>pre post. c # cs = pre @ sub @ post"
    then obtain pre post where e: "c # cs = pre @ sub @ post" by blast
    show "jsIncludes (c # cs) sub"
    proof (cases pre)
      case Nil
      then have "take (length sub) (c # cs) = sub" using e by simp
      then show ?thesis by simp
    next
      case (Cons d ds)
      then show ?thesis using e Cons.IH by auto
    qed
  qed
qed

section \<open>Dates\<close>

text \<open>
  A date field of an API answer: missing or empty, text that \<open>Date\<close> cannot read, or a date.
  \<open>new Date(s).toISOString()\<close> throws on the second.
\<close>

datatype apiDate = NoDate | BadDate string | DateMs int

end
