(* ===== verification/Schema.thy ===== *)
theory Schema
  imports JsStd
begin

text \<open>
  The program's own state: the tables of \<open>backend/prisma/schema.prisma\<close> as lists of records, in
  table order, and the Redis keys, queues and in-process variables the backend keeps beside them.
  Field names are the schema's; a name that several tables share carries the table's name first
  (\<open>ticketId\<close>, \<open>orderHash\<close>, \<open>claimId\<close>). Dates are milliseconds, \<open>BigInt\<close> columns are \<open>int\<close>.
\<close>

section \<open>Enums\<close>

datatype orderStatus = SOLANA_CONFIRMED | QUEUED | DEFERRED | PROCESSING | BASE_SUBMITTED
  | SUCCESS | RETRY_PENDING | FAILED_PERMANENT

datatype winStatus = DRAW_PENDING | LOST | WON_UNCLAIMED | WON_FREE_TICKET | CLAIMED_ON_BASE
  | PAID_OUT_ON_SOLANA

datatype webhookStatus = RECEIVED | PROCESSED | SKIPPED | WH_FAILED

datatype harvestStatus = SUBMITTED | CONFIRMED | HV_FAILED

datatype payoutStatus = PENDING | PAY_CONFIRMED | EXPIRED | PAY_FAILED

text \<open>
  The declared order of \<open>WinStatus\<close> is the order of a ticket's life; the workers move tickets
  along it and the development compares states with it.
\<close>

fun winRank :: "winStatus \<Rightarrow> nat" where
  "winRank DRAW_PENDING = 0"
| "winRank LOST = 1"
| "winRank WON_UNCLAIMED = 2"
| "winRank WON_FREE_TICKET = 3"
| "winRank CLAIMED_ON_BASE = 4"
| "winRank PAID_OUT_ON_SOLANA = 5"

lemma winRank_inj: "winRank a = winRank b \<longleftrightarrow> a = b"
  by (cases a; cases b) simp_all

instantiation winStatus :: linorder
begin

definition less_eq_winStatus :: "winStatus \<Rightarrow> winStatus \<Rightarrow> bool" where
  "less_eq_winStatus a b \<longleftrightarrow> winRank a \<le> winRank b"

definition less_winStatus :: "winStatus \<Rightarrow> winStatus \<Rightarrow> bool" where
  "less_winStatus a b \<longleftrightarrow> winRank a < winRank b"

instance
  by standard (auto simp: less_eq_winStatus_def less_winStatus_def winRank_inj)

end

lemmas winStatus_order = less_eq_winStatus_def less_winStatus_def

section \<open>The Megapot API's answers and the cached round\<close>

record tokenAmount =
  tokAmount :: "string option"
  tokDecimals :: "int option"

record ballPool =
  normals_max :: "int option"
  bonusball_max :: "int option"

record prizeTier =
  tier_id :: int
  tierPayout :: tokenAmount
  tier_ticket_count :: int

record winningNumbers =
  wnNormals :: "int list"
  wnBonusball :: int

record megapotRound =
  round_id :: string
  round_status :: string
  prize_pool :: "tokenAmount option"
  ticket_count :: "int option"
  unique_participants :: "int option"
  winners_count :: int
  top_prize_amount :: "tokenAmount option"
  top_prize_winners_count :: int
  lp_earnings :: "tokenAmount option"
  started_at :: apiDate
  ended_at :: apiDate
  settled_at :: apiDate
  ball_pool :: "ballPool option"
  winning_numbers :: "winningNumbers option"
  prize_tiers :: "prizeTier list option"

record roundState =
  rsId :: "int option"
  rsStatus :: string
  rsNormalsMax :: int
  rsBonusballMax :: int
  rsStartedAt :: apiDate
  rsEndedAt :: int
  rsPrizePool :: "string \<times> int"
  rsLpEarnings :: "string \<times> int"
  rsTicketCount :: int
  rsParticipants :: int

record formattedTier =
  ftTierId :: int
  ftAmount :: string
  ftTicketCount :: int

section \<open>Tables\<close>

record ticket =
  ticketId :: string
  ticketOrder :: string
  bonusBall :: int
  normalBalls :: "int list"
  megapotNftId :: "string option"
  ticketTxHash :: "string option"
  winStatus :: winStatus
  winAmount :: int
  isFreeTicketTier :: bool
  harvestBatchId :: "string option"
  payoutClaimId :: "string option"
  relayBatchId :: "string option"

record relayOrder =
  orderHash :: string
  orderSignature :: string
  buyer :: string
  purchaseEpoch :: int
  fulfillEpoch :: "int option"
  amountUsdc :: int
  orderTicketCount :: int
  lastBought :: int
  orderStatus :: orderStatus
  attemptCount :: int
  lastError :: "string option"
  nextRetryAt :: "int option"
  orderTxHash :: "string option"
  megapotTicketIds :: "string list"
  orderCreatedAt :: int
  updatedAt :: int

record relayAttempt =
  attemptId :: string
  attemptOrder :: string
  attemptNum :: int
  attemptTxHash :: "string option"
  attemptError :: "string option"
  attemptCreatedAt :: int

record relayBatch =
  rbId :: string
  rbOrder :: string
  rbIndex :: int
  rbTxHash :: "string option"
  rbStatus :: harvestStatus
  rbError :: "string option"
  rbCreatedAt :: int
  rbConfirmedAt :: "int option"

record harvestBatch =
  hbId :: string
  hbMegapotId :: int
  hbTxHash :: "string option"
  hbStatus :: harvestStatus
  hbAmountGross :: int
  hbError :: "string option"
  hbCreatedAt :: int
  hbConfirmedAt :: "int option"

record payoutClaim =
  claimId :: string
  claimWallet :: string
  claimAmount :: int
  claimStatus :: payoutStatus
  claimTxSignature :: "string option"
  lastValidBlockHeight :: "int option"
  claimError :: "string option"
  claimCreatedAt :: int
  claimConfirmedAt :: "int option"

record webhookInbox =
  inboxId :: string
  inboxSignature :: string
  inboxSource :: string
  rawPayload :: json
  inboxStatus :: webhookStatus
  inboxError :: "string option"
  inboxCreatedAt :: int
  processedAt :: "int option"

record protocolRow =
  psIsPaused :: bool
  psCurrentEpochId :: "int option"
  psEndedAt :: "int option"
  psMaxNormalBall :: "int option"
  psMaxBonusBall :: "int option"
  psJackpotsWon :: "int option"
  psPrizesWon :: "int option"
  psPrizePoolAmount :: "int option"

record megapotEpoch =
  megapotId :: int
  totalTicketCount :: int
  lordsPotTicketCount :: int
  totalWinnersCount :: int
  lordsPotWinnersCount :: int
  totalPaidAmount :: "int option"
  lordsPotPaidAmount :: "int option"
  epochJackpot :: int
  topPrizeAmount :: int
  topPrizeWinnersCount :: int
  winningNormals :: "int list"
  winningBonusBall :: int
  prizeTiers :: json
  normalMax :: "int option"
  bonusMax :: "int option"
  epochEndedAt :: "int option"
  drawnAt :: "int option"
  ticketsSettledAt :: "int option"
  ticketsHarvestedAt :: "int option"

text \<open>The rows that a worker inserts with the schema's defaults.\<close>

definition newTicket :: "string \<Rightarrow> string \<Rightarrow> int \<Rightarrow> int list \<Rightarrow> ticket" where
  "newTicket i h bonus normals =
     \<lparr> ticketId = i, ticketOrder = h, bonusBall = bonus, normalBalls = normals,
       megapotNftId = None, ticketTxHash = None, winStatus = DRAW_PENDING, winAmount = 0,
       isFreeTicketTier = False, harvestBatchId = None, payoutClaimId = None,
       relayBatchId = None \<rparr>"

definition newRelayBatch :: "string \<Rightarrow> string \<Rightarrow> int \<Rightarrow> int \<Rightarrow> relayBatch" where
  "newRelayBatch i h idx now =
     \<lparr> rbId = i, rbOrder = h, rbIndex = idx, rbTxHash = None, rbStatus = SUBMITTED,
       rbError = None, rbCreatedAt = now, rbConfirmedAt = None \<rparr>"

definition newHarvestBatch :: "string \<Rightarrow> int \<Rightarrow> int \<Rightarrow> int \<Rightarrow> harvestBatch" where
  "newHarvestBatch i epoch gross now =
     \<lparr> hbId = i, hbMegapotId = epoch, hbTxHash = None, hbStatus = SUBMITTED,
       hbAmountGross = gross, hbError = None, hbCreatedAt = now, hbConfirmedAt = None \<rparr>"

definition newPayoutClaim :: "string \<Rightarrow> string \<Rightarrow> int \<Rightarrow> payoutClaim" where
  "newPayoutClaim i w now =
     \<lparr> claimId = i, claimWallet = w, claimAmount = 0, claimStatus = PENDING,
       claimTxSignature = None, lastValidBlockHeight = None, claimError = None,
       claimCreatedAt = now, claimConfirmedAt = None \<rparr>"

section \<open>The state\<close>

text \<open>
  Events published on Redis and jobs added to a queue are recorded in order; a consumer of them is
  another operation of the model. \<open>nextNonce\<close> is the variable of that name of the process that
  relays. \<open>uuidNext\<close> counts the row ids handed out by \<open>@default(uuid())\<close>.
\<close>

datatype event = EpochSettled int | EpochGraded int

text \<open>A job is its payload (a ticket job's logs included) and its \<open>jobId\<close>; the queues drop an id they
  already hold.\<close>

datatype job = RelayJob string string | IngestJob string string | TicketJob string "string list" string

record world =
  orders :: "relayOrder list"
  tickets :: "ticket list"
  attempts :: "relayAttempt list"
  relayBatches :: "relayBatch list"
  harvestBatches :: "harvestBatch list"
  payoutClaims :: "payoutClaim list"
  inbox :: "webhookInbox list"
  epochs :: "megapotEpoch list"
  protocolState :: "protocolRow option"
  indexerCursor :: "string option"
  seenSignatures :: "string list"
  roundCache :: "roundState option"
  pausedKey :: "bool option"
  transitionLock :: "string option"
  vaultBalanceCache :: "int option"
  quarantine :: "string list"
  published :: "event list"
  jobs :: "job list"
  nextNonce :: "int option"
  uuidNext :: nat

definition emptyWorld :: world where
  "emptyWorld =
     \<lparr> orders = [], tickets = [], attempts = [], relayBatches = [], harvestBatches = [],
       payoutClaims = [], inbox = [], epochs = [], protocolState = None, indexerCursor = None, seenSignatures = [],
       roundCache = None, pausedKey = None, transitionLock = None, vaultBalanceCache = None,
       quarantine = [], published = [], jobs = [], nextNonce = None,
       uuidNext = 0 \<rparr>"

text \<open>The order a ticket belongs to (\<open>ticket.relayOrder\<close>).\<close>

definition orderOf :: "world \<Rightarrow> ticket \<Rightarrow> relayOrder option" where
  "orderOf w t = List.find (\<lambda>r. orderHash r = ticketOrder t) (orders w)"

text \<open>A ticket whose order satisfies a condition (\<open>where: \<lbrace> relayOrder: ... \<rbrace>\<close>).\<close>

definition orderWhere :: "world \<Rightarrow> (relayOrder \<Rightarrow> bool) \<Rightarrow> ticket \<Rightarrow> bool" where
  "orderWhere w P t = (case orderOf w t of None \<Rightarrow> False | Some r \<Rightarrow> P r)"

definition updTickets :: "(ticket \<Rightarrow> bool) \<Rightarrow> (ticket \<Rightarrow> ticket) \<Rightarrow> world \<Rightarrow> world" where
  "updTickets sel upd w = w\<lparr>tickets := updateMany sel upd (tickets w)\<rparr>"

definition updOrders :: "(relayOrder \<Rightarrow> bool) \<Rightarrow> (relayOrder \<Rightarrow> relayOrder) \<Rightarrow> world \<Rightarrow> world" where
  "updOrders sel upd w = w\<lparr>orders := updateMany sel upd (orders w)\<rparr>"

definition updEpochs ::
  "(megapotEpoch \<Rightarrow> bool) \<Rightarrow> (megapotEpoch \<Rightarrow> megapotEpoch) \<Rightarrow> world \<Rightarrow> world" where
  "updEpochs sel upd w = w\<lparr>epochs := updateMany sel upd (epochs w)\<rparr>"

lemma orderWhere_orders:
  "orders w = orders w' \<Longrightarrow> ticketOrder t = ticketOrder t' \<Longrightarrow>
   orderWhere w P t = orderWhere w' P t'"
  by (simp add: orderWhere_def orderOf_def)

lemma updTickets_sel [simp]:
  "tickets (updTickets sel upd w) = updateMany sel upd (tickets w)"
  "orders (updTickets sel upd w) = orders w"
  "epochs (updTickets sel upd w) = epochs w"
  "harvestBatches (updTickets sel upd w) = harvestBatches w"
  "relayBatches (updTickets sel upd w) = relayBatches w"
  "payoutClaims (updTickets sel upd w) = payoutClaims w"
  "published (updTickets sel upd w) = published w"
  "roundCache (updTickets sel upd w) = roundCache w"
  "orderWhere (updTickets sel upd w) P t = orderWhere w P t"
  by (simp_all add: updTickets_def orderWhere_def orderOf_def)

lemma updOrders_sel [simp]:
  "orders (updOrders so uo w) = updateMany so uo (orders w)"
  "tickets (updOrders so uo w) = tickets w"
  "epochs (updOrders so uo w) = epochs w"
  "relayBatches (updOrders so uo w) = relayBatches w"
  "jobs (updOrders so uo w) = jobs w"
  "roundCache (updOrders so uo w) = roundCache w"
  by (simp_all add: updOrders_def)

lemma updEpochs_sel [simp]:
  "epochs (updEpochs se ue w) = updateMany se ue (epochs w)"
  "tickets (updEpochs se ue w) = tickets w"
  "orders (updEpochs se ue w) = orders w"
  "orderWhere (updEpochs se ue w) P t = orderWhere w P t"
  by (simp_all add: updEpochs_def orderWhere_def orderOf_def)

end
