(* ===== verification/BaseService.thy ===== *)
theory BaseService
  imports Schema
begin

text \<open>
  \<open>services/baseService.ts\<close>: classification of failures on Base, the cached vault balance, the gas
  formula, the nonce lane's step, receipts and the recovery scan. The node, the vault's ABI codec
  and the hash function are the fields of \<open>baseEnv\<close>.
\<close>

section \<open>Errors and receipts\<close>

text \<open>
  The fields of a thrown value that the code reads; \<open>errText\<close> is \<open>String(err)\<close>. The three \<open>data\<close>
  fields are of unknown type, so JSON values.
\<close>

record ethError =
  errData :: "json option"
  errInfoData :: "json option"
  errErrorData :: "json option"
  errReason :: "string option"
  errShort :: "string option"
  errInfoMessage :: "string option"
  errErrorMessage :: "string option"
  errMessage :: "string option"
  errText :: string

definition newError :: "string \<Rightarrow> ethError" where
  "newError m = \<lparr> errData = None, errInfoData = None, errErrorData = None, errReason = None,
     errShort = None, errInfoMessage = None, errErrorMessage = None, errMessage = Some m,
     errText = ''Error: '' @ m \<rparr>"

datatype revertClass = AlreadyProcessed | Paused string | Permanent string | Transient string

datatype parsedLog = TicketsRouted "int list" | WinningsHarvested int | OtherLog string

record receipt =
  receiptHash :: string
  receiptStatus :: int
  receiptLogs :: "string list"

record txInfo =
  txTo :: "string option"
  txFrom :: string
  txData :: string

section \<open>The outside world of the relayer\<close>

text \<open>
  \<open>envNow\<close> is the clock when a handler starts and \<open>envEnd\<close> when it does its last writes;
  \<open>pollClock\<close> and \<open>pollReceipt\<close> are what the poll loop of a transaction observes, poll by poll.
\<close>

record baseEnv =
  envNow :: int
  envEnd :: int
  parseError :: "string \<Rightarrow> string option"
  parseLog :: "string \<Rightarrow> parsedLog option"
  txCount :: "(ethError, int) result"
  sendBuy :: "string \<Rightarrow> (int list \<times> int) list \<Rightarrow> string \<Rightarrow> int \<Rightarrow> int \<Rightarrow> (ethError, string) result"
  vaultUsdc :: "nat \<Rightarrow> (ethError, int) result"
  pollClock :: "string \<Rightarrow> nat \<Rightarrow> int"
  pollReceipt :: "string \<Rightarrow> nat \<Rightarrow> (ethError, receipt option) result"
  getTransaction :: "string \<Rightarrow> (ethError, txInfo option) result"
  callTx :: "txInfo \<Rightarrow> (ethError, unit) result"
  blockNumber :: "(ethError, int) result"
  queryRouted :: "string \<Rightarrow> int \<Rightarrow> int \<Rightarrow> (ethError, (string \<times> int list) list) result"
  keccak :: "string \<Rightarrow> string"
  uuid :: "nat \<Rightarrow> string"

section \<open>Classification of a failure\<close>

definition nullish :: "json option \<Rightarrow> bool" where
  "nullish v = (v = None \<or> v = Some JNull)"

definition coalesce :: "json option \<Rightarrow> json option \<Rightarrow> json option" where
  "coalesce a b = (if nullish a then b else a)"

fun firstSome :: "'a option list \<Rightarrow> 'a \<Rightarrow> 'a" where
  "firstSome [] d = d"
| "firstSome (Some x # xs) d = x"
| "firstSome (None # xs) d = firstSome xs d"

definition permanentPattern :: "string \<Rightarrow> bool" where
  "permanentPattern m =
     list_ex (jsIncludes m) [''InvalidNormalsCount'', ''InvalidBonusball'', ''InvalidTicketCount'',
                             ''InvalidTicketLength'']"

definition classifyName :: "string \<Rightarrow> revertClass" where
  "classifyName n =
     (if n = ''OrderAlreadyProcessed'' then AlreadyProcessed
      else if n = ''EnforcedPause'' then Paused ''Base vault is paused''
      else if n = ''OnlyRelayerAllowed'' then Transient ''OnlyRelayerAllowed''
      else Permanent (''Vault revert: '' @ n))"

definition classifyMessage :: "string \<Rightarrow> revertClass" where
  "classifyMessage m =
     (if jsIncludes m ''OrderAlreadyProcessed'' then AlreadyProcessed
      else if jsIncludes m ''EnforcedPause'' then Paused m
      else if permanentPattern m then Permanent m
      else Transient m)"

definition revertData :: "ethError \<Rightarrow> string option" where
  "revertData e =
     (case coalesce (errData e) (coalesce (errInfoData e) (errErrorData e)) of
        Some (JStr d) \<Rightarrow> (if take 2 d = ''0x'' \<and> 10 \<le> length d then Some d else None)
      | _ \<Rightarrow> None)"

definition errorMessage :: "ethError \<Rightarrow> string" where
  "errorMessage e = firstSome [errReason e, errShort e, errInfoMessage e, errErrorMessage e,
                               errMessage e] (errText e)"

definition classifyError :: "baseEnv \<Rightarrow> ethError \<Rightarrow> revertClass" where
  "classifyError env e =
     (case Option.bind (revertData e) (parseError env) of
        Some n \<Rightarrow> classifyName n
      | None \<Rightarrow> classifyMessage (errorMessage e))"

text \<open>The reason a class carries; \<open>undefined\<close> for an order that is already processed.\<close>

fun classReason :: "revertClass \<Rightarrow> string option" where
  "classReason AlreadyProcessed = None"
| "classReason (Paused r) = Some r"
| "classReason (Permanent r) = Some r"
| "classReason (Transient r) = Some r"

fun classKind :: "revertClass \<Rightarrow> string" where
  "classKind AlreadyProcessed = ''already_processed''"
| "classKind (Paused r) = ''paused''"
| "classKind (Permanent r) = ''permanent''"
| "classKind (Transient r) = ''transient''"

section \<open>The cached vault balance\<close>

definition refreshVaultBalanceCache ::
  "baseEnv \<Rightarrow> nat \<Rightarrow> world \<Rightarrow> (ethError, int) result \<times> world" where
  "refreshVaultBalanceCache env k w =
     (case vaultUsdc env k of Inl e \<Rightarrow> (Inl e, w)
      | Inr b \<Rightarrow> (Inr b, w\<lparr>vaultBalanceCache := Some b\<rparr>))"

definition getCachedVaultUsdcBalance ::
  "baseEnv \<Rightarrow> world \<Rightarrow> (ethError, int) result \<times> world" where
  "getCachedVaultUsdcBalance env w =
     (case vaultBalanceCache w of Some b \<Rightarrow> (Inr b, w)
      | None \<Rightarrow> refreshVaultBalanceCache env 0 w)"

definition debitVaultBalanceCache :: "int \<Rightarrow> world \<Rightarrow> world" where
  "debitVaultBalanceCache a w =
     (case vaultBalanceCache w of None \<Rightarrow> w | Some b \<Rightarrow> w\<lparr>vaultBalanceCache := Some (b - a)\<rparr>)"

section \<open>Broadcast\<close>

definition BASE_GAS_OVERHEAD :: int where "BASE_GAS_OVERHEAD = 1200000"

definition GAS_PER_TICKET :: int where "GAS_PER_TICKET = 880000"

definition buyGasLimit :: "nat \<Rightarrow> int" where
  "buyGasLimit n = BASE_GAS_OVERHEAD + GAS_PER_TICKET * int n"

definition resetNonceLane :: "world \<Rightarrow> world" where
  "resetNonceLane w = w\<lparr>nextNonce := None\<rparr>"

text \<open>
  The body that runs inside the lane. The read of the pending count is outside the \<open>try\<close>: if it
  fails, the variable is still unset.
\<close>

definition laneSubmit ::
  "(ethError, int) result \<Rightarrow> (int \<Rightarrow> (ethError, string) result) \<Rightarrow> world \<Rightarrow>
   (ethError, string \<times> int) result \<times> world" where
  "laneSubmit pendingCount send w =
     (case (case nextNonce w of Some n \<Rightarrow> Inr n | None \<Rightarrow> pendingCount) of
        Inl e \<Rightarrow> (Inl e, w)
      | Inr nonce \<Rightarrow>
        (case send nonce of
           Inr h \<Rightarrow> (Inr (h, nonce), w\<lparr>nextNonce := Some (nonce + 1)\<rparr>)
         | Inl e \<Rightarrow> (Inl e, resetNonceLane w)))"

definition submitBuyTickets ::
  "baseEnv \<Rightarrow> string \<Rightarrow> (int list \<times> int) list \<Rightarrow> string \<Rightarrow> world \<Rightarrow>
   (ethError, string \<times> int) result \<times> world" where
  "submitBuyTickets env orderId ts source w =
     laneSubmit (txCount env) (sendBuy env orderId ts source (buyGasLimit (length ts))) w"

text \<open>\<open>claimWinnings\<close> estimates its gas first, outside the lane, and adds a fifth.\<close>

definition submitClaimWinnings ::
  "(ethError, int) result \<Rightarrow> (ethError, int) result \<Rightarrow> (int \<Rightarrow> int \<Rightarrow> (ethError, string) result) \<Rightarrow>
   world \<Rightarrow> (ethError, string \<times> int) result \<times> world" where
  "submitClaimWinnings estimate pendingCount send w =
     (case estimate of Inl e \<Rightarrow> (Inl e, w)
      | Inr estimated \<Rightarrow>
        (let gasLimit = bigDiv (estimated * 12) 10 in laneSubmit pendingCount (send gasLimit) w))"

section \<open>Receipts\<close>

fun parseHarvested :: "baseEnv \<Rightarrow> string list \<Rightarrow> int option" where
  "parseHarvested env [] = None"
| "parseHarvested env (l # ls) =
     (case parseLog env l of Some (WinningsHarvested a) \<Rightarrow> Some a | _ \<Rightarrow> parseHarvested env ls)"

fun parseTicketIds :: "baseEnv \<Rightarrow> string list \<Rightarrow> int list" where
  "parseTicketIds env [] = []"
| "parseTicketIds env (l # ls) =
     (case parseLog env l of Some (TicketsRouted ids) \<Rightarrow> ids | _ \<Rightarrow> parseTicketIds env ls)"

text \<open>The newest \<open>TicketsRouted\<close> of an order in the last 9,500 blocks.\<close>

definition findExistingFulfillment :: "baseEnv \<Rightarrow> string \<Rightarrow> (string \<times> int list) option" where
  "findExistingFulfillment env orderId =
     (case blockNumber env of Inl _ \<Rightarrow> None
      | Inr latest \<Rightarrow>
        (case queryRouted env orderId (max 0 (latest - 9500)) latest of Inl _ \<Rightarrow> None
         | Inr events \<Rightarrow> (if events = [] then None else Some (last events))))"

text \<open>\<open>classifyMinedRevert\<close> of \<open>workers/baseConfirmer.ts\<close>: simulate the reverted call again.\<close>

definition classifyMinedRevert :: "baseEnv \<Rightarrow> string \<Rightarrow> (ethError, revertClass) result" where
  "classifyMinedRevert env h =
     (case getTransaction env h of Inl e \<Rightarrow> Inl e
      | Inr None \<Rightarrow> Inr (Transient ''Reverted tx unavailable for re-simulation'')
      | Inr (Some t) \<Rightarrow>
        (if txTo t = None \<or> txTo t = Some [] then
           Inr (Transient ''Reverted tx unavailable for re-simulation'')
         else case callTx env t of
             Inr _ \<Rightarrow> Inr (Transient ''Tx reverted on-chain but simulates clean now'')
           | Inl e \<Rightarrow> Inr (classifyError env e)))"

end
