(* ===== verification/NonceLane.thy ===== *)
theory NonceLane
  imports BaseService
begin

text \<open>
  The nonce lane of \<open>services/baseService.ts\<close> as a transition system: callers of \<open>withNonceLane\<close>
  chain themselves behind the last promise, one at a time runs its body, and a broadcast is accepted,
  lost, or accepted although the call threw. \<open>accepted\<close> is what the node has seen from the relayer's
  address since \<open>base\<close>, so the node's pending count is \<open>base\<close> plus its length; a transaction that
  the node drops later is outside this model (the confirmer resets the lane then, which is a step).
\<close>

record lane =
  laneQueue :: "nat list"
  laneRunning :: "(nat \<times> int) option"
  laneNonce :: "int option"
  laneAccepted :: "int list"
  laneServed :: "nat list"
  laneEntered :: "nat list"

definition laneInit :: lane where
  "laneInit = \<lparr> laneQueue = [], laneRunning = None, laneNonce = None, laneAccepted = [],
                laneServed = [], laneEntered = [] \<rparr>"

definition pendingCount :: "int \<Rightarrow> lane \<Rightarrow> int" where
  "pendingCount base s = base + int (length (laneAccepted s))"

inductive laneStep :: "int \<Rightarrow> lane \<Rightarrow> lane \<Rightarrow> bool" for base where
  enter: "laneStep base s (s\<lparr>laneQueue := laneQueue s @ [c], laneEntered := laneEntered s @ [c]\<rparr>)"
| start: "laneRunning s = None \<Longrightarrow> laneQueue s = c # q \<Longrightarrow>
    n = case_option (pendingCount base s) id (laneNonce s) \<Longrightarrow>
    laneStep base s (s\<lparr>laneQueue := q, laneRunning := Some (c, n), laneNonce := Some n,
                      laneServed := laneServed s @ [c]\<rparr>)"
| countFailed: "laneRunning s = None \<Longrightarrow> laneQueue s = c # q \<Longrightarrow> laneNonce s = None \<Longrightarrow>
    laneStep base s (s\<lparr>laneQueue := q, laneServed := laneServed s @ [c]\<rparr>)"
| sent: "laneRunning s = Some (c, n) \<Longrightarrow>
    laneStep base s (s\<lparr>laneRunning := None, laneNonce := Some (n + 1),
                      laneAccepted := laneAccepted s @ [n]\<rparr>)"
| lost: "laneRunning s = Some (c, n) \<Longrightarrow>
    laneStep base s (s\<lparr>laneRunning := None, laneNonce := None\<rparr>)"
| threwButSent: "laneRunning s = Some (c, n) \<Longrightarrow>
    laneStep base s (s\<lparr>laneRunning := None, laneNonce := None,
                      laneAccepted := laneAccepted s @ [n]\<rparr>)"
| reset: "laneStep base s (s\<lparr>laneNonce := None\<rparr>)"

inductive laneReach :: "int \<Rightarrow> lane \<Rightarrow> bool" for base where
  init: "laneReach base laneInit"
| step: "laneReach base s \<Longrightarrow> laneStep base s s' \<Longrightarrow> laneReach base s'"

inductive_cases laneStepE: "laneStep base s s'"

definition laneInv :: "int \<Rightarrow> lane \<Rightarrow> bool" where
  "laneInv base s \<longleftrightarrow>
     laneAccepted s = map (\<lambda>i. base + int i) [0..<length (laneAccepted s)]
     \<and> (\<forall>n. laneNonce s = Some n \<longrightarrow> n = pendingCount base s)
     \<and> (\<forall>c n. laneRunning s = Some (c, n) \<longrightarrow> n = pendingCount base s)
     \<and> laneEntered s = laneServed s @ laneQueue s"

lemma laneInv_init: "laneInv base laneInit"
  by (simp add: laneInv_def laneInit_def)

lemma laneInv_step: "laneInv base s \<Longrightarrow> laneStep base s s' \<Longrightarrow> laneInv base s'"
  by (erule laneStepE) (auto simp: laneInv_def pendingCount_def split: option.splits)

lemma laneReach_inv: "laneReach base s \<Longrightarrow> laneInv base s"
  by (induction rule: laneReach.induct) (auto intro: laneInv_init laneInv_step)

text \<open>
  C10: whatever the interleaving of callers, lost broadcasts, broadcasts that threw after reaching
  the node, failed reads of the pending count and resets, the nonces the node accepted are
  consecutive from the first, none twice, and callers are served in the order they entered.
\<close>
theorem nonce_lane_no_gap:
  assumes "laneReach base s"
  shows "laneAccepted s = map (\<lambda>i. base + int i) [0..<length (laneAccepted s)]
    \<and> distinct (laneAccepted s) \<and> laneEntered s = laneServed s @ laneQueue s"
proof -
  have inv: "laneInv base s" using laneReach_inv [OF assms] .
  have "distinct (map (\<lambda>i. base + int i) [0..<length (laneAccepted s)])"
    by (simp add: distinct_map inj_on_def)
  then show ?thesis using inv unfolding laneInv_def by metis
qed

definition laneSample :: lane where
  "laneSample = laneInit\<lparr>laneAccepted := [40], laneNonce := Some 41, laneServed := [7],
                         laneEntered := [7, 8], laneQueue := [8]\<rparr>"

lemma laneSample_reach: "laneReach 40 laneSample"
proof -
  let ?a = "laneInit\<lparr>laneQueue := [7], laneEntered := [7]\<rparr>"
  let ?b = "?a\<lparr>laneQueue := [], laneRunning := Some (7, 40), laneNonce := Some 40, laneServed := [7]\<rparr>"
  let ?c = "?b\<lparr>laneRunning := None, laneNonce := Some (40 + 1), laneAccepted := [40]\<rparr>"
  have "laneReach 40 ?a"
    using laneReach.step [OF laneReach.init laneStep.enter [of 40 laneInit 7]]
    by (simp add: laneInit_def)
  then have "laneReach 40 ?b"
    by (rule laneReach.step) (use laneStep.start [of ?a 7 "[]" 40 40] in
      \<open>simp add: laneInit_def pendingCount_def\<close>)
  then have "laneReach 40 ?c"
    by (rule laneReach.step) (use laneStep.sent [of ?b 7 40 40] in \<open>simp add: laneInit_def\<close>)
  then show ?thesis
    by (rule laneReach.step) (use laneStep.enter [of 40 ?c 8] in
      \<open>simp add: laneInit_def laneSample_def\<close>)
qed

theorem nonce_lane_no_gap_witness:
  "laneAccepted laneSample = [40] \<and> laneEntered laneSample = laneServed laneSample @ laneQueue laneSample"
  using nonce_lane_no_gap [OF laneSample_reach] by (simp add: laneSample_def laneInit_def)

text \<open>
  The handler's lane body is one \<open>start\<close> followed by the step its broadcast takes: the variable it
  leaves is the lane's.
\<close>

lemma laneSubmit_start:
  assumes "laneReach base s" "laneRunning s = None" "laneQueue s = c # q"
    and "laneNonce s = nextNonce w" and "send (pendingCount base s) = Inr h"
  shows "\<exists>s' n w'. laneReach base s' \<and> laneSubmit (Inr (pendingCount base s)) send w = (Inr (h, n), w')
    \<and> laneNonce s' = nextNonce w' \<and> laneAccepted s' = laneAccepted s @ [n] \<and> laneRunning s' = None"
proof -
  let ?n = "case_option (pendingCount base s) id (laneNonce s)"
  have n: "?n = pendingCount base s"
    using laneReach_inv [OF assms(1)] by (auto simp: laneInv_def split: option.split)
  let ?s1 = "s\<lparr>laneQueue := q, laneRunning := Some (c, ?n), laneNonce := Some ?n,
               laneServed := laneServed s @ [c]\<rparr>"
  have "laneReach base ?s1"
    by (rule laneReach.step [OF assms(1)]) (rule laneStep.start [OF assms(2,3) refl])
  then have "laneReach base (?s1\<lparr>laneRunning := None, laneNonce := Some (?n + 1),
      laneAccepted := laneAccepted ?s1 @ [?n]\<rparr>)"
    by (rule laneReach.step) (rule laneStep.sent [where c = c], simp)
  moreover have "laneSubmit (Inr (pendingCount base s)) send w
      = (Inr (h, ?n), w\<lparr>nextNonce := Some (?n + 1)\<rparr>)"
    using assms(4,5) n by (auto simp: laneSubmit_def split: option.splits)
  ultimately show ?thesis by fastforce
qed

end
