(* ===== verification/TicketLife.thy ===== *)
theory TicketLife
  imports Schema
begin

text \<open>
  The contract every worker keeps with the \<open>Ticket\<close> table: a row keeps its identity and its balls,
  its \<open>winStatus\<close> only moves forward in the declared order, and the amount it won is frozen once it
  is graded; rows are only appended. The locale \<open>ticket_op\<close> states the contract for an
  operation and proves once what follows for any number of runs of it; \<open>ticket_reader\<close> is the contract of
  an operation that does not write the table, and gives the former.
\<close>

definition ticketStep :: "ticket \<Rightarrow> ticket \<Rightarrow> bool" where
  "ticketStep t t' \<longleftrightarrow>
     ticketId t' = ticketId t \<and> ticketOrder t' = ticketOrder t
     \<and> bonusBall t' = bonusBall t \<and> normalBalls t' = normalBalls t
     \<and> winStatus t \<le> winStatus t'
     \<and> (winStatus t \<noteq> DRAW_PENDING \<longrightarrow>
          winAmount t' = winAmount t \<and> isFreeTicketTier t' = isFreeTicketTier t
          \<and> (winStatus t = LOST \<longrightarrow> winStatus t' = LOST))"

definition ticketsGrow :: "ticket list \<Rightarrow> ticket list \<Rightarrow> bool" where
  "ticketsGrow ts ts' \<longleftrightarrow>
     (\<exists>old new. ts' = old @ new \<and> list_all2 ticketStep ts old)"

lemma ticketStep_refl [simp]: "ticketStep t t"
  by (simp add: ticketStep_def)

lemma ticketStep_trans: "ticketStep a b \<Longrightarrow> ticketStep b c \<Longrightarrow> ticketStep a c"
  unfolding ticketStep_def
  by (auto simp: winStatus_order intro: order_trans) (metis le_zero_eq winRank.simps(1) winRank_inj)+

lemma ticketStep_same:
  "ticketId t' = ticketId t \<Longrightarrow> ticketOrder t' = ticketOrder t \<Longrightarrow> bonusBall t' = bonusBall t \<Longrightarrow>
   normalBalls t' = normalBalls t \<Longrightarrow> winStatus t' = winStatus t \<Longrightarrow> winAmount t' = winAmount t \<Longrightarrow>
   isFreeTicketTier t' = isFreeTicketTier t \<Longrightarrow> ticketStep t t'"
  by (simp add: ticketStep_def)

lemma ticketsGrow_refl [simp]: "ticketsGrow ts ts"
  unfolding ticketsGrow_def by (rule exI [of _ ts]) (auto intro: list_all2_refl)

lemma ticketsGrow_updateMany:
  assumes "\<And>t. sel t \<Longrightarrow> ticketStep t (upd t)"
  shows "ticketsGrow ts (updateMany sel upd ts)"
proof -
  have "list_all2 ticketStep ts (updateMany sel upd ts)"
    using assms by (induction ts) auto
  then show ?thesis unfolding ticketsGrow_def by force
qed

lemma ticketsGrow_append: "ticketsGrow ts (ts @ new)"
  unfolding ticketsGrow_def by (rule exI [of _ ts]) (auto intro: list_all2_refl)

lemma ticketsGrow_trans:
  assumes "ticketsGrow a b" "ticketsGrow b c"
  shows "ticketsGrow a c"
proof -
  obtain o1 n1 where b: "b = o1 @ n1" "list_all2 ticketStep a o1"
    using assms(1) unfolding ticketsGrow_def by blast
  obtain o2 n2 where c: "c = o2 @ n2" "list_all2 ticketStep b o2"
    using assms(2) unfolding ticketsGrow_def by blast
  obtain o3 n3 where o2: "o2 = o3 @ n3" "list_all2 ticketStep o1 o3"
    using c(2) unfolding b(1) list_all2_append1 by auto
  have "list_all2 ticketStep a o3"
    by (rule list_all2_trans [OF ticketStep_trans b(2) o2(2)])
  then show ?thesis unfolding ticketsGrow_def c(1) o2(1) by auto
qed

lemma ticketsGrow_nth:
  assumes "ticketsGrow ts ts'" "i < length ts"
  shows "i < length ts' \<and> ticketStep (ts ! i) (ts' ! i)"
  using assms unfolding ticketsGrow_def
  by (auto simp: nth_append list_all2_conv_all_nth)

lemma ticketsGrow_ids:
  assumes "ticketsGrow ts ts'"
  shows "\<exists>rest. map ticketId ts' = map ticketId ts @ rest"
proof -
  have "map ticketId old = map ticketId ts" if "list_all2 ticketStep ts old" for old
    using that by (induction rule: list_all2_induct) (auto simp: ticketStep_def)
  then show ?thesis using assms unfolding ticketsGrow_def by (metis map_append)
qed

locale ticket_op =
  fixes step_op :: "'i \<Rightarrow> world \<Rightarrow> world"
  assumes step_grows: "ticketsGrow (tickets w) (tickets (step_op i w))"
begin

lemma runs_grow: "ticketsGrow (tickets w) (tickets (fold step_op is w))"
proof (induction "is" arbitrary: w)
  case (Cons i "is")
  then show ?case using ticketsGrow_trans [OF step_grows Cons.IH] by simp
qed simp

lemma runs_amount_frozen:
  assumes "k < length (tickets w)" "winStatus (tickets w ! k) \<noteq> DRAW_PENDING"
  shows "winAmount (tickets (fold step_op is w) ! k) = winAmount (tickets w ! k)"
  using ticketsGrow_nth [OF runs_grow assms(1)] assms(2) by (simp add: ticketStep_def)

lemma runs_lost_stays:
  assumes "k < length (tickets w)" "winStatus (tickets w ! k) = LOST"
  shows "winStatus (tickets (fold step_op is w) ! k) = LOST"
  using ticketsGrow_nth [OF runs_grow assms(1)] assms(2) by (simp add: ticketStep_def)

lemma runs_status_mono:
  assumes "k < length (tickets w)"
  shows "winStatus (tickets w ! k) \<le> winStatus (tickets (fold step_op is w) ! k)"
  using ticketsGrow_nth [OF runs_grow assms(1)] by (simp add: ticketStep_def)

lemma runs_paid_stays:
  assumes "k < length (tickets w)" "winStatus (tickets w ! k) = PAID_OUT_ON_SOLANA"
  shows "winStatus (tickets (fold step_op is w) ! k) = PAID_OUT_ON_SOLANA"
proof -
  have "x = PAID_OUT_ON_SOLANA" if "PAID_OUT_ON_SOLANA \<le> x" for x
    using that by (cases x) (auto simp: winStatus_order)
  then show ?thesis using runs_status_mono [OF assms(1)] assms(2) by metis
qed

end

text \<open>An operation that leaves the table alone keeps the contract trivially.\<close>

locale ticket_reader =
  fixes step_op :: "'i \<Rightarrow> world \<Rightarrow> world"
  assumes step_same: "tickets (step_op i w) = tickets w"
begin

lemma runs_same: "tickets (fold step_op is w) = tickets w"
  by (induction "is" arbitrary: w) (simp_all add: step_same)

end

sublocale ticket_reader < ticket_op step_op
  by unfold_locales (simp add: step_same)

end
