(* ===== verification/BaseConfirmer.thy ===== *)
theory BaseConfirmer
  imports BaseService TicketLife
begin

text \<open>
  \<open>workers/baseConfirmer.ts\<close>: what becomes of an order after its broadcast. Every write of an order
  is a guarded \<open>updateMany\<close>, and its row count decides whether the follow-up writes happen.
\<close>

section \<open>Constants\<close>

definition POLL_MS :: int where "POLL_MS = 5000"

definition IDLE_POLL_MS :: int where "IDLE_POLL_MS = 2 * 60000"

definition PENDING_TIMEOUT_MS :: int where "PENDING_TIMEOUT_MS = 2 * 60000"

definition CONFIRM_BATCH_SIZE :: nat where "CONFIRM_BATCH_SIZE = 50"

definition baseBackoffMs :: int where "baseBackoffMs = 5000"

definition maxBackoffMs :: int where "maxBackoffMs = 300000"

text \<open>\<open>Math.min(config.relay.baseBackoffMs * 2 ** attemptNum, config.relay.maxBackoffMs)\<close>.\<close>

definition backoffMs :: "int \<Rightarrow> int" where
  "backoffMs attempt = min (baseBackoffMs * 2 ^ nat attempt) maxBackoffMs"

section \<open>Success\<close>

text \<open>Stamping ticket \<open>i\<close> of the order with id \<open>i\<close> of the event, as far as the ids go.\<close>

fun stampTickets :: "(int \<Rightarrow> ticket \<Rightarrow> ticket) \<Rightarrow> string list \<Rightarrow> int list \<Rightarrow> ticket list \<Rightarrow> ticket list" where
  "stampTickets f [] ids ts = ts"
| "stampTickets f (i # is) [] ts = ts"
| "stampTickets f (i # is) (n # ns) ts =
     stampTickets f is ns (updateMany (\<lambda>t. ticketId t = i) (f n) ts)"

definition setNft :: "int \<Rightarrow> ticket \<Rightarrow> ticket" where
  "setNft n t = t\<lparr>megapotNftId := Some (bigIntToString n)\<rparr>"

definition finalizable :: "orderStatus list" where
  "finalizable = [BASE_SUBMITTED, PROCESSING, RETRY_PENDING]"

definition markSuccess :: "int \<Rightarrow> string \<Rightarrow> int option \<Rightarrow> string list \<Rightarrow> relayOrder \<Rightarrow> relayOrder" where
  "markSuccess now txHash epoch ids r =
     r\<lparr>orderStatus := SUCCESS, orderTxHash := Some txHash, fulfillEpoch := epoch,
       megapotTicketIds := ids, lastError := None, nextRetryAt := None, updatedAt := now\<rparr>"

definition finalizeOrderSuccess ::
  "int \<Rightarrow> string \<Rightarrow> string list \<Rightarrow> string \<Rightarrow> int list \<Rightarrow> world \<Rightarrow> world" where
  "finalizeOrderSuccess now hash tids txHash nfts w =
     (let epoch = Option.bind (roundCache w) rsId;
          sel = (\<lambda>r. orderHash r = hash \<and> orderStatus r \<in> set finalizable)
      in if countMany sel (orders w) = 0 then w
         else w\<lparr>orders := updateMany sel (markSuccess now txHash epoch (map bigIntToString nfts)) (orders w),
                tickets := stampTickets setNft tids nfts (tickets w)\<rparr>)"

section \<open>Back to the queue\<close>

definition newAttempt :: "(nat \<Rightarrow> string) \<Rightarrow> string \<Rightarrow> int \<Rightarrow> string option \<Rightarrow> string \<Rightarrow> int \<Rightarrow> world \<Rightarrow> world" where
  "newAttempt uid hash n txHash err now w =
     w\<lparr>attempts := attempts w @ [\<lparr> attemptId = uid (uuidNext w), attemptOrder = hash, attemptNum = n,
         attemptTxHash = txHash, attemptError = Some (take 2000 err), attemptCreatedAt = now \<rparr>],
       uuidNext := Suc (uuidNext w)\<rparr>"

definition addJob :: "job \<Rightarrow> world \<Rightarrow> world" where
  "addJob j w = (if j \<in> set (jobs w) then w else w\<lparr>jobs := jobs w @ [j]\<rparr>)"

definition submittedSel :: "string \<Rightarrow> relayOrder \<Rightarrow> bool" where
  "submittedSel hash r = (orderHash r = hash \<and> orderStatus r = BASE_SUBMITTED)"

definition markRetry :: "int \<Rightarrow> string \<Rightarrow> int \<Rightarrow> relayOrder \<Rightarrow> relayOrder" where
  "markRetry now reason due r =
     r\<lparr>orderStatus := RETRY_PENDING, lastError := Some (take 2000 reason),
       attemptCount := attemptCount r + 1, nextRetryAt := Some due, updatedAt := now\<rparr>"

definition bounceToRetry :: "baseEnv \<Rightarrow> relayOrder \<Rightarrow> string \<Rightarrow> world \<Rightarrow> world" where
  "bounceToRetry env o1 reason w =
     (let attempt = attemptCount o1 + 1; backoff = backoffMs attempt; now = envNow env;
          sel = submittedSel (orderHash o1)
      in if countMany sel (orders w) = 0 then w
         else addJob (RelayJob (orderHash o1)
                (''relay-'' @ orderHash o1 @ ''-r'' @ bigIntToString attempt))
              (newAttempt (uuid env) (orderHash o1) attempt (orderTxHash o1) reason now
                (updOrders sel (markRetry now reason (now + backoff)) w)))"

definition markPermanent :: "int \<Rightarrow> string \<Rightarrow> relayOrder \<Rightarrow> relayOrder" where
  "markPermanent now reason r =
     r\<lparr>orderStatus := FAILED_PERMANENT, lastError := Some (take 2000 reason),
       attemptCount := attemptCount r + 1, nextRetryAt := None, updatedAt := now\<rparr>"

definition failPermanently :: "baseEnv \<Rightarrow> relayOrder \<Rightarrow> string \<Rightarrow> world \<Rightarrow> world" where
  "failPermanently env o1 reason w =
     (let sel = submittedSel (orderHash o1); now = envNow env
      in if countMany sel (orders w) = 0 then w
         else newAttempt (uuid env) (orderHash o1) (attemptCount o1 + 1) (orderTxHash o1) reason now
                (updOrders sel (markPermanent now reason) w))"

section \<open>One order\<close>

text \<open>
  A read of the node that fails throws out of the handler: the tick logs it and goes on, so the
  state stays as it is.
\<close>

definition confirmOne :: "baseEnv \<Rightarrow> relayOrder \<Rightarrow> string list \<Rightarrow> world \<Rightarrow> world" where
  "confirmOne env o1 tids w =
     (let age = envNow env - updatedAt o1 in
      case orderTxHash o1 of
        None \<Rightarrow>
          (if age > PENDING_TIMEOUT_MS then
             bounceToRetry env o1 ''BASE_SUBMITTED without txHash'' w
           else w)
      | Some h \<Rightarrow>
        if h = [] then
          (if age > PENDING_TIMEOUT_MS then
             bounceToRetry env o1 ''BASE_SUBMITTED without txHash'' w
           else w)
        else
        (case pollReceipt env h 0 of
           Inl e \<Rightarrow> w
         | Inr None \<Rightarrow>
             (if age < PENDING_TIMEOUT_MS then w
              else case getTransaction env h of
                  Inl e \<Rightarrow> w
                | Inr (Some t) \<Rightarrow> w
                | Inr None \<Rightarrow>
                    bounceToRetry env o1 ''Broadcast tx dropped from mempool'' (resetNonceLane w))
         | Inr (Some rc) \<Rightarrow>
             (if receiptStatus rc = 1 then
                finalizeOrderSuccess (envNow env) (orderHash o1) tids (receiptHash rc)
                  (parseTicketIds env (receiptLogs rc)) w
              else case classifyMinedRevert env h of
                  Inl e \<Rightarrow> w
                | Inr AlreadyProcessed \<Rightarrow>
                    (case findExistingFulfillment env (orderHash o1) of
                       Some (tx, ids) \<Rightarrow>
                         finalizeOrderSuccess (envNow env) (orderHash o1) tids tx ids w
                     | None \<Rightarrow> bounceToRetry env o1 ''Revert says already processed'' w)
                | Inr (Permanent r) \<Rightarrow> failPermanently env o1 r w
                | Inr (Paused r) \<Rightarrow> bounceToRetry env o1 r w
                | Inr (Transient r) \<Rightarrow> bounceToRetry env o1 r w)))"

section \<open>The tick\<close>

definition ticketIdsOf :: "world \<Rightarrow> string \<Rightarrow> string list" where
  "ticketIdsOf w hash = map ticketId (filter (\<lambda>t. ticketOrder t = hash) (tickets w))"

definition submittedOrders :: "world \<Rightarrow> relayOrder list" where
  "submittedOrders w =
     take CONFIRM_BATCH_SIZE (sort_key updatedAt (filter (\<lambda>r. orderStatus r = BASE_SUBMITTED) (orders w)))"

text \<open>The rows and their tickets are read once, before the loop.\<close>

definition runConfirmerTick :: "baseEnv \<Rightarrow> world \<Rightarrow> nat \<times> world" where
  "runConfirmerTick env w =
     (let os = map (\<lambda>r. (r, ticketIdsOf w (orderHash r))) (submittedOrders w)
      in (length os, fold (\<lambda>(r, tids). confirmOne env r tids) os w))"

definition nextDelay :: "(ethError, nat) result \<Rightarrow> int" where
  "nextDelay found = (case found of Inl _ \<Rightarrow> IDLE_POLL_MS
                      | Inr n \<Rightarrow> (if n > 0 then POLL_MS else IDLE_POLL_MS))"

section \<open>Laws\<close>

lemma backoffMs_bounds: "0 \<le> n \<Longrightarrow> baseBackoffMs \<le> backoffMs n \<and> backoffMs n \<le> maxBackoffMs"
proof -
  have "(5000::int) * 1 \<le> 5000 * 2 ^ nat n" by (rule mult_left_mono) simp_all
  then show ?thesis by (simp add: backoffMs_def baseBackoffMs_def maxBackoffMs_def)
qed

lemma stampTickets_map:
  "stampTickets f is ns ts =
   map (fold (\<lambda>(i, n) t. if ticketId t = i then f n t else t) (zip is ns)) ts"
  by (induction f "is" ns ts rule: stampTickets.induct) (simp_all add: updateMany_def)

text \<open>What stamping does to a row, for a stamp that keeps the id.\<close>

lemma stamp_row:
  assumes "\<And>n t. ticketId (f n t) = ticketId t"
    and "P t" and "\<And>n t. P t \<Longrightarrow> P (f n t)"
  shows "P (fold (\<lambda>(i, n) t. if ticketId t = i then f n t else t) zs t)
    \<and> ticketId (fold (\<lambda>(i, n) t. if ticketId t = i then f n t else t) zs t) = ticketId t"
  using assms(2) by (induction zs arbitrary: t) (auto simp: assms(1,3))

lemma stamp_row_other:
  "ticketId t \<notin> fst ` set zs \<Longrightarrow>
   fold (\<lambda>(i, n) t. if ticketId t = i then f n t else t) zs t = t"
  by (induction zs) auto

lemma stamp_row_hit:
  assumes id: "\<And>n t. ticketId (f n t) = ticketId t" and Q: "\<And>n t. Q (f n t)"
  shows "ticketId t \<in> fst ` set zs \<Longrightarrow>
    Q (fold (\<lambda>(i, n) t. if ticketId t = i then f n t else t) zs t)"
proof (induction zs arbitrary: t)
  case (Cons z zs)
  obtain i n where z: "z = (i, n)" by fastforce
  show ?case
  proof (cases "ticketId t = i")
    case True
    have "Q (fold (\<lambda>(i, n) t. if ticketId t = i then f n t else t) zs (f n t))"
      using stamp_row [of f Q "f n t" zs] id Q by blast
    with True z show ?thesis by simp
  next
    case False
    with Cons z show ?thesis by auto
  qed
qed simp

lemma setNft_keeps [simp]: "ticketId (setNft n t) = ticketId t" "ticketStep t (setNft n t)"
  by (simp_all add: setNft_def ticketStep_same)

lemma stampTickets_grow:
  assumes "\<And>n t. ticketStep t (f n t)"
  shows "ticketsGrow ts (stampTickets f is ns ts)"
  using assms
proof (induction f "is" ns ts rule: stampTickets.induct)
  case (3 f i "is" n ns ts)
  have "ticketsGrow ts (updateMany (\<lambda>t. ticketId t = i) (f n) ts)"
    using 3(2) by (intro ticketsGrow_updateMany)
  then show ?case using ticketsGrow_trans 3 by simp
qed simp_all

section \<open>Every write of an order is a guarded update\<close>

interpretation bounce: guarded_update "submittedSel h" "markRetry now reason due" orderHash
  for h now reason due
  by unfold_locales (simp_all add: submittedSel_def markRetry_def)

interpretation permanent: guarded_update "submittedSel h" "markPermanent now reason" orderHash
  for h now reason
  by unfold_locales (simp_all add: submittedSel_def markPermanent_def)

interpretation finalize: guarded_update "\<lambda>r. orderHash r = h \<and> orderStatus r \<in> set finalizable"
    "markSuccess now tx epoch ids" orderHash
  for h now tx epoch ids
  by unfold_locales (auto simp: markSuccess_def finalizable_def)

lemma newAttempt_sel [simp]:
  "orders (newAttempt u h n tx e now w) = orders w" "tickets (newAttempt u h n tx e now w) = tickets w"
  by (simp_all add: newAttempt_def)

lemma addJob_sel [simp]: "orders (addJob j w) = orders w" "tickets (addJob j w) = tickets w"
  by (simp_all add: addJob_def)

lemma resetNonceLane_sel [simp]:
  "orders (resetNonceLane w) = orders w" "tickets (resetNonceLane w) = tickets w"
  by (simp_all add: resetNonceLane_def)

lemma bounce_orders:
  "orders (bounceToRetry env o1 reason w) =
   updateMany (submittedSel (orderHash o1))
     (markRetry (envNow env) reason (envNow env + backoffMs (attemptCount o1 + 1))) (orders w)"
  by (auto simp: bounceToRetry_def Let_def countMany_0_iff updateMany_noop)

lemma failPermanently_orders:
  "orders (failPermanently env o1 reason w) =
   updateMany (submittedSel (orderHash o1)) (markPermanent (envNow env) reason) (orders w)"
  by (auto simp: failPermanently_def Let_def countMany_0_iff updateMany_noop)

lemma finalize_orders:
  "orders (finalizeOrderSuccess now h tids tx ids w) =
   updateMany (\<lambda>r. orderHash r = h \<and> orderStatus r \<in> set finalizable)
     (markSuccess now tx (Option.bind (roundCache w) rsId) (map bigIntToString ids)) (orders w)"
  by (auto simp: finalizeOrderSuccess_def Let_def countMany_0_iff updateMany_noop)

lemma bounce_tickets [simp]: "tickets (bounceToRetry env o1 reason w) = tickets w"
  by (simp add: bounceToRetry_def Let_def)

lemma failPermanently_tickets [simp]: "tickets (failPermanently env o1 reason w) = tickets w"
  by (simp add: failPermanently_def Let_def)

lemma finalize_grow: "ticketsGrow (tickets w) (tickets (finalizeOrderSuccess now h tids tx ids w))"
  by (simp add: finalizeOrderSuccess_def Let_def stampTickets_grow)

lemmas confirm_splits = option.split sum.split revertClass.split prod.split

text \<open>What an order is finalized with, and what it is given up for.\<close>

definition successWarrant :: "baseEnv \<Rightarrow> relayOrder \<Rightarrow> string \<Rightarrow> int list \<Rightarrow> bool" where
  "successWarrant env o1 tx ids \<longleftrightarrow>
     (\<exists>h rc. orderTxHash o1 = Some h \<and> pollReceipt env h 0 = Inr (Some rc) \<and> receiptStatus rc = 1
        \<and> tx = receiptHash rc \<and> ids = parseTicketIds env (receiptLogs rc))
     \<or> findExistingFulfillment env (orderHash o1) = Some (tx, ids)"

definition permanentWarrant :: "baseEnv \<Rightarrow> relayOrder \<Rightarrow> bool" where
  "permanentWarrant env o1 \<longleftrightarrow>
     (\<exists>h rc reason. orderTxHash o1 = Some h \<and> pollReceipt env h 0 = Inr (Some rc) \<and> receiptStatus rc \<noteq> 1
        \<and> classifyMinedRevert env h = Inr (Permanent reason))"

text \<open>The ways the handling of an order ends, for a property of the state it leaves.\<close>

lemma confirmOne_rule:
  assumes "P w" "\<And>r v. v = w \<or> v = resetNonceLane w \<Longrightarrow> P (bounceToRetry env o1 r v)"
    "\<And>r. permanentWarrant env o1 \<Longrightarrow> P (failPermanently env o1 r w)"
    "\<And>tx ns. successWarrant env o1 tx ns \<Longrightarrow> P (finalizeOrderSuccess (envNow env) (orderHash o1) tids tx ns w)"
  shows "P (confirmOne env o1 tids w)"
proof -
  have "orderTxHash o1 = Some h \<Longrightarrow> pollReceipt env h 0 = Inr (Some rc) \<Longrightarrow> receiptStatus rc = 1 \<Longrightarrow>
      successWarrant env o1 (receiptHash rc) (parseTicketIds env (receiptLogs rc))" for rc h
    by (auto simp: successWarrant_def)
  moreover have "findExistingFulfillment env (orderHash o1) = Some (tx, ns) \<Longrightarrow> successWarrant env o1 tx ns" for tx ns
    by (simp add: successWarrant_def)
  moreover have "orderTxHash o1 = Some h \<Longrightarrow> pollReceipt env h 0 = Inr (Some rc) \<Longrightarrow> receiptStatus rc \<noteq> 1 \<Longrightarrow>
      classifyMinedRevert env h = Inr (Permanent x) \<Longrightarrow> permanentWarrant env o1" for rc h x
    by (auto simp: permanentWarrant_def)
  ultimately show ?thesis using assms unfolding confirmOne_def Let_def by (simp split: confirm_splits)
qed

lemma confirmOne_grow: "ticketsGrow (tickets w) (tickets (confirmOne env o1 tids w))"
  by (rule confirmOne_rule) (auto simp: finalize_grow)

definition confirmOp :: "baseEnv \<Rightarrow> world \<Rightarrow> world" where
  "confirmOp env w = snd (runConfirmerTick env w)"

interpretation confirmer: ticket_op confirmOp
proof
  fix env w
  have "ticketsGrow (tickets w) (tickets (fold (\<lambda>(r, tids). confirmOne env r tids) os w))" for os
    by (induction os arbitrary: w) (auto intro: ticketsGrow_trans confirmOne_grow)
  then show "ticketsGrow (tickets w) (tickets (confirmOp env w))"
    by (simp add: confirmOp_def runConfirmerTick_def Let_def)
qed

section \<open>Properties\<close>

definition settledOrder :: "world \<Rightarrow> string \<Rightarrow> bool" where
  "settledOrder w h = (\<forall>r \<in> set (orders w). orderHash r = h \<longrightarrow> orderStatus r \<notin> set finalizable)"

text \<open>
  The confirmer is idempotent across processes: once the row of an order is no longer
  submitted, processing or waiting for a retry, handling it again, with whatever the chain answers,
  writes nothing to the database; at most the nonce lane is reset.
\<close>
theorem confirmOne_idempotent:
  assumes "settledOrder w (orderHash o1)"
  shows "confirmOne env o1 tids w = w \<or> confirmOne env o1 tids w = resetNonceLane w"
proof -
  have sub: "countMany (submittedSel (orderHash o1)) (orders w) = 0"
    using assms by (auto simp: countMany_0_iff settledOrder_def submittedSel_def finalizable_def)
  have fin: "countMany (\<lambda>r. orderHash r = orderHash o1 \<and> orderStatus r \<in> set finalizable) (orders w) = 0"
    using assms by (auto simp: countMany_0_iff settledOrder_def)
  show ?thesis
    by (rule confirmOne_rule)
      (use sub fin in \<open>auto simp: bounceToRetry_def failPermanently_def finalizeOrderSuccess_def Let_def\<close>)
qed

lemma updateMany_all2:
  "(\<And>r. sel r \<Longrightarrow> P r (upd r)) \<Longrightarrow> (\<And>r. P r r) \<Longrightarrow> list_all2 P rs (updateMany sel upd rs)"
  by (induction rs) auto

text \<open>What the handling of \<open>o1\<close> may make of a row of that order.\<close>

definition warrantedRow :: "baseEnv \<Rightarrow> relayOrder \<Rightarrow> relayOrder \<Rightarrow> relayOrder \<Rightarrow> bool" where
  "warrantedRow env o1 r r' \<longleftrightarrow> orderHash r = orderHash o1 \<and> orderHash r' = orderHash o1
     \<and> ((orderStatus r \<in> {BASE_SUBMITTED, PROCESSING, RETRY_PENDING} \<and> orderStatus r' = SUCCESS
          \<and> (\<exists>tx ids. successWarrant env o1 tx ids \<and> orderTxHash r' = Some tx
                \<and> megapotTicketIds r' = map bigIntToString ids))
      \<or> (orderStatus r = BASE_SUBMITTED \<and> orderStatus r' = RETRY_PENDING
          \<and> (\<exists>d. nextRetryAt r' = Some (envNow env + d) \<and> 5000 \<le> d \<and> d \<le> 300000))
      \<or> (orderStatus r = BASE_SUBMITTED \<and> orderStatus r' = FAILED_PERMANENT \<and> permanentWarrant env o1))"

text \<open>
  C11: what the confirmer writes to an order is warranted by the chain. Handling one order keeps every
  row of every other order. The order's own row stays, or becomes SUCCESS, with the transaction and the
  NFT ids of its own receipt of status 1 or of a fulfilment event under its hash, or goes from submitted
  back to the queue, due again after at least 5 seconds and at most 5 minutes, or from submitted to
  FAILED_PERMANENT, its receipt reporting a revert that is classified as permanent.
\<close>
theorem confirmOne_warranted:
  assumes "0 \<le> attemptCount o1"
  shows "list_all2 (\<lambda>r r'. r' = r \<or> warrantedRow env o1 r r') (orders w) (orders (confirmOne env o1 tids w))"
proof -
  have d: "5000 \<le> backoffMs (attemptCount o1 + 1) \<and> backoffMs (attemptCount o1 + 1) \<le> 300000"
    using backoffMs_bounds [of "attemptCount o1 + 1"] assms
    by (simp add: baseBackoffMs_def maxBackoffMs_def)
  show ?thesis
  proof (rule confirmOne_rule)
    show "list_all2 (\<lambda>r r'. r' = r \<or> warrantedRow env o1 r r') (orders w) (orders w)"
      by (simp add: list_all2_refl)
  next
    fix reason v assume "v = w \<or> v = resetNonceLane w"
    then have v: "orders v = orders w" by auto
    show "list_all2 (\<lambda>r r'. r' = r \<or> warrantedRow env o1 r r') (orders w) (orders (bounceToRetry env o1 reason v))"
      unfolding bounce_orders v using d
      by (intro updateMany_all2) (auto simp: warrantedRow_def markRetry_def submittedSel_def)
  next
    fix reason assume "permanentWarrant env o1"
    then show "list_all2 (\<lambda>r r'. r' = r \<or> warrantedRow env o1 r r') (orders w) (orders (failPermanently env o1 reason w))"
      unfolding failPermanently_orders
      by (intro updateMany_all2) (auto simp: warrantedRow_def markPermanent_def submittedSel_def)
  next
    fix tx ns assume "successWarrant env o1 tx ns"
    then show "list_all2 (\<lambda>r r'. r' = r \<or> warrantedRow env o1 r r') (orders w)
        (orders (finalizeOrderSuccess (envNow env) (orderHash o1) tids tx ns w))"
      unfolding finalize_orders
      by (intro updateMany_all2) (auto simp: warrantedRow_def markSuccess_def finalizable_def)
  qed
qed

section \<open>Concrete orders\<close>

definition quietEnv :: baseEnv where
  "quietEnv = \<lparr> envNow = 1000000, envEnd = 1000500, parseError = (\<lambda>_. None),
     parseLog = (\<lambda>l. if l = ''routed'' then Some (TicketsRouted [71, 72]) else None),
     txCount = Inr 5, sendBuy = (\<lambda>_ _ _ _ _. Inr ''0xt''), vaultUsdc = (\<lambda>_. Inr 1000),
     pollClock = (\<lambda>_ k. 1000000 + 3000 * int k),
     pollReceipt = (\<lambda>_ _. Inr (Some \<lparr> receiptHash = ''0xt'', receiptStatus = 1, receiptLogs = [''routed''] \<rparr>)),
     getTransaction = (\<lambda>_. Inr None), callTx = (\<lambda>_. Inr ()), blockNumber = Inr 20000,
     queryRouted = (\<lambda>_ _ _. Inr []), keccak = id, uuid = (\<lambda>n. replicate n CHR ''u'') \<rparr>"

definition relayedOrder :: "orderStatus \<Rightarrow> relayOrder" where
  "relayedOrder st = \<lparr> orderHash = ''h'', orderSignature = ''s'', buyer = ''b'', purchaseEpoch = 7,
     fulfillEpoch = None, amountUsdc = 2, orderTicketCount = 2, lastBought = 0,
     orderStatus = st, attemptCount = 1, lastError = None, nextRetryAt = None,
     orderTxHash = Some ''0xt'', megapotTicketIds = [], orderCreatedAt = 0, updatedAt = 0 \<rparr>"

definition relayWorld :: "orderStatus \<Rightarrow> world" where
  "relayWorld st = emptyWorld\<lparr>orders := [relayedOrder st],
     tickets := [newTicket ''t1'' ''h'' 9 [1, 2, 3, 4, 5], newTicket ''t2'' ''h'' 8 [1, 2, 3, 4, 6]]\<rparr>"

lemmas relay_sample_defs = quietEnv_def relayedOrder_def relayWorld_def emptyWorld_def newTicket_def

theorem confirmOne_idempotent_witness:
  "confirmOne quietEnv (relayedOrder BASE_SUBMITTED) [''t1'', ''t2''] (relayWorld SUCCESS) = relayWorld SUCCESS"
  using confirmOne_idempotent [of "relayWorld SUCCESS" "relayedOrder BASE_SUBMITTED" quietEnv "[''t1'', ''t2'']"]
  by (simp add: settledOrder_def relay_sample_defs finalizable_def resetNonceLane_def)

lemma confirm_sample:
  "orders (confirmOne quietEnv (relayedOrder BASE_SUBMITTED) [''t1'', ''t2''] (relayWorld BASE_SUBMITTED))
   = [markSuccess 1000000 ''0xt'' None [''71'', ''72''] (relayedOrder BASE_SUBMITTED)]"
  by (simp add: confirmOne_def finalize_orders relay_sample_defs finalizable_def markSuccess_def
      bigIntToString_def digitsOf.simps digitChar_def)

theorem confirmOne_warranted_witness:
  "warrantedRow quietEnv (relayedOrder BASE_SUBMITTED) (relayedOrder BASE_SUBMITTED)
     (markSuccess 1000000 ''0xt'' None [''71'', ''72''] (relayedOrder BASE_SUBMITTED))"
proof -
  have "markSuccess 1000000 ''0xt'' None [''71'', ''72''] (relayedOrder BASE_SUBMITTED) \<noteq> relayedOrder BASE_SUBMITTED"
    by (simp add: markSuccess_def relayedOrder_def)
  then show ?thesis
    using confirmOne_warranted [of "relayedOrder BASE_SUBMITTED" quietEnv "relayWorld BASE_SUBMITTED" "[''t1'', ''t2'']"]
    unfolding confirm_sample by (simp add: relayWorld_def) (simp add: relayedOrder_def)
qed

end
