(* ===== verification/Megapot.thy ===== *)
theory Megapot
  imports Schema
begin

text \<open>
  \<open>services/megapotService.ts\<close>, the data half: validation of an active round, the referral share,
  prize tiers, the upserts of \<open>MegapotEpoch\<close> and \<open>ProtocolState\<close>, the backfill of settled rounds,
  the reveal gate and the pause flag. Answers of the Megapot API and of the two chains are
  parameters; an operation that may throw after it has written returns the error beside the state.
\<close>

section \<open>Constants\<close>

definition JACKPOT_TIER_INDEX :: nat where "JACKPOT_TIER_INDEX = 11"

definition REFERRAL_WIN_SHARE_BPS :: int where "REFERRAL_WIN_SHARE_BPS = 1000"

definition PRE_EMPTIVE_BUFFER_MS :: int where "PRE_EMPTIVE_BUFFER_MS = (5 * 60 + 60) * 1000"

definition EPOCH_END_UI_BUFFER_MS :: int where "EPOCH_END_UI_BUFFER_MS = 5 * 60 * 1000"

section \<open>Amounts\<close>

definition toBigInt :: "tokenAmount \<Rightarrow> (string, int) result" where
  "toBigInt a =
     (case tokAmount a of None \<Rightarrow> Inl ''TypeError: Cannot convert undefined to a BigInt''
      | Some s \<Rightarrow> (case bigIntOf s of None \<Rightarrow> Inl ''SyntaxError: Cannot convert to a BigInt''
                   | Some n \<Rightarrow> Inr n))"

definition applyReferralShare :: "int \<Rightarrow> int" where
  "applyReferralShare gross =
     (let share = bigDiv (gross * REFERRAL_WIN_SHARE_BPS) 10000 in gross - share)"

text \<open>The jackpot tier of \<open>getDrawingTierPayouts\<close>, net, floored to a whole dollar.\<close>

definition fetchOnChainJackpotUsdc ::
  "(int \<Rightarrow> (string, int list) result) \<Rightarrow> int option \<Rightarrow> (string, int) result" where
  "fetchOnChainJackpotUsdc getDrawingTierPayouts epochId =
     (case epochId of None \<Rightarrow> Inl ''RangeError: NaN cannot be converted to a BigInt''
      | Some e \<Rightarrow>
        (case getDrawingTierPayouts e of Inl err \<Rightarrow> Inl err
         | Inr payouts \<Rightarrow>
           (let gross = (if JACKPOT_TIER_INDEX < length payouts
                         then payouts ! JACKPOT_TIER_INDEX else 0);
                net = applyReferralShare gross
            in Inr (bigDiv net 1000000 * 1000000))))"

section \<open>Active round\<close>

definition truthyNum :: "int option \<Rightarrow> bool" where
  "truthyNum n = (n \<noteq> None \<and> n \<noteq> Some 0)"

definition truthyStr :: "string option \<Rightarrow> bool" where
  "truthyStr s = (s \<noteq> None \<and> s \<noteq> Some [])"

definition parseRoundState :: "megapotRound \<Rightarrow> (string, roundState) result" where
  "parseRoundState d =
     (if round_id d = [] \<or> round_status d \<noteq> ''active'' then Inl ''Invalid active round state''
      else if \<not> truthyNum (Option.bind (ball_pool d) normals_max)
            \<or> \<not> truthyNum (Option.bind (ball_pool d) bonusball_max)
        then Inl ''Missing or malformed ball_pool configuration''
      else if started_at d = NoDate \<or> ended_at d = NoDate
        then Inl ''Missing essential round timestamps''
      else if \<not> truthyStr (Option.bind (prize_pool d) tokAmount) then Inl ''Missing prize pool amounts''
      else case ended_at d of
          DateMs t \<Rightarrow> Inr \<lparr> rsId = parseInt10 (round_id d), rsStatus = round_status d,
            rsNormalsMax = the (Option.bind (ball_pool d) normals_max),
            rsBonusballMax = the (Option.bind (ball_pool d) bonusball_max),
            rsStartedAt = started_at d, rsEndedAt = t + 5 * 60 * 1000,
            rsPrizePool = (case_option [] id (Option.bind (prize_pool d) tokAmount),
                           case_option 6 id (Option.bind (prize_pool d) tokDecimals)),
            rsLpEarnings = (case_option ''0'' id (Option.bind (lp_earnings d) tokAmount),
                            case_option 6 id (Option.bind (lp_earnings d) tokDecimals)),
            rsTicketCount = case_option 0 id (ticket_count d),
            rsParticipants = case_option 0 id (unique_participants d) \<rparr>
        | _ \<Rightarrow> Inl ''RangeError: Invalid time value'')"

text \<open>
  The singleton row. A failed read of the on-chain jackpot keeps the stored pool, or falls back on
  the API's; Prisma rejects an epoch id that is \<open>NaN\<close> and an invalid date.
\<close>

definition syncProtocolState ::
  "(int \<Rightarrow> (string, int list) result) \<Rightarrow> megapotRound \<Rightarrow> bool \<Rightarrow> world \<Rightarrow> string option \<times> world" where
  "syncProtocolState payouts d paused w =
     (let currentEpochId = parseInt10 (round_id d);
          pool = (case fetchOnChainJackpotUsdc payouts currentEpochId of
              Inr p \<Rightarrow> Inr p
            | Inl _ \<Rightarrow> (case Option.bind (protocolState w) psPrizePoolAmount of
                Some p \<Rightarrow> Inr p
              | None \<Rightarrow> (case prize_pool d of None \<Rightarrow> Inl ''TypeError: prize_pool''
                         | Some a \<Rightarrow> toBigInt a)))
      in case pool of Inl e \<Rightarrow> (Some e, w)
         | Inr prizePoolAmount \<Rightarrow>
           (case (ball_pool d, ended_at d, currentEpochId) of
              (Some bp, DateMs t, Some ep) \<Rightarrow>
                (None, w\<lparr>protocolState := Some
                   \<lparr> psIsPaused = paused, psCurrentEpochId = Some ep,
                     psEndedAt = Some (t + 5 * 60 * 1000),
                     psMaxNormalBall = normals_max bp, psMaxBonusBall = bonusball_max bp,
                     psJackpotsWon = Some 19, psPrizesWon = Some 86000,
                     psPrizePoolAmount = Some prizePoolAmount \<rparr>\<rparr>)
            | _ \<Rightarrow> (Some ''PrismaClientValidationError'', w)))"

text \<open>The cache is written before the row: a failure of the second keeps the first.\<close>

definition processActiveRound ::
  "(int \<Rightarrow> (string, int list) result) \<Rightarrow> megapotRound \<Rightarrow> world \<Rightarrow> string option \<times> world" where
  "processActiveRound payouts d w =
     (case parseRoundState d of Inl e \<Rightarrow> (Some e, w)
      | Inr r \<Rightarrow>
        (let paused = (pausedKey w = Some True) in
         syncProtocolState payouts d paused (w\<lparr>roundCache := Some r\<rparr>)))"

section \<open>Prize tiers\<close>

fun processTiers ::
  "prizeTier list \<Rightarrow> int \<Rightarrow> int \<Rightarrow> formattedTier list \<Rightarrow>
   (string, int \<times> int \<times> formattedTier list) result" where
  "processTiers [] paid jackpot acc = Inr (paid, jackpot, acc)"
| "processTiers (t # ts) paid jackpot acc =
     (if tier_id t = 0 then processTiers ts paid jackpot acc
      else case toBigInt (tierPayout t) of Inl e \<Rightarrow> Inl e
        | Inr raw \<Rightarrow>
          (let reduced = applyReferralShare raw in
           processTiers ts (paid + raw * tier_ticket_count t)
             (if tier_id t = 11 then reduced else jackpot)
             (acc @ [\<lparr> ftTierId = tier_id t, ftAmount = bigIntToString reduced,
                       ftTicketCount = tier_ticket_count t \<rparr>])))"

definition processPrizeTiers ::
  "prizeTier list option \<Rightarrow> (string, int \<times> int \<times> formattedTier list) result" where
  "processPrizeTiers tiers =
     (case tiers of None \<Rightarrow> Inr (0, 0, []) | Some ts \<Rightarrow> processTiers ts 0 0 [])"

definition tierJson :: "formattedTier \<Rightarrow> json" where
  "tierJson f = JObj [(''tierId'', JNum (of_int (ftTierId f))), (''amount'', JStr (ftAmount f)),
                      (''ticketCount'', JNum (of_int (ftTicketCount f)))]"

definition tiersJson :: "formattedTier list \<Rightarrow> json" where
  "tiersJson fs = JArr (map tierJson fs)"

section \<open>Settled epochs\<close>

definition dateCol :: "apiDate \<Rightarrow> (string, int option) result" where
  "dateCol d = (case d of NoDate \<Rightarrow> Inr None | DateMs t \<Rightarrow> Inr (Some t)
                | BadDate s \<Rightarrow> Inl ''PrismaClientValidationError'')"

text \<open>
  The columns an upsert writes. \<open>ticketsSettledAt\<close> and \<open>ticketsHarvestedAt\<close> are not among them:
  the row that exists keeps its watermarks.
\<close>

definition epochPayload ::
  "megapotRound \<Rightarrow> (string, megapotEpoch \<Rightarrow> megapotEpoch) result" where
  "epochPayload d =
     (case (top_prize_amount d, winning_numbers d, dateCol (settled_at d), dateCol (ended_at d),
            processPrizeTiers (prize_tiers d)) of
        (Some topAmt, Some wn, Inr drawn, Inr ended, Inr (paid, jp, fts)) \<Rightarrow>
          (case toBigInt topAmt of Inl e \<Rightarrow> Inl e
           | Inr rawTop \<Rightarrow> Inr (\<lambda>e. e\<lparr>
               lordsPotTicketCount := 20,
               totalTicketCount := case_option (totalTicketCount e) id (ticket_count d),
               lordsPotWinnersCount := 20, totalWinnersCount := winners_count d,
               totalPaidAmount := Some paid, lordsPotPaidAmount := Some 20000000,
               epochJackpot := jp, prizeTiers := tiersJson fts,
               topPrizeAmount := applyReferralShare rawTop,
               topPrizeWinnersCount := top_prize_winners_count d,
               winningNormals := wnNormals wn, winningBonusBall := wnBonusball wn,
               normalMax := Option.bind (ball_pool d) normals_max,
               bonusMax := Option.bind (ball_pool d) bonusball_max,
               drawnAt := drawn,
               epochEndedAt := map_option (\<lambda>t. t + EPOCH_END_UI_BUFFER_MS) ended \<rparr>))
      | _ \<Rightarrow> Inl ''invalid round data'')"

definition blankEpoch :: "int \<Rightarrow> megapotEpoch" where
  "blankEpoch i =
     \<lparr> megapotId = i, totalTicketCount = 0, lordsPotTicketCount = 0, totalWinnersCount = 0,
       lordsPotWinnersCount = 0, totalPaidAmount = None, lordsPotPaidAmount = None,
       epochJackpot = 0, topPrizeAmount = 0, topPrizeWinnersCount = 0, winningNormals = [],
       winningBonusBall = 0, prizeTiers = JNull, normalMax = None, bonusMax = None,
       epochEndedAt = None, drawnAt = None, ticketsSettledAt = None, ticketsHarvestedAt = None \<rparr>"

definition upsertSettledEpoch :: "megapotRound \<Rightarrow> world \<Rightarrow> string option \<times> world" where
  "upsertSettledEpoch d w =
     (if round_status d \<noteq> ''settled'' then (None, w)
      else if top_prize_amount d = None \<or> winning_numbers d = None \<or> prize_tiers d = None
        then (None, w)
      else case (epochPayload d, parseInt10 (round_id d)) of
          (Inl e, _) \<Rightarrow> (Some e, w)
        | (Inr f, None) \<Rightarrow> (Some ''PrismaClientValidationError'', w)
        | (Inr f, Some i) \<Rightarrow>
            (if \<exists>e \<in> set (epochs w). megapotId e = i
             then (None, updEpochs (\<lambda>e. megapotId e = i) f w)
             else if ticket_count d = None then (Some ''PrismaClientValidationError'', w)
             else (None, w\<lparr>epochs := epochs w @ [f (blankEpoch i)]\<rparr>)))"

definition ensureSettledEpochSynced ::
  "(int \<Rightarrow> (string, megapotRound) result) \<Rightarrow> int \<Rightarrow> world \<Rightarrow> bool \<times> world" where
  "ensureSettledEpochSynced fetchRoundById i w =
     (let w' = (case fetchRoundById i of Inl _ \<Rightarrow> w | Inr d \<Rightarrow> snd (upsertSettledEpoch d w))
      in (0 < countMany (\<lambda>e. megapotId e = i) (epochs w'), w'))"

section \<open>Backfill of settled rounds\<close>

record roundsPage =
  pageData :: "megapotRound list"
  next_cursor :: "string option"
  page_has_more :: bool

datatype pageEnd = CaughtUp | PageDone | Threw string

text \<open>One page: halts at the first settled round the table had when the sync began.\<close>

fun syncPage ::
  "(int \<Rightarrow> (string, int list) result) \<Rightarrow> int \<Rightarrow> megapotRound list \<Rightarrow> world \<Rightarrow> pageEnd \<times> world" where
  "syncPage payouts highest [] w = (PageDone, w)"
| "syncPage payouts highest (d # ds) w =
     (if round_status d = ''active'' then
        (case processActiveRound payouts d w of
           (Some e, w') \<Rightarrow> (Threw e, w') | (None, w') \<Rightarrow> syncPage payouts highest ds w')
      else if round_status d = ''settled'' then
        (case parseInt10 (round_id d) of
           Some i \<Rightarrow>
             (if i \<le> highest then (CaughtUp, w)
              else (case upsertSettledEpoch d w of
                 (Some e, w') \<Rightarrow> (Threw e, w')
               | (None, w') \<Rightarrow> syncPage payouts highest ds w'))
         | None \<Rightarrow> (case upsertSettledEpoch d w of
                 (Some e, w') \<Rightarrow> (Threw e, w')
               | (None, w') \<Rightarrow> syncPage payouts highest ds w'))
      else syncPage payouts highest ds w)"

text \<open>
  The cursor loop runs as long as the API returns non-empty pages with a cursor; \<open>fuel\<close> bounds the
  number of pages read and \<open>None\<close> means that it was not enough.
\<close>

fun syncPages ::
  "nat \<Rightarrow> (int \<Rightarrow> (string, int list) result) \<Rightarrow> (string option \<Rightarrow> (string, roundsPage) result) \<Rightarrow>
   int \<Rightarrow> string option \<Rightarrow> world \<Rightarrow> world option" where
  "syncPages 0 payouts fetch highest cursor w = None"
| "syncPages (Suc n) payouts fetch highest cursor w =
     (case fetch cursor of Inl e \<Rightarrow> Some w
      | Inr page \<Rightarrow>
        (if pageData page = [] then Some w
         else case syncPage payouts highest (pageData page) w of
             (Threw e, w') \<Rightarrow> Some w'
           | (CaughtUp, w') \<Rightarrow> Some w'
           | (PageDone, w') \<Rightarrow>
               (if \<not> page_has_more page \<or> \<not> truthyStr (next_cursor page) then Some w'
                else syncPages n payouts fetch highest (next_cursor page) w')))"

definition highestEpoch :: "world \<Rightarrow> int" where
  "highestEpoch w = (if epochs w = [] then 0 else Max (set (map megapotId (epochs w))))"

definition syncAllSettledRounds ::
  "nat \<Rightarrow> (int \<Rightarrow> (string, int list) result) \<Rightarrow> (string option \<Rightarrow> (string, roundsPage) result) \<Rightarrow>
   world \<Rightarrow> world option" where
  "syncAllSettledRounds fuel payouts fetch w = syncPages fuel payouts fetch (highestEpoch w) None w"

section \<open>Reveal gate\<close>

definition revealedEpochWhere :: "int \<Rightarrow> megapotEpoch \<Rightarrow> bool" where
  "revealedEpochWhere now e = (case epochEndedAt e of None \<Rightarrow> True | Some t \<Rightarrow> t \<le> now)"

definition getRevealedEpochIds :: "int \<Rightarrow> world \<Rightarrow> int set" where
  "getRevealedEpochIds now w = set (map megapotId (filter (revealedEpochWhere now) (epochs w)))"

definition findEpoch :: "world \<Rightarrow> int \<Rightarrow> megapotEpoch option" where
  "findEpoch w i = List.find (\<lambda>e. megapotId e = i) (epochs w)"

definition isEpochRevealed :: "int \<Rightarrow> world \<Rightarrow> int \<Rightarrow> bool" where
  "isEpochRevealed now w i =
     (case findEpoch w i of None \<Rightarrow> False
      | Some e \<Rightarrow> (case epochEndedAt e of None \<Rightarrow> True | Some t \<Rightarrow> t \<le> now))"

section \<open>Cached round and pause flag\<close>

definition getActiveRound :: "world \<Rightarrow> (string, roundState) result" where
  "getActiveRound w = (case roundCache w of
      None \<Rightarrow> Inl ''No active Megapot round in cache'' | Some r \<Rightarrow> Inr r)"

definition isRoundLocked :: "int \<Rightarrow> roundState \<Rightarrow> bool" where
  "isRoundLocked now r = (now \<ge> rsEndedAt r - PRE_EMPTIVE_BUFFER_MS)"

definition isProtocolPaused :: "world \<Rightarrow> bool" where
  "isProtocolPaused w =
     (if pausedKey w = Some True then True
      else (case protocolState w of None \<Rightarrow> False | Some p \<Rightarrow> psIsPaused p))"

definition setPaused :: "bool \<Rightarrow> world \<Rightarrow> world" where
  "setPaused b w =
     w\<lparr>pausedKey := Some b,
       protocolState := Some (case protocolState w of
           Some p \<Rightarrow> p\<lparr>psIsPaused := b\<rparr>
         | None \<Rightarrow> \<lparr> psIsPaused = b, psCurrentEpochId = None, psEndedAt = None,
             psMaxNormalBall = None, psMaxBonusBall = None, psJackpotsWon = None,
             psPrizesWon = None, psPrizePoolAmount = None \<rparr>)\<rparr>"

record onChainState =
  isLordsPotPaused :: bool
  chainNormalMax :: int
  chainBonusMax :: int
  ongoingEpoch :: int

definition syncPauseStateFromChain ::
  "(string, onChainState) result \<Rightarrow> world \<Rightarrow> string option \<times> world" where
  "syncPauseStateFromChain onChain w =
     (case onChain of Inl e \<Rightarrow> (Some e, w)
      | Inr s \<Rightarrow> (let cached = isProtocolPaused w in
          if isLordsPotPaused s \<noteq> cached then (None, setPaused (isLordsPotPaused s) w)
          else (None, w)))"

section \<open>The referral share\<close>

lemma applyReferralShare_nonneg: "0 \<le> g \<Longrightarrow> applyReferralShare g = g - g div 10"
proof -
  assume "0 \<le> g"
  moreover have "g * 1000 div 10000 = g div 10"
    using div_mult_mult2 [of 1000 g 10] by simp
  ultimately show ?thesis by (simp add: applyReferralShare_def REFERRAL_WIN_SHARE_BPS_def)
qed

lemma applyReferralShare_bounds: "0 \<le> g \<Longrightarrow> 0 \<le> applyReferralShare g \<and> applyReferralShare g \<le> g"
proof -
  assume "0 \<le> g"
  moreover from this have "g div 10 \<le> g" "0 \<le> g div 10" by linarith+
  ultimately show ?thesis by (simp add: applyReferralShare_nonneg)
qed

text \<open>
  C3: the net payout and the share add up to the gross payout, the net is between nothing and the
  gross, and it exceeds the rounding \<open>floor(gross * 0.9)\<close> that the code avoids by one unit exactly
  when the gross amount is not a multiple of ten.
\<close>
theorem applyReferralShare_exact:
  assumes "0 \<le> g"
  shows "applyReferralShare g + g div 10 = g \<and> 0 \<le> applyReferralShare g
    \<and> applyReferralShare g \<le> g
    \<and> applyReferralShare g - g * 9 div 10 = (if g mod 10 = 0 then 0 else 1)"
proof -
  define q r where "q = g div 10" and "r = g mod 10"
  have r: "r \<in> {0, 1, 2, 3, 4, 5, 6, 7, 8, 9}" unfolding r_def by (rule below_ten) auto
  have g: "g = 10 * q + r" unfolding q_def r_def by simp
  have "g * 9 = 9 * r + 10 * (9 * q)" using g by simp
  then have "g * 9 div 10 = 9 * q + 9 * r div 10" by simp
  moreover have "9 * r div 10 = r - (if r = 0 then 0 else 1)" using r by auto
  ultimately have "g * 9 div 10 = g - g div 10 - (if g mod 10 = 0 then 0 else 1)"
    using g unfolding q_def [symmetric] r_def [symmetric] by simp
  then show ?thesis
    using applyReferralShare_bounds [OF assms] by (simp add: applyReferralShare_nonneg [OF assms])
qed

theorem applyReferralShare_exact_witness:
  "applyReferralShare 1111112 = 1000001 \<and> (1111112::int) * 9 div 10 = 1000000"
  using applyReferralShare_exact [of 1111112] by simp

section \<open>Reveal gate\<close>

lemma findEpoch_Some:
  "distinct (map megapotId (epochs w)) \<Longrightarrow> e \<in> set (epochs w) \<Longrightarrow> findEpoch w (megapotId e) = Some e"
  unfolding findEpoch_def by (rule find_unique) auto

text \<open>
  The three forms of the reveal gate agree: an epoch passes the single-epoch check exactly when
  it is in the set the list routes filter by.
\<close>
theorem reveal_gates_agree:
  assumes "distinct (map megapotId (epochs w))"
  shows "isEpochRevealed now w i \<longleftrightarrow> i \<in> getRevealedEpochIds now w"
proof (cases "findEpoch w i")
  case None
  then have "megapotId e \<noteq> i" if "e \<in> set (epochs w)" for e
    using that unfolding findEpoch_def by (auto dest: find_None_not)
  with None show ?thesis by (auto simp: isEpochRevealed_def getRevealedEpochIds_def)
next
  case (Some e)
  then have e: "e \<in> set (epochs w)" "megapotId e = i"
    unfolding findEpoch_def by (auto dest: find_Some_iff_mem)
  have "x = e" if "x \<in> set (epochs w)" "megapotId x = i" for x
    using distinct_map_eq [OF assms that(1) e(1)] that e by simp
  then have "(\<exists>x \<in> set (epochs w). megapotId x = i \<and> revealedEpochWhere now x)
      \<longleftrightarrow> revealedEpochWhere now e"
    using e by blast
  then have "i \<in> getRevealedEpochIds now w \<longleftrightarrow> revealedEpochWhere now e"
    unfolding getRevealedEpochIds_def by fastforce
  with Some show ?thesis by (simp add: isEpochRevealed_def revealedEpochWhere_def split: option.split)
qed

theorem reveal_gates_agree_witness:
  "\<not> isEpochRevealed 5 (emptyWorld\<lparr>epochs := [(blankEpoch 7)\<lparr>epochEndedAt := Some 6\<rparr>]\<rparr>) 7
   \<and> 7 \<notin> getRevealedEpochIds 5 (emptyWorld\<lparr>epochs := [(blankEpoch 7)\<lparr>epochEndedAt := Some 6\<rparr>]\<rparr>)"
  using reveal_gates_agree
    [of "emptyWorld\<lparr>epochs := [(blankEpoch 7)\<lparr>epochEndedAt := Some 6\<rparr>]\<rparr>" 5 7]
  by (simp add: isEpochRevealed_def findEpoch_def blankEpoch_def)

end
