(* ===== verification/BaseRelay.thy ===== *)
theory BaseRelay
  imports BaseConfirmer Megapot "HOL-Library.List_Lexorder" "HOL-Library.Char_ord"
    "HOL-Library.Multiset"
begin

text \<open>
  \<open>workers/baseRelayWorker.ts\<close>: one job of the relay queue. An order is locked, batches left in
  flight are resolved, and its tickets are bought on Base in chunks, each waited for. A failure
  keeps what the earlier steps wrote; the result says whether the job ended or threw (BullMQ then
  retries it).
\<close>

section \<open>Constants and chunk ids\<close>

definition RELAYABLE :: "orderStatus list" where
  "RELAYABLE = [QUEUED, RETRY_PENDING, DEFERRED, SOLANA_CONFIRMED]"

definition RECEIPT_POLL_MS :: int where "RECEIPT_POLL_MS = 3000"

definition RECEIPT_TIMEOUT_MS :: int where "RECEIPT_TIMEOUT_MS = 3 * 60000"

definition baseTicketChunkSize :: nat where "baseTicketChunkSize = 15"

fun joinComma :: "string list \<Rightarrow> string" where
  "joinComma [] = []"
| "joinComma [x] = x"
| "joinComma (x # y # zs) = x @ '','' @ joinComma (y # zs)"

definition chunkKey :: "ticket list \<Rightarrow> string" where
  "chunkKey chunk = joinComma (sort (map ticketId chunk))"

definition deriveChunkOrderId :: "baseEnv \<Rightarrow> ticket list \<Rightarrow> string" where
  "deriveChunkOrderId env chunk = keccak env (chunkKey chunk)"

section \<open>Waiting for a receipt\<close>

text \<open>
  \<open>pollClock h 0\<close> is the clock when the wait starts, \<open>pollClock h (Suc k)\<close> at the test before poll
  \<open>k\<close>. \<open>None\<close> stands for a loop that has not ended with the fuel.
\<close>

fun waitLoop :: "baseEnv \<Rightarrow> string \<Rightarrow> int \<Rightarrow> nat \<Rightarrow> nat \<Rightarrow> (ethError, receipt option) result option" where
  "waitLoop env h deadline 0 k = None"
| "waitLoop env h deadline (Suc n) k =
     (if pollClock env h (Suc k) < deadline then
        (case pollReceipt env h k of
           Inl e \<Rightarrow> Some (Inl e)
         | Inr (Some r) \<Rightarrow> Some (Inr (Some r))
         | Inr None \<Rightarrow> waitLoop env h deadline n (Suc k))
      else Some (Inr None))"

definition WAIT_FUEL :: nat where "WAIT_FUEL = 61"

definition waitForReceipt :: "baseEnv \<Rightarrow> string \<Rightarrow> (ethError, receipt option) result option" where
  "waitForReceipt env h = waitLoop env h (pollClock env h 0 + RECEIPT_TIMEOUT_MS) WAIT_FUEL 0"

text \<open>The wait as the callers see it; that the first case does not arise is a theorem below.\<close>

definition awaitReceipt :: "baseEnv \<Rightarrow> string \<Rightarrow> (ethError, receipt option) result" where
  "awaitReceipt env h =
     (case waitForReceipt env h of None \<Rightarrow> Inl (newError ''still polling'') | Some r \<Rightarrow> r)"

section \<open>Batches\<close>

definition setNftTx :: "string \<Rightarrow> int \<Rightarrow> ticket \<Rightarrow> ticket" where
  "setNftTx txHash n t = t\<lparr>megapotNftId := Some (bigIntToString n), ticketTxHash := Some txHash\<rparr>"

definition updBatches :: "string \<Rightarrow> (relayBatch \<Rightarrow> relayBatch) \<Rightarrow> world \<Rightarrow> world" where
  "updBatches b f w = w\<lparr>relayBatches := updateMany (\<lambda>x. rbId x = b) f (relayBatches w)\<rparr>"

definition finalizeChunkSuccess ::
  "int \<Rightarrow> string \<Rightarrow> ticket list \<Rightarrow> string \<Rightarrow> int list \<Rightarrow> world \<Rightarrow> world" where
  "finalizeChunkSuccess now b chunk txHash nfts w =
     (updBatches b (\<lambda>x. x\<lparr>rbStatus := CONFIRMED, rbConfirmedAt := Some now\<rparr>) w)
       \<lparr>tickets := stampTickets (setNftTx txHash) (map ticketId chunk) nfts (tickets w)\<rparr>"

definition releaseChunk :: "string \<Rightarrow> string list \<Rightarrow> string \<Rightarrow> world \<Rightarrow> world" where
  "releaseChunk b ids reason w =
     updBatches b (\<lambda>x. x\<lparr>rbStatus := HV_FAILED, rbError := Some (take 2000 reason)\<rparr>)
       (updTickets (\<lambda>t. ticketId t \<in> set ids) (\<lambda>t. t\<lparr>relayBatchId := None\<rparr>) w)"

definition handleChunkRevert ::
  "baseEnv \<Rightarrow> string \<Rightarrow> ticket list \<Rightarrow> string \<Rightarrow> world \<Rightarrow> (ethError, bool) result \<times> world" where
  "handleChunkRevert env b chunk txHash w =
     (case classifyMinedRevert env txHash of
        Inl e \<Rightarrow> (Inl e, w)
      | Inr cls \<Rightarrow>
        (let failed = (Inr False, releaseChunk b (map ticketId chunk) (''reverted on-chain: '' @
                classKind cls @ '' '' @
                case_option ''Already processed, but fulfillment unrecoverable'' id (classReason cls)) w)
         in if cls = AlreadyProcessed then
              (case findExistingFulfillment env (deriveChunkOrderId env chunk) of
                 Some (tx, ids) \<Rightarrow> (Inr True, finalizeChunkSuccess (envEnd env) b chunk tx ids w)
               | None \<Rightarrow> failed)
            else failed))"

section \<open>Batches left in flight\<close>

definition resolveBatch ::
  "baseEnv \<Rightarrow> relayBatch \<Rightarrow> ticket list \<Rightarrow> world \<Rightarrow> ethError option \<times> world" where
  "resolveBatch env b chunk w =
     (case rbTxHash b of
        None \<Rightarrow> (None, releaseChunk (rbId b) (map ticketId chunk) ''No txHash'' w)
      | Some h \<Rightarrow>
        (if h = [] then (None, releaseChunk (rbId b) (map ticketId chunk) ''No txHash'' w)
         else case awaitReceipt env h of
           Inl e \<Rightarrow> (Some e, w)
         | Inr None \<Rightarrow> (None, releaseChunk (rbId b) (map ticketId chunk) ''unconfirmed after timeout'' w)
         | Inr (Some rc) \<Rightarrow>
             (if receiptStatus rc = 1 then
                (None, finalizeChunkSuccess (envNow env) (rbId b) chunk h
                         (parseTicketIds env (receiptLogs rc)) w)
              else case handleChunkRevert env (rbId b) chunk h w of
                  (Inl e, w') \<Rightarrow> (Some e, w')
                | (Inr _, w') \<Rightarrow> (None, w'))))"

fun resolveBatches ::
  "baseEnv \<Rightarrow> (relayBatch \<times> ticket list) list \<Rightarrow> world \<Rightarrow> ethError option \<times> world" where
  "resolveBatches env [] w = (None, w)"
| "resolveBatches env ((b, chunk) # bs) w =
     (case resolveBatch env b chunk w of
        (Some e, w') \<Rightarrow> (Some e, w')
      | (None, w') \<Rightarrow> resolveBatches env bs w')"

definition batchTickets :: "world \<Rightarrow> string \<Rightarrow> ticket list" where
  "batchTickets w b = filter (\<lambda>t. relayBatchId t = Some b) (tickets w)"

definition resolveInFlightBatches :: "baseEnv \<Rightarrow> string \<Rightarrow> world \<Rightarrow> ethError option \<times> world" where
  "resolveInFlightBatches env hash w =
     resolveBatches env
       (map (\<lambda>b. (b, batchTickets w (rbId b)))
         (filter (\<lambda>b. rbOrder b = hash \<and> rbStatus b = SUBMITTED) (relayBatches w))) w"

section \<open>One chunk\<close>

definition bindChunk :: "baseEnv \<Rightarrow> string \<Rightarrow> int \<Rightarrow> ticket list \<Rightarrow> world \<Rightarrow> string \<times> world" where
  "bindChunk env hash idx chunk w =
     (let b = uuid env (uuidNext w) in
      (b, updTickets (\<lambda>t. ticketId t \<in> ticketId ` set chunk) (\<lambda>t. t\<lparr>relayBatchId := Some b\<rparr>)
            (w\<lparr>relayBatches := relayBatches w @ [newRelayBatch b hash idx (envNow env)],
               uuidNext := Suc (uuidNext w)\<rparr>)))"

definition submitAndConfirmChunk ::
  "baseEnv \<Rightarrow> string \<Rightarrow> int \<Rightarrow> ticket list \<Rightarrow> world \<Rightarrow> ethError option \<times> world" where
  "submitAndConfirmChunk env hash idx chunk w =
     (let (b, w1) = bindChunk env hash idx chunk w in
      case submitBuyTickets env (deriveChunkOrderId env chunk)
             (map (\<lambda>t. (normalBalls t, bonusBall t)) chunk) hash w1 of
        (Inl e, w2) \<Rightarrow> (Some e, w2)
      | (Inr (h, n), w2) \<Rightarrow>
        (let w3 = updBatches b (\<lambda>x. x\<lparr>rbTxHash := Some h\<rparr>) w2 in
         case awaitReceipt env h of
           Inl e \<Rightarrow> (Some e, w3)
         | Inr None \<Rightarrow>
             (Some (newError (''Batch '' @ b @ '' tx '' @ h @ '' did not confirm in time'')),
              releaseChunk b (map ticketId chunk) ''unconfirmed after timeout'' w3)
         | Inr (Some rc) \<Rightarrow>
             (if receiptStatus rc \<noteq> 1 then
                (case handleChunkRevert env b chunk h w3 of
                   (Inl e, w4) \<Rightarrow> (Some e, w4)
                 | (Inr True, w4) \<Rightarrow> (None, w4)
                 | (Inr False, w4) \<Rightarrow>
                     (Some (newError (''Batch '' @ b @ '' tx '' @ h @ '' reverted on-chain'')), w4))
              else (None, finalizeChunkSuccess (envEnd env) b chunk h
                            (parseTicketIds env (receiptLogs rc)) w3))))"

fun submitChunks ::
  "baseEnv \<Rightarrow> string \<Rightarrow> int \<Rightarrow> ticket list list \<Rightarrow> world \<Rightarrow> ethError option \<times> world" where
  "submitChunks env hash idx [] w = (None, w)"
| "submitChunks env hash idx (c # cs) w =
     (case submitAndConfirmChunk env hash idx c w of
        (Some e, w') \<Rightarrow> (Some e, w')
      | (None, w') \<Rightarrow> submitChunks env hash (idx + 1) cs w')"

section \<open>The job\<close>

datatype jobOutcome = JobDone | JobThrew string

definition updOrder :: "int \<Rightarrow> string \<Rightarrow> (relayOrder \<Rightarrow> relayOrder) \<Rightarrow> world \<Rightarrow> world" where
  "updOrder now hash f = updOrders (\<lambda>r. orderHash r = hash) (\<lambda>r. (f r)\<lparr>updatedAt := now\<rparr>)"

definition pendingTickets :: "world \<Rightarrow> string \<Rightarrow> ticket list" where
  "pendingTickets w hash =
     filter (\<lambda>t. ticketOrder t = hash \<and> megapotNftId t = None \<and> relayBatchId t = None) (tickets w)"

text \<open>Inside the lock: resolve, then buy what is pending. The error is the first one thrown.\<close>

definition relayLocked :: "baseEnv \<Rightarrow> string \<Rightarrow> world \<Rightarrow> ethError option \<times> world" where
  "relayLocked env hash w =
     (case resolveInFlightBatches env hash w of
        (Some e, w') \<Rightarrow> (Some e, w')
      | (None, w') \<Rightarrow>
          submitChunks env hash (int (countMany (\<lambda>b. rbOrder b = hash) (relayBatches w')))
            (chunksOf baseTicketChunkSize (pendingTickets w' hash)) w')"

definition orderNfts :: "world \<Rightarrow> string \<Rightarrow> string list" where
  "orderNfts w hash =
     List.map_filter megapotNftId (filter (\<lambda>t. ticketOrder t = hash) (tickets w))"

definition relaySuccess :: "baseEnv \<Rightarrow> relayOrder \<Rightarrow> roundState \<Rightarrow> world \<Rightarrow> world" where
  "relaySuccess env o1 rnd w =
     debitVaultBalanceCache (amountUsdc o1)
       (updOrder (envEnd env) (orderHash o1)
          (\<lambda>r. r\<lparr>orderStatus := SUCCESS, fulfillEpoch := rsId rnd,
                 megapotTicketIds := orderNfts w (orderHash o1), lastError := None,
                 nextRetryAt := None\<rparr>) w)"

definition processingSel :: "string \<Rightarrow> relayOrder \<Rightarrow> bool" where
  "processingSel hash r = (orderHash r = hash \<and> orderStatus r = PROCESSING)"

definition relayFailure ::
  "baseEnv \<Rightarrow> relayOrder \<Rightarrow> string list \<Rightarrow> ethError \<Rightarrow> world \<Rightarrow> jobOutcome \<times> world" where
  "relayFailure env o1 tids e w =
     (let hash = orderHash o1; now = envEnd env; attempt = attemptCount o1 + 1;
          retry = (\<lambda>status reason due. newAttempt (uuid env) hash attempt None reason now
             (updOrder now hash (\<lambda>r. r\<lparr>orderStatus := status, lastError := Some (take 2000 reason),
                 nextRetryAt := due, attemptCount := attemptCount r + 1\<rparr>) w))
      in case classifyError env e of
           AlreadyProcessed \<Rightarrow>
             (case findExistingFulfillment env hash of
                Some (tx, ids) \<Rightarrow> (JobDone, finalizeOrderSuccess now hash tids tx ids w)
              | None \<Rightarrow> (JobDone, updOrders (processingSel hash)
                  (\<lambda>r. r\<lparr>orderStatus := RETRY_PENDING,
                         lastError := Some ''Fulfilled on-chain but TicketsRouted event not found'',
                         attemptCount := attemptCount r + 1,
                         nextRetryAt := Some (now + maxBackoffMs), updatedAt := now\<rparr>) w))
         | Paused r \<Rightarrow> (JobDone, updOrders (processingSel hash)
                  (\<lambda>x. x\<lparr>orderStatus := DEFERRED, lastError := Some r, updatedAt := now\<rparr>) w)
         | Permanent r \<Rightarrow> (JobDone, retry FAILED_PERMANENT r None)
         | Transient r \<Rightarrow> (JobThrew r, retry RETRY_PENDING r (Some (now + backoffMs attempt))))"

definition lockSel :: "string \<Rightarrow> relayOrder \<Rightarrow> bool" where
  "lockSel hash r = (orderHash r = hash \<and> orderStatus r \<in> set RELAYABLE)"

definition markProcessing :: "int \<Rightarrow> relayOrder \<Rightarrow> relayOrder" where
  "markProcessing now r = r\<lparr>orderStatus := PROCESSING, updatedAt := now\<rparr>"

text \<open>The balance the gate compares, after the one refresh a small cache allows.\<close>

definition relayBalance ::
  "baseEnv \<Rightarrow> int \<Rightarrow> world \<Rightarrow> (ethError, int) result \<times> world" where
  "relayBalance env need w =
     (case getCachedVaultUsdcBalance env w of
        (Inl e, w1) \<Rightarrow> (Inl e, w1)
      | (Inr b, w1) \<Rightarrow>
        (if b < need then
           (case refreshVaultBalanceCache env 1 w1 of
              (Inr b', w2) \<Rightarrow> (Inr b', w2) | (Inl _, w2) \<Rightarrow> (Inr b, w2))
         else (Inr b, w1)))"

definition relayJob :: "baseEnv \<Rightarrow> string \<Rightarrow> world \<Rightarrow> jobOutcome \<times> world" where
  "relayJob env hash w =
     (if hash = [] then (JobDone, w)
      else case List.find (\<lambda>r. orderHash r = hash) (orders w) of
        None \<Rightarrow> (JobDone, w)
      | Some o1 \<Rightarrow>
        (let tids = ticketIdsOf w hash; now = envNow env in
         if orderStatus o1 = BASE_SUBMITTED then (JobDone, w)
         else if orderStatus o1 \<notin> set RELAYABLE then (JobDone, w)
         else case getActiveRound w of
           Inl e \<Rightarrow> (JobThrew e, w)
         | Inr rnd \<Rightarrow>
           (if isRoundLocked now rnd \<or> isProtocolPaused w then
              (JobDone, updOrder now hash (\<lambda>r. r\<lparr>orderStatus := DEFERRED,
                 lastError := Some ''Megapot locked or protocol paused''\<rparr>) w)
            else case relayBalance env (amountUsdc o1) w of
              (Inl e, w1) \<Rightarrow> (JobThrew (errorMessage e), w1)
            | (Inr balance, w1) \<Rightarrow>
              (if balance < amountUsdc o1 then
                 (JobThrew ''Base vault underfunded'',
                  updOrder now hash (\<lambda>r. r\<lparr>orderStatus := RETRY_PENDING,
                     lastError := Some (''Insufficient Base vault USDC: have '' @
                        bigIntToString balance @ '', need '' @ bigIntToString (amountUsdc o1)),
                     nextRetryAt := Some (now + 60000), attemptCount := attemptCount r + 1\<rparr>) w1)
               else if countMany (lockSel hash) (orders w1) = 0 then (JobDone, w1)
               else
                 (case relayLocked env hash (updOrders (lockSel hash) (markProcessing now) w1) of
                    (None, w2) \<Rightarrow> (JobDone, relaySuccess env o1 rnd w2)
                  | (Some e, w2) \<Rightarrow> relayFailure env o1 tids e w2)))))"

section \<open>Chunk ids\<close>

definition plainId :: "string \<Rightarrow> bool" where
  "plainId s = (s \<noteq> [] \<and> CHR '','' \<notin> set s)"

lemma joinComma_Cons: "joinComma (x # xs) = x @ (if xs = [] then [] else CHR '','' # joinComma xs)"
  by (cases xs) auto

lemma comma_split:
  assumes "plainId x" "plainId y" "r = [] \<or> hd r = CHR '',''" "s = [] \<or> hd s = CHR '',''"
    and "x @ r = y @ s"
  shows "x = y \<and> r = s"
proof -
  have tw: "takeWhile (\<lambda>c. c \<noteq> CHR '','') (z @ q) = z"
    if "plainId z" "q = [] \<or> hd q = CHR '',''" for z q
    using that by (cases q) (auto simp: plainId_def takeWhile_append)
  have "x = y" using tw [OF assms(1,3)] tw [OF assms(2,4)] assms(5) by simp
  with assms(5) show ?thesis by simp
qed

lemma joinComma_inj:
  "list_all plainId xs \<Longrightarrow> list_all plainId ys \<Longrightarrow> joinComma xs = joinComma ys \<Longrightarrow> xs = ys"
proof (induction xs arbitrary: ys)
  case Nil
  then show ?case by (cases ys) (auto simp: joinComma_Cons plainId_def split: if_splits)
next
  case (Cons x xs)
  then obtain y zs where ys: "ys = y # zs"
    by (cases ys) (auto simp: joinComma_Cons plainId_def split: if_splits)
  let ?r = "\<lambda>l. if l = [] then [] else CHR '','' # joinComma l"
  have "x @ ?r xs = y @ ?r zs" using Cons.prems(3) unfolding ys joinComma_Cons .
  moreover have "plainId x" "plainId y" using Cons.prems ys by auto
  ultimately have "x = y \<and> ?r xs = ?r zs" by (intro comma_split) auto
  moreover from this have "xs = zs"
    using Cons.IH [of zs] Cons.prems ys by (auto split: if_splits)
  ultimately show ?case using ys by simp
qed

lemma sort_eq_iff: "sort xs = sort ys \<longleftrightarrow> mset xs = mset (ys :: string list)"
proof
  assume "sort xs = sort ys"
  then have "mset (sort xs) = mset (sort ys)" by (rule arg_cong)
  then show "mset xs = mset ys" by (simp only: mset_sort)
next
  assume "mset xs = mset ys"
  then show "sort xs = sort ys" by (intro properties_for_sort) simp_all
qed

text \<open>
  C8: two chunks get the same order id on Base exactly when they hold the same tickets, in whatever
  order, provided the hash does not collide on their keys and ids are non-empty without a comma
  (as UUIDs are). A retry of the same set is therefore recognised by the vault's guard, and a
  different grouping of the same tickets is not.
\<close>
theorem chunk_id_iff_same_tickets:
  assumes "inj_on (keccak env) {chunkKey a, chunkKey b}"
    and "list_all plainId (map ticketId a)" "list_all plainId (map ticketId b)"
  shows "deriveChunkOrderId env a = deriveChunkOrderId env b
     \<longleftrightarrow> mset (map ticketId a) = mset (map ticketId b)"
proof -
  have "deriveChunkOrderId env a = deriveChunkOrderId env b \<longleftrightarrow> chunkKey a = chunkKey b"
    using assms(1) by (auto simp: deriveChunkOrderId_def dest: inj_onD)
  also have "\<dots> \<longleftrightarrow> sort (map ticketId a) = sort (map ticketId b)"
    using joinComma_inj [of "sort (map ticketId a)" "sort (map ticketId b)"] assms(2,3)
    by (auto simp: chunkKey_def list_all_iff)
  also have "\<dots> \<longleftrightarrow> mset (map ticketId a) = mset (map ticketId b)"
    by (rule sort_eq_iff)
  finally show ?thesis .
qed

theorem chunk_id_iff_same_tickets_witness:
  "deriveChunkOrderId quietEnv [newTicket ''a'' ''h'' 1 [], newTicket ''b'' ''h'' 1 []]
     = deriveChunkOrderId quietEnv [newTicket ''b'' ''h'' 1 [], newTicket ''a'' ''h'' 1 []]
   \<and> deriveChunkOrderId quietEnv [newTicket ''a'' ''h'' 1 []]
     \<noteq> deriveChunkOrderId quietEnv [newTicket ''b'' ''h'' 1 []]"
  using chunk_id_iff_same_tickets [of quietEnv "[newTicket ''a'' ''h'' 1 [], newTicket ''b'' ''h'' 1 []]"
      "[newTicket ''b'' ''h'' 1 [], newTicket ''a'' ''h'' 1 []]"]
    chunk_id_iff_same_tickets [of quietEnv "[newTicket ''a'' ''h'' 1 []]" "[newTicket ''b'' ''h'' 1 []]"]
  by (simp add: quietEnv_def newTicket_def plainId_def)

section \<open>The wait for a receipt ends\<close>

definition steadyClock :: "baseEnv \<Rightarrow> string \<Rightarrow> bool" where
  "steadyClock env h \<longleftrightarrow> pollClock env h 0 \<le> pollClock env h 1
     \<and> (\<forall>k. pollClock env h (Suc k) + RECEIPT_POLL_MS \<le> pollClock env h (Suc (Suc k)))"

lemma steadyClock_after: "steadyClock env h \<Longrightarrow> pollClock env h 0 + 3000 * int k \<le> pollClock env h (Suc k)"
proof (induction k)
  case (Suc k)
  then have "pollClock env h (Suc k) + 3000 \<le> pollClock env h (Suc (Suc k))"
    by (simp add: steadyClock_def RECEIPT_POLL_MS_def)
  with Suc show ?case by simp
qed (simp add: steadyClock_def)

lemma waitLoop_ends:
  assumes "\<And>j. k + n \<le> j \<Longrightarrow> deadline \<le> pollClock env h (Suc j)"
  shows "\<exists>r. waitLoop env h deadline (Suc n) k = Some r"
  using assms
proof (induction n arbitrary: k)
  case 0
  then have "\<not> pollClock env h (Suc k) < deadline" by (simp add: not_less)
  then show ?case by simp
next
  case (Suc n)
  have "\<exists>r. waitLoop env h deadline (Suc n) (Suc k) = Some r"
    by (rule Suc.IH) (simp add: Suc.prems)
  then obtain r where "waitLoop env h deadline (Suc n) (Suc k) = Some r" by blast
  then show ?case
    by (subst waitLoop.simps(2)) (simp del: waitLoop.simps split: sum.split option.split)
qed

text \<open>
  C9: the wait for a receipt always ends: with a clock that advances by the poll interval between
  two tests, 61 iterations are enough for the deadline of three minutes, whatever the node answers.
\<close>
theorem waitForReceipt_ends:
  assumes "steadyClock env h"
  shows "\<exists>r. waitForReceipt env h = Some r"
proof -
  have "pollClock env h 0 + RECEIPT_TIMEOUT_MS \<le> pollClock env h (Suc j)" if "60 \<le> j" for j
    using steadyClock_after [OF assms, of j] that by (simp add: RECEIPT_TIMEOUT_MS_def)
  then have "\<exists>r. waitLoop env h (pollClock env h 0 + RECEIPT_TIMEOUT_MS) (Suc 60) 0 = Some r"
    by (intro waitLoop_ends) simp
  then show ?thesis by (simp only: waitForReceipt_def WAIT_FUEL_def) simp
qed

theorem waitForReceipt_ends_witness:
  "\<exists>r. waitForReceipt (quietEnv\<lparr>pollReceipt := \<lambda>_ _. Inr None\<rparr>) ''0xt'' = Some r"
  by (rule waitForReceipt_ends) (simp add: steadyClock_def quietEnv_def RECEIPT_POLL_MS_def)

section \<open>What a job writes\<close>

lemma updBatches_sel [simp]:
  "orders (updBatches b f w) = orders w" "tickets (updBatches b f w) = tickets w"
  "roundCache (updBatches b f w) = roundCache w"
  by (simp_all add: updBatches_def)

lemma setNftTx_keeps [simp]: "ticketId (setNftTx tx n t) = ticketId t" "ticketStep t (setNftTx tx n t)"
  by (simp_all add: setNftTx_def ticketStep_same)

lemma finalizeChunk_sel [simp]:
  "orders (finalizeChunkSuccess now b c tx ids w) = orders w"
  "roundCache (finalizeChunkSuccess now b c tx ids w) = roundCache w"
  "tickets (finalizeChunkSuccess now b c tx ids w)
   = stampTickets (setNftTx tx) (map ticketId c) ids (tickets w)"
  by (simp_all add: finalizeChunkSuccess_def)

lemma releaseChunk_sel [simp]:
  "orders (releaseChunk b ids reason w) = orders w"
  "roundCache (releaseChunk b ids reason w) = roundCache w"
  "tickets (releaseChunk b ids reason w)
   = updateMany (\<lambda>t. ticketId t \<in> set ids) (\<lambda>t. t\<lparr>relayBatchId := None\<rparr>) (tickets w)"
  by (simp_all add: releaseChunk_def)

lemma bindChunk_sel:
  "orders (snd (bindChunk env h i c w)) = orders w"
  "roundCache (snd (bindChunk env h i c w)) = roundCache w"
  "tickets (snd (bindChunk env h i c w))
   = updateMany (\<lambda>t. ticketId t \<in> ticketId ` set c)
       (\<lambda>t. t\<lparr>relayBatchId := Some (uuid env (uuidNext w))\<rparr>) (tickets w)"
  "fst (bindChunk env h i c w) = uuid env (uuidNext w)"
  by (simp_all add: bindChunk_def Let_def)

lemma laneSubmit_sel:
  "laneSubmit p send w = (r, w') \<Longrightarrow>
   orders w' = orders w \<and> tickets w' = tickets w \<and> roundCache w' = roundCache w"
  by (auto simp: laneSubmit_def resetNonceLane_def split: option.splits sum.splits)

text \<open>Inside the lock nothing writes an order or the cached round, and tickets keep their contract.\<close>

definition jobKeeps :: "world \<Rightarrow> world \<Rightarrow> bool" where
  "jobKeeps w w' \<longleftrightarrow> orders w' = orders w \<and> roundCache w' = roundCache w
     \<and> ticketsGrow (tickets w) (tickets w')"

lemma jobKeeps_refl [simp]: "jobKeeps w w"
  by (simp add: jobKeeps_def)

lemma jobKeeps_trans: "jobKeeps u v \<Longrightarrow> jobKeeps v w \<Longrightarrow> jobKeeps u w"
  unfolding jobKeeps_def by (metis ticketsGrow_trans)

lemma finalizeChunk_keeps [simp]: "jobKeeps w (finalizeChunkSuccess now b c tx ids w)"
  by (simp add: jobKeeps_def stampTickets_grow)

lemma releaseChunk_keeps [simp]: "jobKeeps w (releaseChunk b ids reason w)"
  by (simp add: jobKeeps_def ticketsGrow_updateMany ticketStep_same)

lemma bindChunk_keeps: "jobKeeps w (snd (bindChunk env h i c w))"
  by (simp add: jobKeeps_def bindChunk_sel ticketsGrow_updateMany ticketStep_same)

lemma updBatches_keeps: "jobKeeps w v \<Longrightarrow> jobKeeps w (updBatches b f v)"
  by (simp add: jobKeeps_def)

lemma handleChunkRevert_keeps: "jobKeeps w (snd (handleChunkRevert env b c tx w))"
  by (simp add: handleChunkRevert_def Let_def split: confirm_splits)

lemma resolveBatch_keeps: "jobKeeps w (snd (resolveBatch env b c w))"
  using handleChunkRevert_keeps [of w env "rbId b" c]
  by (auto simp: resolveBatch_def split: confirm_splits) (metis snd_conv)+

lemma resolveBatches_keeps: "jobKeeps w (snd (resolveBatches env bs w))"
proof (induction env bs w rule: resolveBatches.induct)
  case (2 env b c bs w)
  obtain e w' where r: "resolveBatch env b c w = (e, w')" by fastforce
  have "jobKeeps w w'" using resolveBatch_keeps [of w env b c] r by simp
  then show ?case using 2 r by (cases e) (auto intro: jobKeeps_trans)
qed simp

text \<open>Whatever every write of a chunk keeps, the chunk keeps.\<close>

lemma submitChunk_rule:
  assumes "P (snd (bindChunk env h i c w))"
    and "\<And>u oid ts. P u \<Longrightarrow> P (snd (submitBuyTickets env oid ts h u))"
    and "\<And>u b f. P u \<Longrightarrow> P (updBatches b f u)"
    and "\<And>u b ids r. P u \<Longrightarrow> P (releaseChunk b ids r u)"
    and "\<And>u b tx. P u \<Longrightarrow> P (snd (handleChunkRevert env b c tx u))"
    and "\<And>u b tx ids. P u \<Longrightarrow> P (finalizeChunkSuccess (envEnd env) b c tx ids u)"
  shows "P (snd (submitAndConfirmChunk env h i c w))"
proof -
  obtain b w1 where b: "bindChunk env h i c w = (b, w1)" by fastforce
  obtain r w2 where r: "submitBuyTickets env (deriveChunkOrderId env c)
      (map (\<lambda>t. (normalBalls t, bonusBall t)) c) h w1 = (r, w2)" by fastforce
  have "P w1" using assms(1) b by simp
  then have p: "P w2" using assms(2) r by (metis snd_conv)
  show ?thesis
  proof (cases r)
    case (Inl e)
    then show ?thesis using p by (simp add: submitAndConfirmChunk_def b r)
  next
    case (Inr hn)
    obtain tx n where hn: "hn = (tx, n)" by fastforce
    let ?w = "updBatches b (\<lambda>x. x\<lparr>rbTxHash := Some tx\<rparr>) w2"
    have q: "P ?w" by (rule assms(3) [OF p])
    obtain v w4 where v: "handleChunkRevert env b c tx ?w = (v, w4)" by fastforce
    have "P w4" using assms(5) [OF q] v by (metis snd_conv)
    then show ?thesis using q assms(4,6)
      by (simp add: submitAndConfirmChunk_def b r Inr hn v Let_def split: sum.split option.split bool.split)
  qed
qed

lemma submitChunk_keeps: "jobKeeps w (snd (submitAndConfirmChunk env h i c w))"
proof (rule submitChunk_rule)
  fix u :: world and oid ts assume "jobKeeps w u"
  moreover have "orders v = orders u \<and> tickets v = tickets u \<and> roundCache v = roundCache u"
    if "submitBuyTickets env oid ts h u = (r, v)" for r v
    using laneSubmit_sel that unfolding submitBuyTickets_def by blast
  ultimately show "jobKeeps w (snd (submitBuyTickets env oid ts h u))"
    unfolding jobKeeps_def by (metis prod.collapse)
qed (simp_all add: bindChunk_keeps updBatches_keeps jobKeeps_trans [OF _ releaseChunk_keeps]
      jobKeeps_trans [OF _ handleChunkRevert_keeps] jobKeeps_trans [OF _ finalizeChunk_keeps])

lemma submitChunks_keeps: "jobKeeps w (snd (submitChunks env h i cs w))"
proof (induction env h i cs w rule: submitChunks.induct)
  case (2 env h i c cs w)
  obtain e w' where r: "submitAndConfirmChunk env h i c w = (e, w')" by fastforce
  have "jobKeeps w w'" using submitChunk_keeps [of w env h i c] r by simp
  then show ?case using 2 r by (cases e) (auto intro: jobKeeps_trans)
qed simp

lemma relayLocked_keeps: "jobKeeps w (snd (relayLocked env h w))"
proof -
  obtain e w' where r: "resolveInFlightBatches env h w = (e, w')" by fastforce
  have k: "jobKeeps w w'"
    using resolveBatches_keeps [of w env] r unfolding resolveInFlightBatches_def by (metis snd_conv)
  show ?thesis
    using k jobKeeps_trans [OF k submitChunks_keeps] by (cases e) (simp_all add: relayLocked_def r)
qed

text \<open>
  Rows with an id in \<open>S\<close> may change as \<open>G\<close> allows, all others stay; ids, orders, balls and the
  graded fields stay, and an NFT id is never lost.
\<close>

definition rowStep :: "string set \<Rightarrow> (ticket \<Rightarrow> bool) \<Rightarrow> ticket \<Rightarrow> ticket \<Rightarrow> bool" where
  "rowStep S G t t' \<longleftrightarrow> ticketStep t t' \<and> (megapotNftId t \<noteq> None \<longrightarrow> megapotNftId t' \<noteq> None)
     \<and> (if ticketId t \<in> S then G t' else t' = t)"

lemma updateMany_rowStep:
  assumes "\<And>t. sel t \<longleftrightarrow> ticketId t \<in> S"
    and "\<And>t. ticketStep t (upd t) \<and> (megapotNftId t \<noteq> None \<longrightarrow> megapotNftId (upd t) \<noteq> None) \<and> G (upd t)"
  shows "list_all2 (rowStep S G) ts (updateMany sel upd ts)"
  using assms by (induction ts) (auto simp: rowStep_def)

definition stamped :: "ticket \<Rightarrow> bool" where
  "stamped t = (megapotNftId t \<noteq> None)"

lemma stamp_rowStep:
  assumes "length is \<le> length ns"
    and "\<And>n t. ticketId (f n t) = ticketId t" "\<And>n t. ticketStep t (f n t)" "\<And>n t. stamped (f n t)"
  shows "list_all2 (rowStep (set is) stamped) ts (stampTickets f is ns ts)"
proof -
  let ?row = "fold (\<lambda>(i, n) t. if ticketId t = i then f n t else t) (zip is ns)"
  have "map fst (zip is ns) = is" using assms(1) by (simp add: map_fst_zip_take)
  then have keys: "fst ` set (zip is ns) = set is" by (simp add: set_map [symmetric] del: set_map)
  have step: "ticketStep t (fold (\<lambda>(i, n) t. if ticketId t = i then f n t else t) zs t)
     \<and> (stamped t \<longrightarrow> stamped (fold (\<lambda>(i, n) t. if ticketId t = i then f n t else t) zs t))" for t zs
  proof (induction zs arbitrary: t)
    case (Cons z zs)
    obtain i n where z: "z = (i, n)" by fastforce
    show ?case
      using Cons.IH [of t] Cons.IH [of "f n t"] assms(3) [of t n] assms(4) [of n t] ticketStep_trans
      by (simp add: z)
  qed simp
  have "rowStep (set is) stamped t (?row t)" for t
    using step [of t "zip is ns"] stamp_row_other [of t "zip is ns" f]
      stamp_row_hit [of f stamped t "zip is ns", OF assms(2) assms(4)]
    by (auto simp: rowStep_def keys stamped_def)
  then show ?thesis unfolding stampTickets_map by (simp add: list_all2_map2 list_all2_refl)
qed

section \<open>The job and the ticket contract\<close>

lemma updOrder_sel [simp]:
  "tickets (updOrder now h f w) = tickets w"
  "orders (updOrder now h f w)
   = updateMany (\<lambda>r. orderHash r = h) (\<lambda>r. (f r)\<lparr>updatedAt := now\<rparr>) (orders w)"
  by (simp_all add: updOrder_def)

lemma balance_sel [simp]:
  "orders (snd (relayBalance env n w)) = orders w" "tickets (snd (relayBalance env n w)) = tickets w"
  "roundCache (snd (relayBalance env n w)) = roundCache w"
  by (auto simp: relayBalance_def getCachedVaultUsdcBalance_def refreshVaultBalanceCache_def
      split: option.splits sum.splits prod.splits if_splits)

lemma debit_sel [simp]:
  "orders (debitVaultBalanceCache a w) = orders w" "tickets (debitVaultBalanceCache a w) = tickets w"
  by (auto simp: debitVaultBalanceCache_def split: option.split)

lemma relayFailure_grow: "ticketsGrow (tickets w) (tickets (snd (relayFailure env o1 tids e w)))"
  by (simp add: relayFailure_def Let_def finalize_grow split: confirm_splits)

lemma relaySuccess_tickets [simp]: "tickets (relaySuccess env o1 rnd w) = tickets w"
  by (simp add: relaySuccess_def)

lemma relayJob_grow: "ticketsGrow (tickets w) (tickets (snd (relayJob env h w)))"
proof -
  have locked: "ticketsGrow (tickets v) (tickets v')" if "relayLocked env h u = (r, v')" "tickets u = tickets v"
    for u v r v'
    using relayLocked_keeps [of u env h] that by (simp add: jobKeeps_def)
  have failure: "ticketsGrow (tickets v) (tickets (snd (relayFailure env o1 tids e v')))"
    if "relayLocked env h u = (Some e, v')" "tickets u = tickets v" for u v v' o1 tids e
    using ticketsGrow_trans [OF locked [OF that] relayFailure_grow] .
  show ?thesis
  proof (cases "List.find (\<lambda>r. orderHash r = h) (orders w)")
    case None
    then show ?thesis by (simp add: relayJob_def)
  next
    case (Some o1)
    obtain b w1 where b: "relayBalance env (amountUsdc o1) w = (b, w1)" by fastforce
    have t: "tickets w1 = tickets w" using balance_sel(2) [of env "amountUsdc o1" w] b by simp
    obtain e w2 where r: "relayLocked env h (updOrders (lockSel h) (markProcessing (envNow env)) w1) = (e, w2)"
      by fastforce
    have l: "ticketsGrow (tickets w) (tickets w2)" using locked [OF r, of w] t by simp
    have f: "ticketsGrow (tickets w) (tickets (snd (relayFailure env o1 (ticketIdsOf w h) x w2)))" if "e = Some x" for x
      using failure [of _ x w2 w] r t that by fastforce
    show ?thesis
      unfolding relayJob_def Some b r Let_def using t l f
      by (auto simp: b r split: sum.split option.split)
  qed
qed

definition relayOp :: "baseEnv \<times> string \<Rightarrow> world \<Rightarrow> world" where
  "relayOp i w = snd (relayJob (fst i) (snd i) w)"

interpretation relayer: ticket_op relayOp
  by unfold_locales (simp add: relayOp_def relayJob_grow)

section \<open>What a job leaves of its order\<close>

definition jobStatuses :: "orderStatus set" where
  "jobStatuses = {SUCCESS, DEFERRED, RETRY_PENDING, FAILED_PERMANENT}"

definition jobRow :: "string \<Rightarrow> int option \<Rightarrow> jobOutcome \<Rightarrow> relayOrder \<Rightarrow> bool" where
  "jobRow h epoch out r \<longleftrightarrow> orderHash r = h \<and> orderStatus r \<in> jobStatuses
     \<and> (out \<noteq> JobDone \<longrightarrow> orderStatus r = RETRY_PENDING)
     \<and> (orderStatus r = SUCCESS \<longrightarrow> fulfillEpoch r = epoch)"

lemma relayFailure_rows:
  assumes "relayFailure env o1 tids e w = (out, w')" "r \<in> set (orders w')"
    and "\<And>x. x \<in> set (orders w) \<Longrightarrow> orderHash x = orderHash o1 \<Longrightarrow> orderStatus x = PROCESSING"
  shows "jobRow (orderHash o1) (Option.bind (roundCache w) rsId) out r
    \<or> (r \<in> set (orders w) \<and> orderHash r \<noteq> orderHash o1)"
  using assms
  by (auto simp: relayFailure_def Let_def finalize_orders set_updateMany jobRow_def jobStatuses_def
      markSuccess_def finalizable_def processingSel_def split: revertClass.splits option.splits if_splits)

lemma relaySuccess_rows:
  assumes "r \<in> set (orders (relaySuccess env o1 rnd w))"
  shows "jobRow (orderHash o1) (rsId rnd) JobDone r \<or> (r \<in> set (orders w) \<and> orderHash r \<noteq> orderHash o1)"
  using assms by (auto simp: relaySuccess_def set_updateMany jobRow_def jobStatuses_def split: if_splits)

lemma relayJob_rows:
  assumes "distinct (map orderHash (orders w))" and "relayJob env h w = (out, w')"
    and "r \<in> set (orders w')" "r \<notin> set (orders w)"
  shows "jobRow h (Option.bind (roundCache w) rsId) out r"
proof (cases "List.find (\<lambda>r. orderHash r = h) (orders w)")
  case None
  then show ?thesis using assms by (auto simp: relayJob_def split: if_splits)
next
  case (Some o1)
  have o1: "o1 \<in> set (orders w)" "orderHash o1 = h" using find_Some_iff_mem [OF Some] by auto
  have only: "x = o1" if "x \<in> set (orders w)" "orderHash x = h" for x
    using distinct_map_eq [OF assms(1) that(1) o1(1)] that(2) o1(2) by simp
  obtain b w1 where b: "relayBalance env (amountUsdc o1) w = (b, w1)" by fastforce
  have w1: "orders w1 = orders w" "roundCache w1 = roundCache w"
    using balance_sel [of env "amountUsdc o1" w] b by simp_all
  let ?wl = "updOrders (lockSel h) (markProcessing (envNow env)) w1"
  obtain e w2 where l: "relayLocked env h ?wl = (e, w2)" by fastforce
  have w2: "orders w2 = updateMany (lockSel h) (markProcessing (envNow env)) (orders w)"
    "roundCache w2 = roundCache w"
    using relayLocked_keeps [of ?wl env h] l w1 by (simp_all add: jobKeeps_def)
  have locked: "orderStatus x = PROCESSING" if st: "orderStatus o1 \<in> set RELAYABLE"
      and x: "x \<in> set (orders w2)" and hx: "orderHash x = h" for x
  proof -
    obtain y where y: "y \<in> set (orders w)"
      "x = (if lockSel h y then markProcessing (envNow env) y else y)"
      using x unfolding w2(1) set_updateMany by blast
    then have "orderHash y = h" using hx by (simp add: markProcessing_def split: if_splits)
    then have "y = o1" using only y(1) by blast
    then have "lockSel h y" using st o1(2) by (simp add: lockSel_def)
    then show ?thesis using y(2) by (simp add: markProcessing_def)
  qed
  have other: "x \<in> set (orders w)" if "x \<in> set (orders w2)" "orderHash x \<noteq> h" for x
    using that by (auto simp: w2 set_updateMany lockSel_def markProcessing_def split: if_splits)
  have fail: ?thesis if "relayFailure env o1 (ticketIdsOf w h) x w2 = (out, w')"
    "orderStatus o1 \<in> set RELAYABLE" for x
    using relayFailure_rows [OF that(1) assms(3)] locked [OF that(2)] other assms(4) o1(2) w2(2) by auto
  have succ: ?thesis if "w' = relaySuccess env o1 rnd w2" "out = JobDone" "roundCache w = Some rnd" for rnd
    using relaySuccess_rows [of r env o1 rnd w2] other assms(3,4) o1(2) that by auto
  have upd: ?thesis if "w' = updOrder (envNow env) h f v" "orders v = orders w"
      "\<And>x. orderHash (f x) = orderHash x"
      "\<And>x. orderStatus (f x) = st" "st \<in> {DEFERRED, RETRY_PENDING}" "out = JobDone \<or> st = RETRY_PENDING" for f v st
    using assms(3,4) that
    by (auto simp: set_updateMany jobRow_def jobStatuses_def split: if_splits)
  show ?thesis
    using assms(2-4) w1 fail succ upd
    unfolding relayJob_def Some Let_def option.case b prod.case l
    by (auto simp: getActiveRound_def split: if_splits sum.splits option.splits)
qed

lemma relayFailure_hashes:
  "map orderHash (orders (snd (relayFailure env o1 tids e w))) = map orderHash (orders w)"
  by (auto simp: relayFailure_def Let_def finalize_orders markSuccess_def intro!: map_updateMany_key
      split: revertClass.split option.split)

lemma relayJob_unrelayable:
  "List.find (\<lambda>r. orderHash r = h) (orders w) = Some o1 \<Longrightarrow> orderStatus o1 \<notin> set RELAYABLE \<Longrightarrow>
   relayJob env h w = (JobDone, w)"
  by (simp add: relayJob_def Let_def)

lemma relayJob_throws:
  assumes "relayJob env h w = (out, w')" "out \<noteq> JobDone"
  shows "\<exists>r \<in> set (orders w). orderHash r = h \<and> orderStatus r \<in> set RELAYABLE"
proof (cases "List.find (\<lambda>r. orderHash r = h) (orders w)")
  case (Some o1)
  then have "orderStatus o1 \<in> set RELAYABLE"
    using assms relayJob_unrelayable by (metis prod.inject)
  then show ?thesis using find_Some_iff_mem [OF Some] by auto
qed (use assms in \<open>auto simp: relayJob_def split: if_splits\<close>)

lemma relayJob_relayable:
  assumes "distinct (map orderHash (orders w))" and "relayJob env h w = (out, w')"
    and "w' \<noteq> w" "r \<in> set (orders w)" "orderHash r = h"
  shows "orderStatus r \<in> set RELAYABLE"
proof (cases "List.find (\<lambda>r. orderHash r = h) (orders w)")
  case (Some o1)
  then have "orderStatus o1 \<in> set RELAYABLE"
    using assms(2,3) relayJob_unrelayable by (metis prod.inject)
  moreover have "r = o1"
    using distinct_map_eq [OF assms(1,4)] find_Some_iff_mem [OF Some] assms(5) by auto
  ultimately show ?thesis by simp
qed (use assms in \<open>auto simp: relayJob_def split: if_splits\<close>)

lemma relayJob_hashes: "map orderHash (orders (snd (relayJob env h w))) = map orderHash (orders w)"
proof (cases "List.find (\<lambda>r. orderHash r = h) (orders w)")
  case None
  then show ?thesis by (simp add: relayJob_def)
next
  case (Some o1)
  obtain b w1 where b: "relayBalance env (amountUsdc o1) w = (b, w1)" by fastforce
  have w1: "orders w1 = orders w" using balance_sel(1) [of env "amountUsdc o1" w] b by simp
  obtain e w2 where l: "relayLocked env h (updOrders (lockSel h) (markProcessing (envNow env)) w1) = (e, w2)"
    by fastforce
  have w2: "map orderHash (orders w2) = map orderHash (orders w)"
    using relayLocked_keeps [of "updOrders (lockSel h) (markProcessing (envNow env)) w1" env h] l w1
    by (simp add: jobKeeps_def map_updateMany_key markProcessing_def)
  show ?thesis
    unfolding relayJob_def Some b l Let_def
    using w1 w2 relayFailure_hashes [of env o1 _ _ w2]
    by (auto simp: b l relaySuccess_def map_updateMany_key split: sum.split option.split)
qed

text \<open>
  C6: a job of the relay queue keeps the table of orders but for the row of its own order, and touches that
  only if the order was relayable (queued, deferred, to be retried, or confirmed on Solana). A row it
  touches is left neither locked nor in \<open>BASE_SUBMITTED\<close>: it is SUCCESS, with the id of the round
  that was cached when the job began, or DEFERRED, RETRY_PENDING or FAILED_PERMANENT. A job that throws
  leaves the order relayable, so the queue's retry takes it up again: as it was, when the round or the
  vault's balance could not be read, RETRY_PENDING otherwise.
\<close>
theorem relayJob_settles:
  assumes "distinct (map orderHash (orders w))" and "relayJob env h w = (out, w')"
  shows "list_all2 (\<lambda>r r'. r' = r \<or> (orderHash r = h \<and> orderStatus r \<in> set RELAYABLE
             \<and> jobRow h (Option.bind (roundCache w) rsId) out r')) (orders w) (orders w')
    \<and> (out \<noteq> JobDone \<longrightarrow> (\<exists>r' \<in> set (orders w'). orderHash r' = h \<and> orderStatus r' \<in> set RELAYABLE))"
proof -
  have hs: "map orderHash (orders w') = map orderHash (orders w)"
    using relayJob_hashes [of env h w] assms(2) by simp
  then have n: "length (orders w') = length (orders w)" by (metis length_map)
  have row: "orders w' ! k = orders w ! k \<or> (orderHash (orders w ! k) = h \<and> orderStatus (orders w ! k) \<in> set RELAYABLE
      \<and> jobRow h (Option.bind (roundCache w) rsId) out (orders w' ! k))" if k: "k < length (orders w)" for k
  proof -
    have same: "orderHash (orders w' ! k) = orderHash (orders w ! k)" using hs k n by (metis nth_map)
    have mem: "orders w ! k \<in> set (orders w)" "orders w' ! k \<in> set (orders w')" using k n by simp_all
    show ?thesis
    proof (cases "orders w' ! k \<in> set (orders w)")
      case True
      then show ?thesis using distinct_map_eq [OF assms(1) True mem(1) same] by simp
    next
      case False
      then have j: "jobRow h (Option.bind (roundCache w) rsId) out (orders w' ! k)"
        by (rule relayJob_rows [OF assms mem(2)])
      then have h: "orderHash (orders w ! k) = h" using same by (simp add: jobRow_def)
      have "orderStatus (orders w ! k) \<in> set RELAYABLE"
        using relayJob_relayable [OF assms _ mem(1) h] False mem by metis
      then show ?thesis using j h by simp
    qed
  qed
  moreover have "\<exists>r' \<in> set (orders w'). orderHash r' = h \<and> orderStatus r' \<in> set RELAYABLE" if threw: "out \<noteq> JobDone"
  proof -
    obtain k where k: "k < length (orders w)" "orderHash (orders w ! k) = h" "orderStatus (orders w ! k) \<in> set RELAYABLE"
      using relayJob_throws [OF assms(2) threw] by (metis in_set_conv_nth)
    have "orderHash (orders w' ! k) = h \<and> orderStatus (orders w' ! k) \<in> set RELAYABLE"
      using row [OF k(1)] k(2,3) threw by (auto simp: jobRow_def RELAYABLE_def)
    then show ?thesis using k(1) n nth_mem by metis
  qed
  ultimately show ?thesis using n by (simp add: list_all2_conv_all_nth)
qed

section \<open>An order that gets through has every ticket minted\<close>

definition okRow :: "ticket \<Rightarrow> bool" where
  "okRow t = (stamped t \<or> relayBatchId t = None)"

definition rows :: "string set \<Rightarrow> (ticket \<Rightarrow> bool) \<Rightarrow> world \<Rightarrow> world \<Rightarrow> bool" where
  "rows S G w w' = list_all2 (rowStep S G) (tickets w) (tickets w')"

lemma rows_refl: "rows {} G w w"
  by (simp add: rows_def list_all2_refl rowStep_def)

lemma rows_trans:
  assumes "rows S G u v" "rows T H v w"
    and "\<And>t. G t \<Longrightarrow> K t" "\<And>t. H t \<Longrightarrow> K t"
  shows "rows (S \<union> T) K u w"
proof -
  have "rowStep (S \<union> T) K a c" if "rowStep S G a b" "rowStep T H b c" for a b c
  proof -
    have "ticketId b = ticketId a" using that(1) by (simp add: rowStep_def ticketStep_def)
    then show ?thesis using that assms(3,4) ticketStep_trans
      unfolding rowStep_def by (auto split: if_splits)
  qed
  then show ?thesis
    using list_all2_trans [of "rowStep S G" "rowStep T H" "rowStep (S \<union> T) K"] assms(1,2)
    unfolding rows_def by blast
qed

lemma rows_overwrite:
  assumes "rows S G u v" "rows S H v w"
  shows "rows S H u w"
proof -
  have "rowStep S H a c" if "rowStep S G a b" "rowStep S H b c" for a b c
  proof -
    have "ticketId b = ticketId a" using that(1) by (simp add: rowStep_def ticketStep_def)
    then show ?thesis using that ticketStep_trans unfolding rowStep_def by (auto split: if_splits)
  qed
  then show ?thesis
    using list_all2_trans [of "rowStep S G" "rowStep S H" "rowStep S H"] assms
    unfolding rows_def by blast
qed

lemma rows_same: "rows S G u v \<Longrightarrow> tickets v' = tickets v \<Longrightarrow> rows S G u v'"
  by (simp add: rows_def)

lemma rows_weaken: "rows S G u v \<Longrightarrow> (\<And>t. G t \<Longrightarrow> K t) \<Longrightarrow> rows S K u v"
  unfolding rows_def by (erule list_all2_mono) (auto simp: rowStep_def split: if_splits)

lemma finalizeChunk_rows:
  assumes "length c \<le> length ids"
  shows "rows (ticketId ` set c) stamped w (finalizeChunkSuccess now b c tx ids w)"
  using stamp_rowStep [of "map ticketId c" ids "setNftTx tx" "tickets w"] assms
  by (simp add: rows_def stamped_def setNftTx_def ticketStep_same)

lemma releaseChunk_rows:
  "rows (ticketId ` set c) (\<lambda>t. relayBatchId t = None) w (releaseChunk b (map ticketId c) reason w)"
  by (simp add: rows_def updateMany_rowStep ticketStep_same)

text \<open>
  What the vault promises: a successful purchase, and the event a recovery finds, name one NFT per
  ticket of the chunk.
\<close>

definition recoveryFull :: "baseEnv \<Rightarrow> ticket list \<Rightarrow> bool" where
  "recoveryFull env c \<longleftrightarrow>
     (\<forall>tx ids. findExistingFulfillment env (deriveChunkOrderId env c) = Some (tx, ids)
        \<longrightarrow> length c \<le> length ids)"

definition receiptFull :: "baseEnv \<Rightarrow> string \<Rightarrow> ticket list \<Rightarrow> bool" where
  "receiptFull env h c \<longleftrightarrow>
     (\<forall>rc. awaitReceipt env h = Inr (Some rc) \<longrightarrow> receiptStatus rc = 1
        \<longrightarrow> length c \<le> length (parseTicketIds env (receiptLogs rc)))"

definition batchFull :: "baseEnv \<Rightarrow> relayBatch \<Rightarrow> ticket list \<Rightarrow> bool" where
  "batchFull env b c \<longleftrightarrow> recoveryFull env c \<and> (\<forall>h. rbTxHash b = Some h \<longrightarrow> receiptFull env h c)"

definition sendFull :: "baseEnv \<Rightarrow> string \<Rightarrow> ticket list \<Rightarrow> bool" where
  "sendFull env hash c \<longleftrightarrow> recoveryFull env c
     \<and> (\<forall>n h. sendBuy env (deriveChunkOrderId env c) (map (\<lambda>t. (normalBalls t, bonusBall t)) c) hash
            (buyGasLimit (length c)) n = Inr h \<longrightarrow> receiptFull env h c)"

lemma handleChunkRevert_rows:
  assumes "recoveryFull env c" "handleChunkRevert env b c tx w = (Inr r, w')"
  shows "rows (ticketId ` set c) (if r then stamped else (\<lambda>t. relayBatchId t = None)) w w'"
proof -
  have rel: "rows (ticketId ` set c) (\<lambda>t. relayBatchId t = None) w (releaseChunk b (map ticketId c) reason w)"
    for reason by (rule releaseChunk_rows)
  have fin: "rows (ticketId ` set c) stamped w (finalizeChunkSuccess now b c tx' ids w)"
    if "findExistingFulfillment env (deriveChunkOrderId env c) = Some (tx', ids)" for now tx' ids
    using finalizeChunk_rows assms(1) that unfolding recoveryFull_def by blast
  show ?thesis
    using assms(2) rel fin
    by (auto simp: handleChunkRevert_def Let_def split: sum.splits option.splits if_splits prod.splits)
qed

lemma resolveBatch_rows:
  assumes "batchFull env b c" "resolveBatch env b c w = (None, w')"
  shows "rows (ticketId ` set c) okRow w w'"
proof -
  have rel: "rows (ticketId ` set c) okRow w (releaseChunk (rbId b) (map ticketId c) reason w)" for reason
    by (rule rows_weaken [OF releaseChunk_rows]) (simp add: okRow_def)
  have fin: "rows (ticketId ` set c) okRow w (finalizeChunkSuccess now (rbId b) c tx ids w)"
    if "length c \<le> length ids" for now tx ids
    by (rule rows_weaken [OF finalizeChunk_rows [OF that]]) (simp add: okRow_def)
  have rev: "rows (ticketId ` set c) okRow w v"
    if "handleChunkRevert env (rbId b) c tx w = (Inr r, v)" for tx r v
  proof -
    have "recoveryFull env c" using assms(1) by (simp add: batchFull_def)
    from handleChunkRevert_rows [OF this that] show ?thesis
      by (rule rows_weaken) (cases r, simp_all add: okRow_def)
  qed
  show ?thesis
    using assms rel fin rev
    by (auto simp: resolveBatch_def batchFull_def receiptFull_def
        split: option.splits sum.splits if_splits prod.splits)
qed

lemma resolveBatches_rows:
  "\<forall>(b, c) \<in> set bs. batchFull env b c \<Longrightarrow> resolveBatches env bs w = (None, w') \<Longrightarrow>
   rows (\<Union>(b, c) \<in> set bs. ticketId ` set c) okRow w w'"
proof (induction bs arbitrary: w)
  case Nil
  then show ?case using rows_refl by simp
next
  case (Cons bc bs)
  obtain b c where bc: "bc = (b, c)" by fastforce
  with Cons.prems obtain v where v: "resolveBatch env b c w = (None, v)" "resolveBatches env bs v = (None, w')"
    by (auto split: prod.splits option.splits)
  have "rows (ticketId ` set c) okRow w v" using resolveBatch_rows v(1) Cons.prems(1) bc by auto
  moreover have "rows (\<Union>(b, c) \<in> set bs. ticketId ` set c) okRow v w'" using Cons v(2) by simp
  ultimately show ?case using rows_trans [where K = okRow] by (auto simp: bc)
qed

lemma submitChunk_rows:
  assumes full: "sendFull env hash c" and ok: "submitAndConfirmChunk env hash i c w = (None, w')"
  shows "rows (ticketId ` set c) stamped w w'"
proof -
  let ?S = "ticketId ` set c"
  obtain b w1 where b: "bindChunk env hash i c w = (b, w1)" by fastforce
  obtain r w2 where r: "submitBuyTickets env (deriveChunkOrderId env c)
      (map (\<lambda>t. (normalBalls t, bonusBall t)) c) hash w1 = (r, w2)" by fastforce
  from ok b r obtain h n where hn: "r = Inr (h, n)"
    by (auto simp: submitAndConfirmChunk_def split: sum.splits)
  let ?w3 = "updBatches b (\<lambda>x. x\<lparr>rbTxHash := Some h\<rparr>) w2"
  have "rows ?S (\<lambda>_. True) w (snd (bindChunk env hash i c w))"
    by (simp add: rows_def bindChunk_sel updateMany_rowStep ticketStep_same)
  moreover have "tickets w2 = tickets w1"
    using laneSubmit_sel r unfolding submitBuyTickets_def by blast
  ultimately have bound: "rows ?S (\<lambda>_. True) w ?w3" by (simp add: b rows_same)
  have rf: "receiptFull env h c" "recoveryFull env c"
    using full r hn by (auto simp: sendFull_def submitBuyTickets_def laneSubmit_def split: sum.splits)
  from ok b r hn consider
      (mined) rc where "awaitReceipt env h = Inr (Some rc)" "receiptStatus rc = 1"
        "w' = finalizeChunkSuccess (envEnd env) b c h (parseTicketIds env (receiptLogs rc)) ?w3"
    | (recovered) "handleChunkRevert env b c h ?w3 = (Inr True, w')"
    by (auto simp: submitAndConfirmChunk_def Let_def split: sum.splits option.splits if_splits
        prod.splits bool.splits)
  then have "rows ?S stamped ?w3 w'"
  proof cases
    case mined
    then show ?thesis using rf(1) finalizeChunk_rows by (auto simp: receiptFull_def)
  next
    case recovered
    then show ?thesis using handleChunkRevert_rows [OF rf(2) recovered] by simp
  qed
  with bound show ?thesis by (rule rows_overwrite)
qed

lemma submitChunks_rows:
  "\<forall>c \<in> set cs. sendFull env hash c \<Longrightarrow> submitChunks env hash i cs w = (None, w') \<Longrightarrow>
   rows (ticketId ` set (concat cs)) stamped w w'"
proof (induction cs arbitrary: i w)
  case Nil
  then show ?case using rows_refl by simp
next
  case (Cons c cs)
  then obtain v where v: "submitAndConfirmChunk env hash i c w = (None, v)"
    "submitChunks env hash (i + 1) cs v = (None, w')"
    by (auto split: prod.splits option.splits)
  have "rows (ticketId ` set c) stamped w v" using submitChunk_rows [OF _ v(1)] Cons.prems(1) by simp
  moreover have "rows (ticketId ` set (concat cs)) stamped v w'" using Cons v(2) by simp
  ultimately show ?case using rows_trans [where K = stamped] by (simp add: image_Un)
qed

text \<open>Every unminted ticket of the order is free or rides in a batch the job will resolve.\<close>

definition boundInFlight :: "world \<Rightarrow> string \<Rightarrow> bool" where
  "boundInFlight w hash \<longleftrightarrow>
     (\<forall>t \<in> set (tickets w). ticketOrder t = hash \<longrightarrow> okRow t
        \<or> (\<exists>b \<in> set (relayBatches w). rbOrder b = hash \<and> rbStatus b = SUBMITTED
             \<and> relayBatchId t = Some (rbId b)))"

definition inFlightFull :: "baseEnv \<Rightarrow> world \<Rightarrow> string \<Rightarrow> bool" where
  "inFlightFull env w hash \<longleftrightarrow>
     (\<forall>b \<in> set (relayBatches w). rbOrder b = hash \<and> rbStatus b = SUBMITTED
        \<longrightarrow> batchFull env b (batchTickets w (rbId b)))"

text \<open>
  C7: if the vault names one NFT per ticket it sold, an order that the job carries through without
  an error has an NFT on every one of its tickets, those of batches left in flight by an
  interrupted run included.
\<close>
theorem relayLocked_mints_all:
  assumes "boundInFlight w hash" and "inFlightFull env w hash" and "\<And>c. sendFull env hash c"
    and "relayLocked env hash w = (None, w')" and "t \<in> set (tickets w')" and "ticketOrder t = hash"
  shows "megapotNftId t \<noteq> None"
proof -
  let ?bs = "map (\<lambda>b. (b, batchTickets w (rbId b)))
               (filter (\<lambda>b. rbOrder b = hash \<and> rbStatus b = SUBMITTED) (relayBatches w))"
  let ?S = "\<Union>(b, c) \<in> set ?bs. ticketId ` set c"
  from assms(4) obtain v where v: "resolveBatches env ?bs w = (None, v)"
    "submitChunks env hash (int (countMany (\<lambda>b. rbOrder b = hash) (relayBatches v)))
       (chunksOf baseTicketChunkSize (pendingTickets v hash)) v = (None, w')"
    by (auto simp: relayLocked_def resolveInFlightBatches_def split: prod.splits option.splits)
  have "\<forall>(b, c) \<in> set ?bs. batchFull env b c" using assms(2) by (auto simp: inFlightFull_def)
  then have r1: "rows ?S okRow w v" using v(1) by (rule resolveBatches_rows)
  have "concat (chunksOf baseTicketChunkSize (pendingTickets v hash)) = pendingTickets v hash"
    by (rule concat_chunksOf) (simp add: baseTicketChunkSize_def)
  then have r2: "rows (ticketId ` set (pendingTickets v hash)) stamped v w'"
    using submitChunks_rows [OF _ v(2)] assms(3) by simp
  obtain t1 where t1: "t1 \<in> set (tickets v)" "rowStep (ticketId ` set (pendingTickets v hash)) stamped t1 t"
    using list_all2_source [OF r2 [unfolded rows_def] assms(5)] by blast
  obtain t0 where t0: "t0 \<in> set (tickets w)" "rowStep ?S okRow t0 t1"
    using list_all2_source [OF r1 [unfolded rows_def] t1(1)] by blast
  have o: "ticketOrder t0 = hash" "ticketOrder t1 = hash"
    using t0(2) t1(2) assms(6) by (auto simp: rowStep_def ticketStep_def)
  have "okRow t1"
  proof (cases "ticketId t0 \<in> ?S")
    case True
    then show ?thesis using t0(2) by (simp add: rowStep_def)
  next
    case False
    have "\<not> (\<exists>b \<in> set (relayBatches w). rbOrder b = hash \<and> rbStatus b = SUBMITTED
        \<and> relayBatchId t0 = Some (rbId b))"
      using False t0(1) by (auto simp: batchTickets_def)
    then have "okRow t0" using assms(1) t0(1) o(1) by (auto simp: boundInFlight_def)
    then show ?thesis using False t0(2) by (simp add: rowStep_def)
  qed
  then have "stamped t1 \<or> t1 \<in> set (pendingTickets v hash)"
    using t1(1) o(2) by (auto simp: okRow_def stamped_def pendingTickets_def)
  then have "stamped t" using t1(2) by (auto simp: rowStep_def stamped_def split: if_splits)
  then show ?thesis by (simp add: stamped_def)
qed

section \<open>Concrete jobs\<close>

text \<open>A node that mines every purchase with one NFT per ticket.\<close>

definition mintEnv :: baseEnv where
  "mintEnv = quietEnv\<lparr>sendBuy := \<lambda>_ ts _ _ _. Inr (replicate (length ts) CHR ''x''),
     pollReceipt := \<lambda>h _. Inr (Some \<lparr> receiptHash = h, receiptStatus = 1, receiptLogs = [h] \<rparr>),
     parseLog := \<lambda>l. Some (TicketsRouted (map int [0..<length l]))\<rparr>"

lemma mintEnv_full: "sendFull mintEnv hash c"
proof -
  have "recoveryFull mintEnv c"
    by (simp add: recoveryFull_def findExistingFulfillment_def mintEnv_def quietEnv_def)
  moreover have "awaitReceipt mintEnv h
      = Inr (Some \<lparr> receiptHash = h, receiptStatus = 1, receiptLogs = [h] \<rparr>)" for h
    by (simp add: awaitReceipt_def waitForReceipt_def WAIT_FUEL_def mintEnv_def quietEnv_def
        RECEIPT_TIMEOUT_MS_def numeral_eq_Suc)
  ultimately show ?thesis
    by (simp add: sendFull_def receiptFull_def) (simp add: mintEnv_def)
qed

lemma sample_locked: "fst (relayLocked mintEnv ''h'' (relayWorld QUEUED)) = None"
  by code_simp

lemma sample_first:
  "tickets (snd (relayLocked mintEnv ''h'' (relayWorld QUEUED))) ! 0
     \<in> set (tickets (snd (relayLocked mintEnv ''h'' (relayWorld QUEUED))))
   \<and> ticketOrder (tickets (snd (relayLocked mintEnv ''h'' (relayWorld QUEUED))) ! 0) = ''h''"
  by code_simp

theorem relayLocked_mints_all_witness:
  "megapotNftId (tickets (snd (relayLocked mintEnv ''h'' (relayWorld QUEUED))) ! 0) \<noteq> None"
  by (rule relayLocked_mints_all [of "relayWorld QUEUED" "''h''" mintEnv
        "snd (relayLocked mintEnv ''h'' (relayWorld QUEUED))"])
    (use sample_first sample_locked in \<open>auto simp: boundInFlight_def inFlightFull_def okRow_def
      relay_sample_defs mintEnv_full prod_eq_iff\<close>)

definition openRound :: roundState where
  "openRound = \<lparr> rsId = Some 7, rsStatus = ''active'', rsNormalsMax = 30, rsBonusballMax = 10,
     rsStartedAt = DateMs 0, rsEndedAt = 1370000, rsPrizePool = (''0'', 6), rsLpEarnings = (''0'', 6),
     rsTicketCount = 0, rsParticipants = 0 \<rparr>"

definition openWorld :: world where
  "openWorld = (relayWorld QUEUED)\<lparr>roundCache := Some openRound, vaultBalanceCache := Some 1000\<rparr>"

lemma open_job: "fst (relayJob mintEnv ''h'' openWorld) = JobDone
   \<and> map orderStatus (orders (snd (relayJob mintEnv ''h'' openWorld))) = [SUCCESS]"
  by code_simp

theorem relayJob_settles_witness:
  "\<exists>r r'. orders openWorld = [r] \<and> orders (snd (relayJob mintEnv ''h'' openWorld)) = [r'] \<and> orderStatus r' = SUCCESS
     \<and> orderStatus r \<in> set RELAYABLE \<and> jobRow ''h'' (Some 7) JobDone r'"
proof -
  obtain r' where r: "orders (snd (relayJob mintEnv ''h'' openWorld)) = [r']" "orderStatus r' = SUCCESS"
    using open_job by (auto simp: map_eq_Cons_conv)
  have "relayJob mintEnv ''h'' openWorld = (JobDone, snd (relayJob mintEnv ''h'' openWorld))"
    using open_job by (simp add: prod_eq_iff)
  from relayJob_settles [OF _ this] r show ?thesis
    by (auto simp: openWorld_def openRound_def relay_sample_defs)
qed

text \<open>
  A mined purchase whose receipt shows no \<open>TicketsRouted\<close> event still ends as SUCCESS, with
  its batch CONFIRMED and no NFT id on any ticket: the comment that every ticket has an id at that
  point does not hold.
\<close>
theorem relay_success_can_lack_nft:
  "let w' = snd (relayJob (quietEnv\<lparr>parseLog := \<lambda>_. None\<rparr>) ''h'' openWorld)
   in map orderStatus (orders w') = [SUCCESS] \<and> map rbStatus (relayBatches w') = [CONFIRMED]
      \<and> map megapotNftId (tickets w') = [None, None]"
  by code_simp

text \<open>
  The epoch recorded for an order is the round cached when the job began, not the one its
  purchase landed in: with a receipt first seen 90 seconds later, after the real end of round 7
  (its cached end is padded by five minutes), the order still says 7.
\<close>
theorem relay_epoch_ignores_mining_time:
  "let env = quietEnv\<lparr>pollReceipt := \<lambda>h k. if k < 30 then Inr None else pollReceipt quietEnv h k\<rparr>;
       w' = snd (relayJob env ''h'' openWorld)
   in map fulfillEpoch (orders w') = [Some 7] \<and> map orderStatus (orders w') = [SUCCESS]
      \<and> rsEndedAt openRound - 5 * 60 * 1000 < pollClock env ''0xt'' 31
      \<and> \<not> isRoundLocked (envNow env) openRound"
  by code_simp

text \<open>
  Every purchase stays under the gas limit proven to broadcast: a job cuts the pending tickets
  of an order into chunks of at most fifteen, each ticket in exactly one of them, and the limit of
  a chunk never exceeds 14,400,000.
\<close>
theorem relay_chunks_fit_gas:
  "concat (chunksOf baseTicketChunkSize (pendingTickets w hash)) = pendingTickets w hash
   \<and> list_all (\<lambda>c. c \<noteq> [] \<and> buyGasLimit (length c) \<le> 14400000)
       (chunksOf baseTicketChunkSize (pendingTickets w hash))"
proof
  show "concat (chunksOf baseTicketChunkSize (pendingTickets w hash)) = pendingTickets w hash"
    by (rule concat_chunksOf) (simp add: baseTicketChunkSize_def)
  have "c \<noteq> [] \<and> length c \<le> 15" if "c \<in> set (chunksOf baseTicketChunkSize (pendingTickets w hash))" for c
    using chunksOf_bounds [OF _ that] by (simp add: baseTicketChunkSize_def)
  then show "list_all (\<lambda>c. c \<noteq> [] \<and> buyGasLimit (length c) \<le> 14400000)
       (chunksOf baseTicketChunkSize (pendingTickets w hash))"
    by (force simp: list_all_iff buyGasLimit_def BASE_GAS_OVERHEAD_def GAS_PER_TICKET_def)
qed

end
