(* ===== verification/Claims.thy ===== *)
theory Claims
  imports Megapot TicketLife
begin

text \<open>
  \<open>routes/claims.ts\<close>: the wallet summary and the issue of a claim voucher. Issuing is modelled in
  its two halves, binding the tickets and handing the voucher out, because the chain is read between
  them and other processes run meanwhile; \<open>voucherRoute\<close> composes them. Deleting a claim sets the
  tickets' foreign key to null, as the migration declares.
\<close>

record claimEnv =
  ceNow :: int
  toBase58 :: "string \<Rightarrow> string option"
  claimCeiling :: "(string, int) result"
  buildVoucher :: "string \<Rightarrow> int \<Rightarrow> (string, string \<times> int) result"
  ceUuid :: "nat \<Rightarrow> string"

definition parseWallet :: "claimEnv \<Rightarrow> json \<Rightarrow> string option" where
  "parseWallet env raw = (case raw of JStr s \<Rightarrow> toBase58 env s | _ \<Rightarrow> None)"

section \<open>Summary\<close>

definition ofBuyer :: "int \<Rightarrow> string \<Rightarrow> world \<Rightarrow> ticket \<Rightarrow> bool" where
  "ofBuyer now wallet w =
     orderWhere w (\<lambda>r. buyer r = wallet
        \<and> (case fulfillEpoch r of None \<Rightarrow> False | Some e \<Rightarrow> e \<in> getRevealedEpochIds now w))"

definition claimable :: "int \<Rightarrow> string \<Rightarrow> world \<Rightarrow> ticket \<Rightarrow> bool" where
  "claimable now wallet w t =
     (winStatus t = CLAIMED_ON_BASE \<and> payoutClaimId t = None \<and> ofBuyer now wallet w t)"

record claimSummary =
  claimableUsdc :: int
  freeTickets :: nat
  totalPaidOutUsdc :: int
  pendingVoucher :: "(int \<times> int) option"

definition claimsSummary :: "int \<Rightarrow> string \<Rightarrow> world \<Rightarrow> claimSummary" where
  "claimsSummary now wallet w =
     \<lparr> claimableUsdc = sumMany winAmount (filter (claimable now wallet w) (tickets w)),
       freeTickets = countMany (\<lambda>t. winStatus t = CLAIMED_ON_BASE \<and> isFreeTicketTier t
                                    \<and> ofBuyer now wallet w t) (tickets w),
       totalPaidOutUsdc = sumMany winAmount (filter (\<lambda>t. winStatus t = PAID_OUT_ON_SOLANA
                             \<and> orderWhere w (\<lambda>r. buyer r = wallet) t) (tickets w)),
       pendingVoucher = map_option (\<lambda>c. (claimAmount c, claimCreatedAt c))
          (List.find (\<lambda>c. claimWallet c = wallet \<and> claimStatus c = PENDING) (payoutClaims w)) \<rparr>"

section \<open>Issuing a voucher\<close>

datatype voucherResponse = Res400 | Res503Paused | Res200 string int | Res404 | Res409
  | Res503Ceiling | Res201 string int string int | Res500

definition liveVoucher :: "string \<Rightarrow> payoutClaim \<Rightarrow> bool" where
  "liveVoucher wallet c =
     (claimWallet c = wallet \<and> claimStatus c = PENDING \<and> lastValidBlockHeight c \<noteq> None)"

definition voucherBind :: "claimEnv \<Rightarrow> string \<Rightarrow> world \<Rightarrow> string \<times> int \<times> world" where
  "voucherBind env wallet w =
     (let cid = ceUuid env (uuidNext w);
          w1 = w\<lparr>payoutClaims := payoutClaims w @ [newPayoutClaim cid wallet (ceNow env)],
                 uuidNext := Suc (uuidNext w)\<rparr>;
          w2 = updTickets (claimable (ceNow env) wallet w) (\<lambda>t. t\<lparr>payoutClaimId := Some cid\<rparr>) w1
      in (cid, sumMany winAmount (filter (\<lambda>t. payoutClaimId t = Some cid) (tickets w2)), w2))"

definition unbindTickets :: "string \<Rightarrow> world \<Rightarrow> world" where
  "unbindTickets cid w =
     updTickets (\<lambda>t. payoutClaimId t = Some cid) (\<lambda>t. t\<lparr>payoutClaimId := None\<rparr>) w"

definition deleteClaim :: "string \<Rightarrow> world \<Rightarrow> world" where
  "deleteClaim cid w =
     (unbindTickets cid w)\<lparr>payoutClaims := deleteMany (\<lambda>c. claimId c = cid) (payoutClaims w)\<rparr>"

definition releaseIssue :: "string \<Rightarrow> world \<Rightarrow> world" where
  "releaseIssue cid w = deleteClaim cid (unbindTickets cid w)"

text \<open>The second half: the ceiling, the signature, and the stamp that makes the voucher live.\<close>

definition voucherFinish ::
  "claimEnv \<Rightarrow> string \<Rightarrow> string \<Rightarrow> int \<Rightarrow> world \<Rightarrow> voucherResponse \<times> world" where
  "voucherFinish env wallet cid amt w =
     (case claimCeiling env of
        Inl e \<Rightarrow> (Res503Ceiling, releaseIssue cid w)
      | Inr cap \<Rightarrow>
        (if amt > cap then (Res409, releaseIssue cid w)
         else case buildVoucher env wallet amt of
             Inl e \<Rightarrow> (Res500, releaseIssue cid w)
           | Inr (tx, lvbh) \<Rightarrow>
               (Res201 cid amt tx lvbh,
                w\<lparr>payoutClaims := updateMany (\<lambda>c. claimId c = cid)
                    (\<lambda>c. c\<lparr>claimAmount := amt, lastValidBlockHeight := Some lvbh\<rparr>) (payoutClaims w)\<rparr>)))"

definition voucherRoute :: "claimEnv \<Rightarrow> json \<Rightarrow> world \<Rightarrow> voucherResponse \<times> world" where
  "voucherRoute env raw w =
     (case parseWallet env raw of None \<Rightarrow> (Res400, w)
      | Some wallet \<Rightarrow>
        (if wallet = [] then (Res400, w)
         else if isProtocolPaused w then (Res503Paused, w)
         else case List.find (liveVoucher wallet) (payoutClaims w) of
             Some c \<Rightarrow> (Res200 (claimId c) (claimAmount c), w)
           | None \<Rightarrow>
             (case voucherBind env wallet w of
                (cid, amt, w1) \<Rightarrow>
                  (if amt \<le> 0 then (Res404, deleteClaim cid w1)
                   else voucherFinish env wallet cid amt w1))))"

section \<open>Laws\<close>

definition freshClaimId :: "claimEnv \<Rightarrow> world \<Rightarrow> bool" where
  "freshClaimId env w \<longleftrightarrow>
     (\<forall>t \<in> set (tickets w). payoutClaimId t \<noteq> Some (ceUuid env (uuidNext w)))
     \<and> (\<forall>c \<in> set (payoutClaims w). claimId c \<noteq> ceUuid env (uuidNext w))"

lemma unbind_bound:
  assumes "\<And>t. t \<in> set ts \<Longrightarrow> payoutClaimId t \<noteq> Some cid" and "\<And>t. sel t \<Longrightarrow> payoutClaimId t = None"
  shows "updateMany (\<lambda>t. payoutClaimId t = Some cid) (\<lambda>t. t\<lparr>payoutClaimId := None\<rparr>)
           (updateMany sel (\<lambda>t. t\<lparr>payoutClaimId := Some cid\<rparr>) ts) = ts"
  using assms(1)
proof (induction ts)
  case (Cons t ts)
  have "t\<lparr>payoutClaimId := None\<rparr> = t" if "sel t" using assms(2) [OF that] by simp
  with Cons show ?case by auto
qed simp

lemma unbind_twice:
  "updateMany (\<lambda>t. payoutClaimId t = Some cid) (\<lambda>t. t\<lparr>payoutClaimId := None\<rparr>)
     (updateMany (\<lambda>t. payoutClaimId t = Some cid) (\<lambda>t. t\<lparr>payoutClaimId := None\<rparr>) ts)
   = updateMany (\<lambda>t. payoutClaimId t = Some cid) (\<lambda>t. t\<lparr>payoutClaimId := None\<rparr>) ts"
  by (rule updateMany_noop) (auto simp: set_updateMany split: if_splits)

lemma delete_new:
  "(\<And>c. c \<in> set cs \<Longrightarrow> claimId c \<noteq> cid) \<Longrightarrow>
   deleteMany (\<lambda>c. claimId c = cid) (cs @ [newPayoutClaim cid wallet now]) = cs"
  by (simp add: deleteMany_def newPayoutClaim_def filter_id_conv)

text \<open>Undoing an issue restores both tables.\<close>

lemma release_undoes:
  assumes "freshClaimId env w" and "voucherBind env wallet w = (cid, amt, w1)"
  shows "tickets (releaseIssue cid w1) = tickets w" "payoutClaims (releaseIssue cid w1) = payoutClaims w"
    "tickets (deleteClaim cid w1) = tickets w" "payoutClaims (deleteClaim cid w1) = payoutClaims w"
proof -
  have w1: "cid = ceUuid env (uuidNext w)"
    "tickets w1 = updateMany (claimable (ceNow env) wallet w) (\<lambda>t. t\<lparr>payoutClaimId := Some cid\<rparr>) (tickets w)"
    "payoutClaims w1 = payoutClaims w @ [newPayoutClaim cid wallet (ceNow env)]"
    using assms(2) by (auto simp: voucherBind_def Let_def)
  have t: "updateMany (\<lambda>t. payoutClaimId t = Some cid) (\<lambda>t. t\<lparr>payoutClaimId := None\<rparr>) (tickets w1) = tickets w"
    unfolding w1(2) using assms(1) w1(1)
    by (intro unbind_bound) (auto simp: freshClaimId_def claimable_def)
  have c: "deleteMany (\<lambda>c. claimId c = cid) (payoutClaims w1) = payoutClaims w"
    unfolding w1(3) using assms(1) w1(1) by (intro delete_new) (auto simp: freshClaimId_def)
  have tt: "updateMany (\<lambda>t. payoutClaimId t = Some cid) (\<lambda>t. t\<lparr>payoutClaimId := None\<rparr>) (tickets w) = tickets w"
    using assms(1) w1(1) by (intro updateMany_noop) (auto simp: freshClaimId_def)
  show "tickets (releaseIssue cid w1) = tickets w" "payoutClaims (releaseIssue cid w1) = payoutClaims w"
    "tickets (deleteClaim cid w1) = tickets w" "payoutClaims (deleteClaim cid w1) = payoutClaims w"
    using t tt c by (simp_all add: releaseIssue_def deleteClaim_def unbindTickets_def)
qed

lemma bound_rows:
  assumes "freshClaimId env w" and "voucherBind env wallet w = (cid, amt, w1)" and "t \<in> set (tickets w1)"
    and "payoutClaimId t = Some cid"
  shows "\<exists>t0 \<in> set (tickets w). claimable (ceNow env) wallet w t0 \<and> t = t0\<lparr>payoutClaimId := Some cid\<rparr>"
proof -
  have w1: "cid = ceUuid env (uuidNext w)"
    "tickets w1 = updateMany (claimable (ceNow env) wallet w) (\<lambda>t. t\<lparr>payoutClaimId := Some cid\<rparr>) (tickets w)"
    using assms(2) by (auto simp: voucherBind_def Let_def)
  obtain t0 where t0: "t0 \<in> set (tickets w)"
    "t = (if claimable (ceNow env) wallet w t0 then t0\<lparr>payoutClaimId := Some cid\<rparr> else t0)"
    using assms(3) unfolding w1(2) set_updateMany by blast
  have "claimable (ceNow env) wallet w t0"
    using t0 assms(1,4) w1(1) by (cases "claimable (ceNow env) wallet w t0") (auto simp: freshClaimId_def)
  with t0 show ?thesis by auto
qed

section \<open>What a request leaves behind\<close>

definition issued :: "claimEnv \<Rightarrow> string \<Rightarrow> world \<Rightarrow> string \<Rightarrow> int \<Rightarrow> world \<Rightarrow> bool" where
  "issued env wallet w cid amt w' \<longleftrightarrow>
     0 < amt \<and> (\<exists>cap. claimCeiling env = Inr cap \<and> amt \<le> cap)
     \<and> amt = sumMany winAmount (filter (\<lambda>t. payoutClaimId t = Some cid) (tickets w'))
     \<and> (\<forall>t \<in> set (tickets w'). payoutClaimId t = Some cid \<longrightarrow>
          winStatus t = CLAIMED_ON_BASE \<and> ofBuyer (ceNow env) wallet w t)
     \<and> List.find (liveVoucher wallet) (payoutClaims w) = None"

lemma ofBuyer_upd [simp]:
  "ofBuyer now wallet w (t\<lparr>payoutClaimId := x\<rparr>) = ofBuyer now wallet w t"
  by (simp add: ofBuyer_def orderWhere_def orderOf_def)

lemma voucherFinish_cases:
  assumes "voucherFinish env wallet cid amt w1 = (resp, w')"
  obtains (issue) cap tx lvbh where "claimCeiling env = Inr cap" "amt \<le> cap" "resp = Res201 cid amt tx lvbh"
      "tickets w' = tickets w1"
      "payoutClaims w' = updateMany (\<lambda>c. claimId c = cid)
         (\<lambda>c. c\<lparr>claimAmount := amt, lastValidBlockHeight := Some lvbh\<rparr>) (payoutClaims w1)"
    | (undo) "resp \<in> {Res503Ceiling, Res409, Res500}" "w' = releaseIssue cid w1"
  using assms by (auto simp: voucherFinish_def split: sum.splits if_splits prod.splits)

lemma voucher_issue_core:
  assumes "freshClaimId env w" and "voucherRoute env raw w = (resp, w')"
  shows "case resp of
      Res201 cid amt tx lvbh \<Rightarrow> \<exists>wallet. parseWallet env raw = Some wallet \<and> issued env wallet w cid amt w'
    | _ \<Rightarrow> tickets w' = tickets w \<and> payoutClaims w' = payoutClaims w"
proof (cases "parseWallet env raw")
  case None
  then show ?thesis using assms(2) by (auto simp: voucherRoute_def)
next
  case (Some wallet)
  show ?thesis
  proof (cases "wallet = [] \<or> isProtocolPaused w \<or> List.find (liveVoucher wallet) (payoutClaims w) \<noteq> None")
    case True
    then show ?thesis using assms(2) Some by (auto simp: voucherRoute_def split: if_splits)
  next
    case False
    obtain cid amt w1 where b: "voucherBind env wallet w = (cid, amt, w1)" by (cases "voucherBind env wallet w") auto
    note undo = release_undoes [OF assms(1) b]
    have amt: "amt = sumMany winAmount (filter (\<lambda>t. payoutClaimId t = Some cid) (tickets w1))"
      using b by (auto simp: voucherBind_def Let_def)
    show ?thesis
    proof (cases "amt \<le> 0")
      case True
      then show ?thesis using assms(2) Some False b undo by (auto simp: voucherRoute_def)
    next
      case pos: False
      then have "voucherFinish env wallet cid amt w1 = (resp, w')"
        using assms(2) Some False b by (auto simp: voucherRoute_def)
      then show ?thesis
      proof (cases rule: voucherFinish_cases)
        case (issue cap tx lvbh)
        have "\<forall>t \<in> set (tickets w1). payoutClaimId t = Some cid \<longrightarrow>
            winStatus t = CLAIMED_ON_BASE \<and> ofBuyer (ceNow env) wallet w t"
          by (auto dest!: bound_rows [OF assms(1) b] simp: claimable_def)
        then show ?thesis using issue pos amt False Some by (auto simp: issued_def)
      next
        case undo2: undo
        then show ?thesis using undo by auto
      qed
    qed
  qed
qed

text \<open>
  C17: a voucher is handed out (201) only when its wallet had no live one, for a positive amount
  within the on-chain ceiling that is exactly the sum of the tickets bound to it, each of them
  harvested, of a revealed epoch and bought by that wallet. Every other answer leaves the tickets
  and the claims as they were.
\<close>
theorem voucher_issue:
  assumes "freshClaimId env w" and "voucherRoute env raw w = (resp, w')"
  shows "case resp of
      Res201 cid amt tx lvbh \<Rightarrow> \<exists>wallet. parseWallet env raw = Some wallet \<and> issued env wallet w cid amt w'
    | _ \<Rightarrow> tickets w' = tickets w \<and> payoutClaims w' = payoutClaims w"
  by (rule voucher_issue_core [OF assms])

text \<open>The rows a handed-out voucher leaves.\<close>

lemma voucher_201:
  assumes "freshClaimId env w" and "voucherRoute env raw w = (Res201 cid amt tx lvbh, w')"
  obtains wallet where "List.find (liveVoucher wallet) (payoutClaims w) = None"
    "cid = ceUuid env (uuidNext w)"
    "tickets w' = updateMany (claimable (ceNow env) wallet w) (\<lambda>t. t\<lparr>payoutClaimId := Some cid\<rparr>) (tickets w)"
    "payoutClaims w' = payoutClaims w @ [(newPayoutClaim cid wallet (ceNow env))
       \<lparr>claimAmount := amt, lastValidBlockHeight := Some lvbh\<rparr>]"
    "amt = sumMany winAmount (filter (\<lambda>t. payoutClaimId t = Some cid) (tickets w'))"
proof -
  obtain wallet w1 where w: "List.find (liveVoucher wallet) (payoutClaims w) = None"
    "voucherBind env wallet w = (cid, amt, w1)"
    "voucherFinish env wallet cid amt w1 = (Res201 cid amt tx lvbh, w')"
    using assms(2) by (auto simp: voucherRoute_def voucherFinish_def split: option.splits if_splits
      prod.splits sum.splits)
  have w1: "cid = ceUuid env (uuidNext w)"
    "tickets w1 = updateMany (claimable (ceNow env) wallet w) (\<lambda>t. t\<lparr>payoutClaimId := Some cid\<rparr>) (tickets w)"
    "payoutClaims w1 = payoutClaims w @ [newPayoutClaim cid wallet (ceNow env)]"
    "amt = sumMany winAmount (filter (\<lambda>t. payoutClaimId t = Some cid) (tickets w1))"
    using w(2) by (auto simp: voucherBind_def Let_def)
  have old: "updateMany (\<lambda>c. claimId c = cid) f (payoutClaims w) = payoutClaims w" for f
    using assms(1) w1(1) by (intro updateMany_noop) (auto simp: freshClaimId_def)
  from w(3) have "tickets w' = tickets w1" "payoutClaims w' = payoutClaims w @ [(newPayoutClaim cid wallet (ceNow env))
       \<lparr>claimAmount := amt, lastValidBlockHeight := Some lvbh\<rparr>]"
    by (cases rule: voucherFinish_cases; simp add: w1(3) old newPayoutClaim_def)+
  with w(1) w1 show thesis by (intro that) auto
qed

definition oneLive :: "world \<Rightarrow> bool" where
  "oneLive w \<longleftrightarrow> (\<forall>wallet. countMany (liveVoucher wallet) (payoutClaims w) \<le> 1)"

lemma countMany_append: "countMany P (xs @ ys) = countMany P xs + countMany P ys"
  by (simp add: countMany_def)

text \<open>
  C18: as long as requests run one after the other, a wallet never has two live vouchers: a request
  while one is live returns it and changes nothing.
\<close>
theorem voucher_one_live:
  assumes "oneLive w" and "freshClaimId env w"
  shows "oneLive (snd (voucherRoute env raw w))"
proof -
  obtain resp w' where r: "voucherRoute env raw w = (resp, w')" by fastforce
  show ?thesis
  proof (cases "\<exists>cid amt tx lvbh. resp = Res201 cid amt tx lvbh")
    case False
    then have "payoutClaims w' = payoutClaims w"
      using voucher_issue_core [OF assms(2) r] by (cases resp) auto
    then show ?thesis using assms(1) r by (simp add: oneLive_def)
  next
    case True
    then obtain cid amt tx lvbh where res: "resp = Res201 cid amt tx lvbh" by blast
    obtain wallet where w: "List.find (liveVoucher wallet) (payoutClaims w) = None"
      "payoutClaims w' = payoutClaims w @ [(newPayoutClaim cid wallet (ceNow env))
         \<lparr>claimAmount := amt, lastValidBlockHeight := Some lvbh\<rparr>]"
      using voucher_201 [OF assms(2) r [unfolded res]] by blast
    note w(2)
    moreover have "countMany (liveVoucher wallet) (payoutClaims w) = 0"
      using w(1) by (simp add: countMany_0_iff find_None_iff)
    moreover have "\<not> liveVoucher x ((newPayoutClaim cid wallet (ceNow env))\<lparr>claimAmount := amt,
        lastValidBlockHeight := Some lvbh\<rparr>)" if "x \<noteq> wallet" for x
      using that by (simp add: liveVoucher_def newPayoutClaim_def)
    ultimately have "countMany (liveVoucher x) (payoutClaims w') \<le> 1" for x
      using assms(1) by (cases "x = wallet") (simp_all add: countMany_append oneLive_def)
    then show ?thesis using r by (simp add: oneLive_def)
  qed
qed

section \<open>A wallet with one harvested ticket\<close>

definition deskEnv :: claimEnv where
  "deskEnv = \<lparr> ceNow = 900000, toBase58 = (\<lambda>s. Some s), claimCeiling = Inr 100,
     buildVoucher = (\<lambda>wallet amt. Inr (''tx'', 700)), ceUuid = (\<lambda>n. replicate (Suc n) CHR ''c'') \<rparr>"

definition harvestedTicket :: "string \<Rightarrow> ticket" where
  "harvestedTicket i = (newTicket i ''h'' 9 [1, 2, 3, 4, 5])
     \<lparr>winStatus := CLAIMED_ON_BASE, winAmount := 55, megapotNftId := Some ''71''\<rparr>"

definition deskOrder :: relayOrder where
  "deskOrder = \<lparr> orderHash = ''h'', orderSignature = ''s'', buyer = ''b'', purchaseEpoch = 7,
     fulfillEpoch = Some 7, amountUsdc = 2, orderTicketCount = 2, lastBought = 0,
     orderStatus = SUCCESS, attemptCount = 1, lastError = None, nextRetryAt = None,
     orderTxHash = Some ''0xt'', megapotTicketIds = [], orderCreatedAt = 0, updatedAt = 0 \<rparr>"

definition deskWorld :: world where
  "deskWorld = emptyWorld\<lparr>orders := [deskOrder], tickets := [harvestedTicket ''t1''],
     epochs := [(blankEpoch 7)\<lparr>epochEndedAt := Some 5\<rparr>]\<rparr>"

lemma desk_fresh: "freshClaimId deskEnv deskWorld"
  by code_simp

lemma desk_issue: "fst (voucherRoute deskEnv (JStr ''b'') deskWorld) = Res201 ''c'' 55 ''tx'' 700"
  by code_simp

theorem voucher_issue_witness:
  "issued deskEnv ''b'' deskWorld ''c'' 55 (snd (voucherRoute deskEnv (JStr ''b'') deskWorld))"
  using voucher_issue [OF desk_fresh surjective_pairing [of "voucherRoute deskEnv (JStr ''b'') deskWorld"]]
  by (simp add: desk_issue parseWallet_def) (simp add: deskEnv_def)

theorem voucher_one_live_witness:
  "oneLive (snd (voucherRoute deskEnv (JStr ''b'') deskWorld))"
proof (rule voucher_one_live)
  show "oneLive deskWorld" by (simp add: oneLive_def deskWorld_def emptyWorld_def)
qed (rule desk_fresh)

section \<open>The routes keep the ticket contract\<close>

lemma unbind_grow: "ticketsGrow ts (updateMany sel (\<lambda>t. t\<lparr>payoutClaimId := x\<rparr>) ts)"
  by (rule ticketsGrow_updateMany) (simp add: ticketStep_same)

lemma release_grow: "ticketsGrow (tickets w) (tickets (releaseIssue cid w))"
  "ticketsGrow (tickets w) (tickets (deleteClaim cid w))"
  by (simp_all add: releaseIssue_def deleteClaim_def unbindTickets_def ticketsGrow_trans [OF unbind_grow unbind_grow] unbind_grow)

lemma bind_grow:
  "voucherBind env wallet w = (cid, amt, w1) \<Longrightarrow> ticketsGrow (tickets w) (tickets w1)"
  by (auto simp: voucherBind_def Let_def unbind_grow)

lemma finish_grow:
  "ticketsGrow (tickets w) (tickets (snd (voucherFinish env wallet cid amt w)))"
proof (cases "voucherFinish env wallet cid amt w")
  case (Pair resp w')
  then show ?thesis by (cases rule: voucherFinish_cases) (auto simp: Pair release_grow)
qed

lemma voucherRoute_grow: "ticketsGrow (tickets w) (tickets (snd (voucherRoute env raw w)))"
  by (auto simp: voucherRoute_def split: option.split prod.split
      intro: ticketsGrow_trans [OF bind_grow finish_grow] ticketsGrow_trans [OF bind_grow release_grow(2)])

interpretation voucherDesk: ticket_op "\<lambda>(env, raw) w. snd (voucherRoute env raw w)"
  by unfold_locales (auto simp: voucherRoute_grow split: prod.split)

end
