(* ===== verification/ProtocolApi.thy ===== *)
theory ProtocolApi
  imports Claims "HOL-Library.Multiset"
begin

text \<open>
  The read-only routes of \<open>routes/protocol.ts\<close>: live state, settled epochs, statistics, winners of
  an epoch and a wallet's tickets, with the query parameters read as JavaScript reads them. A row's
  \<open>createdAt\<close>, the base58 decoder and \<open>localeCompare\<close> are parameters. The theorems show that no
  route lets a result out before its epoch is revealed, that the winners list is the per-buyer sum
  of the winning tickets, and that its pages cover it.
\<close>

section \<open>Numbers of a query\<close>

datatype jsNum = JNaN | JInf bool | JFin rat

definition maxDouble :: rat where "maxDouble = 2 ^ 1024 - 2 ^ 970"

definition boundNum :: "rat \<Rightarrow> jsNum" where
  "boundNum r = (if r \<ge> maxDouble then JInf True else if r \<le> - maxDouble then JInf False else JFin r)"

definition textNum :: "string \<Rightarrow> jsNum" where
  "textNum s =
     (let t = trimWhite s in
      if t \<in> {''Infinity'', ''+Infinity''} then JInf True else if t = ''-Infinity'' then JInf False
      else case numberOf t of None \<Rightarrow> JNaN | Some r \<Rightarrow> boundNum r)"

text \<open>\<open>Number(req.query.x)\<close>: text, an array of it, an object, or undefined.\<close>

fun queryNum :: "json option \<Rightarrow> jsNum" where
  "queryNum None = JNaN"
| "queryNum (Some (JStr s)) = textNum s"
| "queryNum (Some (JArr [x])) = (case x of JBool b \<Rightarrow> JNaN | JNull \<Rightarrow> JFin 0 | _ \<Rightarrow> queryNum (Some x))"
| "queryNum (Some v) = (case numberOfJson v of None \<Rightarrow> JNaN | Some r \<Rightarrow> boundNum r)"

text \<open>\<open>x || d\<close>, \<open>Math.min\<close>, \<open>Math.max\<close> and \<open>+\<close>.\<close>

definition orElse :: "jsNum \<Rightarrow> rat \<Rightarrow> jsNum" where
  "orElse x d = (if x = JNaN \<or> x = JFin 0 then JFin d else x)"

fun jsMin :: "jsNum \<Rightarrow> rat \<Rightarrow> jsNum" where
  "jsMin JNaN b = JNaN" | "jsMin (JInf p) b = (if p then JFin b else JInf False)" | "jsMin (JFin a) b = JFin (min a b)"

fun jsMax :: "jsNum \<Rightarrow> rat \<Rightarrow> jsNum" where
  "jsMax JNaN b = JNaN" | "jsMax (JInf p) b = (if p then JInf True else JFin b)" | "jsMax (JFin a) b = JFin (max a b)"

fun jsAdd :: "jsNum \<Rightarrow> jsNum \<Rightarrow> jsNum" where
  "jsAdd (JFin a) (JFin b) = JFin (a + b)"
| "jsAdd (JInf p) (JInf q) = (if p = q then JInf p else JNaN)"
| "jsAdd (JInf p) (JFin b) = JInf p" | "jsAdd (JFin a) (JInf q) = JInf q"
| "jsAdd _ _ = JNaN"

definition wholeNum :: "jsNum \<Rightarrow> int option" where
  "wholeNum x = (case x of JFin r \<Rightarrow> (if of_int \<lfloor>r\<rfloor> = r then Some \<lfloor>r\<rfloor> else None) | _ \<Rightarrow> None)"

definition truncRat :: "rat \<Rightarrow> int" where "truncRat r = (if r < 0 then \<lceil>r\<rceil> else \<lfloor>r\<rfloor>)"

definition sliceIndex :: "nat \<Rightarrow> jsNum \<Rightarrow> nat" where
  "sliceIndex n x = (case x of JNaN \<Rightarrow> 0 | JInf p \<Rightarrow> (if p then n else 0)
     | JFin r \<Rightarrow> (let k = truncRat r in if k < 0 then nat (int n + k) else min (nat k) n))"

definition jsSlice :: "jsNum \<Rightarrow> jsNum \<Rightarrow> 'a list \<Rightarrow> 'a list" where
  "jsSlice a b xs = (let s = sliceIndex (length xs) a; e = sliceIndex (length xs) b in take (e - s) (drop s xs))"

text \<open>A stable sort by a comparator; it keeps every element whatever the comparator answers.\<close>

fun insertCmp :: "('a \<Rightarrow> 'a \<Rightarrow> int) \<Rightarrow> 'a \<Rightarrow> 'a list \<Rightarrow> 'a list" where
  "insertCmp c x [] = [x]"
| "insertCmp c x (y # ys) = (if c x y < 0 then x # y # ys else y # insertCmp c x ys)"

definition jsSort :: "('a \<Rightarrow> 'a \<Rightarrow> int) \<Rightarrow> 'a list \<Rightarrow> 'a list" where
  "jsSort c xs = fold (insertCmp c) xs []"

text \<open>Prisma's \<open>take\<close> and \<open>skip\<close> are whole numbers; a negative \<open>take\<close> counts from the end.\<close>

definition prismaTake :: "int \<Rightarrow> 'a list \<Rightarrow> 'a list" where
  "prismaTake n rows = (if n < 0 then drop (length rows - nat (- n)) rows else take (nat n) rows)"

definition fitsInt :: "int \<Rightarrow> bool" where "fitsInt n = (- (2 ^ 31) \<le> n \<and> n < 2 ^ 31)"

datatype 'a reply = Ok 'a | Refused nat string | Crashed

record protoEnv =
  pNow :: int
  pBase58 :: "string \<Rightarrow> string option"
  pCreatedAt :: "int \<Rightarrow> int"
  pLocale :: "string \<Rightarrow> string \<Rightarrow> int"

definition queryWallet :: "protoEnv \<Rightarrow> json option \<Rightarrow> string option" where
  "queryWallet env raw = (case raw of Some (JStr s) \<Rightarrow> pBase58 env s | _ \<Rightarrow> None)"

section \<open>State, epochs, statistics\<close>

record stateView =
  svIsPaused :: bool
  svEpochId :: "int option"
  svNextDrawAt :: "int option"
  svPrizePool :: string
  svMaxNormalBall :: "int option"
  svMaxBonusBall :: "int option"

definition stateRoute :: "world \<Rightarrow> stateView reply" where
  "stateRoute w = (case protocolState w of None \<Rightarrow> Refused 503 ''Protocol state not yet synced''
     | Some p \<Rightarrow> Ok \<lparr> svIsPaused = psIsPaused p, svEpochId = psCurrentEpochId p, svNextDrawAt = psEndedAt p,
         svPrizePool = bigIntToString (case_option 0 id (psPrizePoolAmount p)),
         svMaxNormalBall = psMaxNormalBall p, svMaxBonusBall = psMaxBonusBall p \<rparr>)"

record epochView =
  evId :: int
  evLordsPotTicketCount :: int
  evTotalTicketCount :: int
  evLordsPotWinners :: int
  evTotalWinners :: int
  evTotalPaid :: string
  evLordsPotPaid :: string
  evJackpot :: string
  evPrizeTiers :: json
  evTopPrize :: string
  evTopPrizeWinners :: int
  evNormalMax :: "int option"
  evBonusMax :: "int option"
  evNormals :: "int list"
  evBonusBall :: int
  evSettledAt :: int

definition viewEpoch :: "protoEnv \<Rightarrow> megapotEpoch \<Rightarrow> epochView" where
  "viewEpoch env e =
     \<lparr> evId = megapotId e, evLordsPotTicketCount = lordsPotTicketCount e, evTotalTicketCount = totalTicketCount e,
       evLordsPotWinners = lordsPotWinnersCount e, evTotalWinners = totalWinnersCount e,
       evTotalPaid = bigIntToString (case_option 0 id (totalPaidAmount e)),
       evLordsPotPaid = bigIntToString (case_option 0 id (lordsPotPaidAmount e)),
       evJackpot = bigIntToString (epochJackpot e), evPrizeTiers = prizeTiers e,
       evTopPrize = bigIntToString (topPrizeAmount e), evTopPrizeWinners = topPrizeWinnersCount e,
       evNormalMax = normalMax e, evBonusMax = bonusMax e, evNormals = sort (winningNormals e),
       evBonusBall = winningBonusBall e, evSettledAt = case_option (pCreatedAt env (megapotId e)) id (drawnAt e) \<rparr>"

definition pageLimit :: "json option \<Rightarrow> jsNum" where "pageLimit q = jsMin (orElse (queryNum q) 20) 50"

text \<open>An absent, empty, zero or unreadable cursor is no cursor.\<close>

definition epochsRoute :: "protoEnv \<Rightarrow> json option \<Rightarrow> json option \<Rightarrow> world \<Rightarrow> (epochView list \<times> int option) reply" where
  "epochsRoute env limitQ cursorQ w =
     (let limit = pageLimit limitQ; cur = queryNum cursorQ; noCursor = (cur = JNaN \<or> cur = JFin 0) in
      case wholeNum limit of None \<Rightarrow> Crashed
      | Some n \<Rightarrow>
        (case (if noCursor then Some None else map_option Some (wholeNum cur)) of None \<Rightarrow> Crashed
         | Some below \<Rightarrow>
           if \<not> (case below of None \<Rightarrow> True | Some c \<Rightarrow> fitsInt c) then Crashed
           else let rows = prismaTake n (rev (sort_key megapotId (filter (\<lambda>e. revealedEpochWhere (pNow env) e
                      \<and> (case below of None \<Rightarrow> True | Some c \<Rightarrow> megapotId e < c)) (epochs w))))
                in Ok (map (viewEpoch env) rows,
                       if int (length rows) = n then Some (megapotId (last rows)) else None)))"

definition statsRoute :: "world \<Rightarrow> (int \<times> string) reply" where
  "statsRoute w = (case protocolState w of None \<Rightarrow> Refused 404 ''Protocol state not found''
     | Some p \<Rightarrow> Ok (case_option 0 id (psJackpotsWon p), bigIntToString (case_option 0 id (psPrizesWon p))))"

section \<open>Winners of an epoch\<close>

definition WINNING_STATUSES :: "winStatus list" where
  "WINNING_STATUSES = [WON_UNCLAIMED, WON_FREE_TICKET, CLAIMED_ON_BASE, PAID_OUT_ON_SOLANA]"

definition winningRows :: "int \<Rightarrow> world \<Rightarrow> ticket list" where
  "winningRows i w = filter (\<lambda>t. winStatus t \<in> set WINNING_STATUSES
     \<and> orderWhere w (\<lambda>r. fulfillEpoch r = Some i \<and> orderStatus r = SUCCESS) t) (tickets w)"

definition buyerOf :: "world \<Rightarrow> ticket \<Rightarrow> string" where
  "buyerOf w t = (case orderOf w t of None \<Rightarrow> [] | Some r \<Rightarrow> buyer r)"

text \<open>\<open>Map.set\<close> keeps the place of a key it knows and appends a new one.\<close>

fun addWin :: "string \<Rightarrow> int \<Rightarrow> (string \<times> nat \<times> int) list \<Rightarrow> (string \<times> nat \<times> int) list" where
  "addWin b a [] = [(b, 1, a)]"
| "addWin b a ((b', n, s) # m) = (if b' = b then (b', Suc n, s + a) # m else (b', n, s) # addWin b a m)"

definition byBuyer :: "world \<Rightarrow> ticket list \<Rightarrow> (string \<times> nat \<times> int) list" where
  "byBuyer w ts = fold (\<lambda>t. addWin (buyerOf w t) (winAmount t)) ts []"

record winnerRow =
  wrBuyer :: string
  wrCount :: nat
  wrTotal :: string

definition totalOf :: "winnerRow \<Rightarrow> int" where
  "totalOf r = (case bigIntOf (wrTotal r) of Some n \<Rightarrow> n | None \<Rightarrow> 0)"

definition compareWinners :: "protoEnv \<Rightarrow> winnerRow \<Rightarrow> winnerRow \<Rightarrow> int" where
  "compareWinners env a b =
     (let diff = (if totalOf b > totalOf a then 1 else if totalOf b < totalOf a then -1 else 0)
      in if diff \<noteq> 0 then diff else pLocale env (wrBuyer a) (wrBuyer b))"

definition allWinners :: "protoEnv \<Rightarrow> int \<Rightarrow> world \<Rightarrow> winnerRow list" where
  "allWinners env i w = jsSort (compareWinners env)
     (map (\<lambda>(b, n, s). \<lparr> wrBuyer = b, wrCount = n, wrTotal = bigIntToString s \<rparr>) (byBuyer w (winningRows i w)))"

definition epochParam :: "string \<Rightarrow> int option" where "epochParam s = wholeNum (textNum s)"

definition winnersPage :: "jsNum \<Rightarrow> jsNum \<Rightarrow> 'a list \<Rightarrow> 'a list \<times> jsNum option" where
  "winnersPage limit offset xs =
     (let page = jsSlice offset (jsAdd offset limit) xs; nxt = jsAdd offset (JFin (of_nat (length page)))
      in (page, case nxt of JFin r \<Rightarrow> (if r < of_nat (length xs) then Some nxt else None) | _ \<Rightarrow> None))"

definition winnersRoute ::
  "protoEnv \<Rightarrow> string \<Rightarrow> json option \<Rightarrow> json option \<Rightarrow> world \<Rightarrow> (int \<times> winnerRow list \<times> jsNum option) reply" where
  "winnersRoute env epochText limitQ offsetQ w =
     (case epochParam epochText of None \<Rightarrow> Refused 400 ''Invalid epoch id''
      | Some i \<Rightarrow>
        if \<not> fitsInt i then Crashed
        else if \<not> isEpochRevealed (pNow env) w i then Refused 404 ''Settled epoch not found''
        else Ok (i, winnersPage (pageLimit limitQ) (jsMax (orElse (queryNum offsetQ) 0) 0) (allWinners env i w)))"

section \<open>Tickets of one winner\<close>

record winnerTicket =
  wtNormals :: "int list"
  wtBonus :: int
  wtStatus :: winStatus
  wtAmount :: string
  wtFree :: bool

definition viewWinner :: "ticket \<Rightarrow> winnerTicket" where
  "viewWinner t = \<lparr> wtNormals = normalBalls t, wtBonus = bonusBall t, wtStatus = winStatus t,
     wtAmount = bigIntToString (winAmount t), wtFree = isFreeTicketTier t \<rparr>"

text \<open>Text order of two ids.\<close>

fun textLess :: "string \<Rightarrow> string \<Rightarrow> bool" where
  "textLess [] ys = (ys \<noteq> [])"
| "textLess (x # xs) [] = False"
| "textLess (x # xs) (y # ys) = ((of_char x :: nat) < of_char y \<or> x = y \<and> textLess xs ys)"

definition idAsc :: "ticket \<Rightarrow> ticket \<Rightarrow> int" where
  "idAsc a b = (if textLess (ticketId a) (ticketId b) then -1 else if textLess (ticketId b) (ticketId a) then 1 else 0)"

definition winnerDetailRoute ::
  "protoEnv \<Rightarrow> string \<Rightarrow> string \<Rightarrow> world \<Rightarrow> (int \<times> string \<times> winnerTicket list) reply" where
  "winnerDetailRoute env epochText buyerText w =
     (case epochParam epochText of None \<Rightarrow> Refused 400 ''Invalid epoch id''
      | Some i \<Rightarrow>
        if \<not> fitsInt i then Crashed
        else if \<not> isEpochRevealed (pNow env) w i then Refused 404 ''Settled epoch not found''
        else case queryWallet env (Some (JStr buyerText)) of None \<Rightarrow> Refused 400 ''Invalid buyer wallet''
          | Some b \<Rightarrow>
            (let rows = jsSort idAsc (filter (orderWhere w (\<lambda>r. fulfillEpoch r = Some i
                    \<and> orderStatus r = SUCCESS \<and> buyer r = b)) (tickets w))
             in if rows = [] then Refused 404 ''No tickets found for this buyer in this epoch''
                else Ok (i, b, map viewWinner rows)))"

section \<open>Tickets of a wallet\<close>

record ticketView =
  tvId :: string
  tvNormals :: "int list"
  tvBonus :: int
  tvStatus :: winStatus
  tvAmount :: string
  tvFree :: bool
  tvPurchaseEpoch :: int
  tvFulfillEpoch :: "int option"
  tvOrderStatus :: orderStatus
  tvPurchasedAt :: int
  tvOrderHash :: string
  tvSignature :: string
  tvBaseTx :: "string option"
  tvEndedAt :: "int option"
  tvSettledAt :: "int option"
  tvWinningNormals :: "int list option"
  tvWinningBonus :: "int option"

definition viewTicket :: "protoEnv \<Rightarrow> world \<Rightarrow> ticket \<times> relayOrder \<Rightarrow> ticketView" where
  "viewTicket env w p =
     (let t = fst p; r = snd p; fe = fulfillEpoch r;
          rev = (case fe of None \<Rightarrow> True | Some e \<Rightarrow> e \<in> getRevealedEpochIds (pNow env) w);
          ep = Option.bind fe (findEpoch w)
      in \<lparr> tvId = ticketId t, tvNormals = normalBalls t, tvBonus = bonusBall t,
           tvStatus = (if rev then winStatus t else DRAW_PENDING),
           tvAmount = (if rev then bigIntToString (winAmount t) else ''0''),
           tvFree = (rev \<and> isFreeTicketTier t), tvPurchaseEpoch = purchaseEpoch r, tvFulfillEpoch = fe,
           tvOrderStatus = orderStatus r, tvPurchasedAt = lastBought r, tvOrderHash = orderHash r,
           tvSignature = orderSignature r, tvBaseTx = ticketTxHash t, tvEndedAt = Option.bind ep epochEndedAt,
           tvSettledAt = (if rev then Option.bind ep drawnAt else None),
           tvWinningNormals = (if rev then map_option winningNormals ep else None),
           tvWinningBonus = (if rev then map_option winningBonusBall ep else None) \<rparr>)"

definition recentFirst :: "ticket \<times> relayOrder \<Rightarrow> ticket \<times> relayOrder \<Rightarrow> int" where
  "recentFirst a b = (if lastBought (snd a) > lastBought (snd b) then -1
     else if lastBought (snd a) < lastBought (snd b) then 1 else - idAsc (fst a) (fst b))"

definition walletTickets :: "string \<Rightarrow> world \<Rightarrow> (ticket \<times> relayOrder) list" where
  "walletTickets b w = List.map_filter
     (\<lambda>t. case orderOf w t of None \<Rightarrow> None | Some r \<Rightarrow> (if buyer r = b then Some (t, r) else None)) (tickets w)"

record ticketsPage =
  tpTotal :: nat
  tpLimit :: int
  tpOffset :: int
  tpHasMore :: bool
  tpTickets :: "ticketView list"

definition ticketsRoute :: "protoEnv \<Rightarrow> json option \<Rightarrow> json option \<Rightarrow> json option \<Rightarrow> world \<Rightarrow> ticketsPage reply" where
  "ticketsRoute env walletQ limitQ offsetQ w =
     (case queryWallet env walletQ of None \<Rightarrow> Refused 400 ''Invalid or missing wallet''
      | Some b \<Rightarrow>
        (case (wholeNum (jsMin (jsMax (orElse (queryNum limitQ) 500) 1) 500),
               wholeNum (jsMax (orElse (queryNum offsetQ) 0) 0)) of
           (Some limit, Some offset) \<Rightarrow>
             (let rows = walletTickets b w;
                  page = prismaTake limit (drop (nat offset) (jsSort recentFirst rows))
              in Ok \<lparr> tpTotal = length rows, tpLimit = limit, tpOffset = offset,
                      tpHasMore = (offset + int (length page) < int (length rows)),
                      tpTickets = map (viewTicket env w) page \<rparr>)
         | _ \<Rightarrow> Crashed))"

section \<open>The reveal gate holds on every route\<close>

definition hidden :: "int \<Rightarrow> world \<Rightarrow> ticket \<Rightarrow> bool" where
  "hidden now w t = (case Option.bind (orderOf w t) fulfillEpoch of
     None \<Rightarrow> False | Some e \<Rightarrow> e \<notin> getRevealedEpochIds now w)"

definition maskResult :: "ticket \<Rightarrow> ticket" where
  "maskResult t = t\<lparr>winStatus := DRAW_PENDING, winAmount := 0, isFreeTicketTier := False\<rparr>"

definition ticketAgrees :: "int \<Rightarrow> world \<Rightarrow> ticket \<Rightarrow> ticket \<Rightarrow> bool" where
  "ticketAgrees now w t t' = (t' = t \<or> hidden now w t \<and> maskResult t' = maskResult t)"

definition epochAgrees :: "int \<Rightarrow> megapotEpoch \<Rightarrow> megapotEpoch \<Rightarrow> bool" where
  "epochAgrees now e e' = (e' = e \<or> \<not> revealedEpochWhere now e
     \<and> megapotId e' = megapotId e \<and> epochEndedAt e' = epochEndedAt e)"

text \<open>Two databases that differ at most in the results of epochs not yet revealed.\<close>

definition sameOutside :: "int \<Rightarrow> world \<Rightarrow> world \<Rightarrow> bool" where
  "sameOutside now w w' \<longleftrightarrow> orders w' = orders w \<and> protocolState w' = protocolState w
     \<and> list_all2 (ticketAgrees now w) (tickets w) (tickets w') \<and> list_all2 (epochAgrees now) (epochs w) (epochs w')"

lemma filter_rel:
  "list_all2 R xs ys \<Longrightarrow> (\<And>x y. R x y \<Longrightarrow> P x = Q y \<and> (P x \<longrightarrow> x = y)) \<Longrightarrow> filter P xs = filter Q ys"
  by (induction rule: list_all2_induct) auto

lemma insertCmp_rel:
  assumes "list_all2 R ys zs" "R x x'" and c: "\<And>a a' b b'. R a a' \<Longrightarrow> R b b' \<Longrightarrow> c a b = c a' b'"
  shows "list_all2 R (insertCmp c x ys) (insertCmp c x' zs)"
  using assms(1,2)
proof (induction rule: list_all2_induct)
  case (Cons y ys z zs)
  then show ?case using c [OF assms(2) Cons(1)] by simp
qed simp

lemma jsSort_rel:
  assumes "list_all2 R xs ys" and c: "\<And>a a' b b'. R a a' \<Longrightarrow> R b b' \<Longrightarrow> c a b = c a' b'"
  shows "list_all2 R (jsSort c xs) (jsSort c ys)"
proof -
  have "list_all2 R (fold (insertCmp c) xs us) (fold (insertCmp c) ys vs)" if "list_all2 R us vs" for us vs
    using assms(1) that
  proof (induction xs ys arbitrary: us vs rule: list_all2_induct)
    case (Cons x xs y ys)
    then show ?case using insertCmp_rel [of R us vs x y c] c by simp
  qed simp
  then show ?thesis by (simp add: jsSort_def)
qed

lemma sameOutside_orderOf: "sameOutside now w w' \<Longrightarrow> ticketOrder t' = ticketOrder t \<Longrightarrow> orderOf w' t' = orderOf w t"
  by (simp add: sameOutside_def orderOf_def)

lemma maskResult_sel:
  "ticketOrder (maskResult t) = ticketOrder t" "ticketId (maskResult t) = ticketId t"
  "normalBalls (maskResult t) = normalBalls t" "bonusBall (maskResult t) = bonusBall t"
  "ticketTxHash (maskResult t) = ticketTxHash t"
  by (simp_all add: maskResult_def)

lemma ticketAgrees_sel:
  assumes "ticketAgrees now w t t'"
  shows "ticketOrder t' = ticketOrder t" "ticketId t' = ticketId t" "normalBalls t' = normalBalls t"
    "bonusBall t' = bonusBall t" "ticketTxHash t' = ticketTxHash t"
proof -
  have m: "maskResult t' = maskResult t" using assms by (auto simp: ticketAgrees_def)
  show "ticketOrder t' = ticketOrder t" "ticketId t' = ticketId t" "normalBalls t' = normalBalls t"
    "bonusBall t' = bonusBall t" "ticketTxHash t' = ticketTxHash t"
    by (metis m maskResult_sel(1), metis m maskResult_sel(2), metis m maskResult_sel(3),
        metis m maskResult_sel(4), metis m maskResult_sel(5))
qed

lemma ticketAgrees_shown: "ticketAgrees now w t t' \<Longrightarrow> \<not> hidden now w t \<Longrightarrow> t' = t"
  by (simp add: ticketAgrees_def)

lemma epochAgrees_sel:
  "epochAgrees now e e' \<Longrightarrow> megapotId e' = megapotId e \<and> epochEndedAt e' = epochEndedAt e"
  by (auto simp: epochAgrees_def)

lemma epochAgrees_revealed: "epochAgrees now e e' \<Longrightarrow> revealedEpochWhere now e' = revealedEpochWhere now e"
  using epochAgrees_sel by (simp add: revealedEpochWhere_def)

lemma revealed_rows_same:
  assumes "list_all2 (epochAgrees now) es es'"
  shows "filter (\<lambda>e. revealedEpochWhere now e \<and> P (megapotId e)) es' = filter (\<lambda>e. revealedEpochWhere now e \<and> P (megapotId e)) es"
proof (rule sym, rule filter_rel [OF assms])
  fix e e'
  assume a: "epochAgrees now e e'"
  show "(revealedEpochWhere now e \<and> P (megapotId e)) = (revealedEpochWhere now e' \<and> P (megapotId e'))
      \<and> (revealedEpochWhere now e \<and> P (megapotId e) \<longrightarrow> e = e')"
    using epochAgrees_revealed [OF a] epochAgrees_sel [OF a] a by (auto simp: epochAgrees_def)
qed

lemma revealed_ids_same:
  assumes "sameOutside now w w'"
  shows "getRevealedEpochIds now w' = getRevealedEpochIds now w"
  using revealed_rows_same [of now "epochs w" "epochs w'" "\<lambda>i. True"] assms
  by (simp add: getRevealedEpochIds_def sameOutside_def)

lemma findEpoch_rel:
  "list_all2 (epochAgrees now) es es' \<Longrightarrow>
   rel_option (epochAgrees now) (List.find (\<lambda>e. megapotId e = i) es) (List.find (\<lambda>e. megapotId e = i) es')"
  by (induction rule: list_all2_induct) (auto dest: epochAgrees_sel)

lemma isEpochRevealed_same:
  assumes "sameOutside now w w'"
  shows "isEpochRevealed now w' i = isEpochRevealed now w i"
proof -
  have "rel_option (epochAgrees now) (findEpoch w i) (findEpoch w' i)"
    using assms findEpoch_rel unfolding sameOutside_def findEpoch_def by blast
  then show ?thesis
    by (cases "findEpoch w i"; cases "findEpoch w' i") (auto simp: isEpochRevealed_def dest: epochAgrees_sel)
qed

text \<open>The tickets of a revealed epoch are the same rows.\<close>

lemma epoch_rows_same:
  assumes s: "sameOutside now w w'" and i: "i \<in> getRevealedEpochIds now w"
    and Q: "\<And>r. Q r \<Longrightarrow> fulfillEpoch r = Some i"
  shows "filter (\<lambda>t. P t \<and> orderWhere w' Q t) (tickets w') = filter (\<lambda>t. P t \<and> orderWhere w Q t) (tickets w)"
proof (rule sym, rule filter_rel)
  show "list_all2 (ticketAgrees now w) (tickets w) (tickets w')" using s by (simp add: sameOutside_def)
  fix t t'
  assume a: "ticketAgrees now w t t'"
  have o: "orderWhere w' Q t' = orderWhere w Q t"
    using sameOutside_orderOf [OF s ticketAgrees_sel(1) [OF a]] by (simp add: orderWhere_def)
  have "t' = t" if "orderWhere w Q t"
    by (rule ticketAgrees_shown [OF a]) (use that i Q in \<open>auto simp: hidden_def orderWhere_def split: option.splits\<close>)
  then show "(P t \<and> orderWhere w Q t) = (P t' \<and> orderWhere w' Q t')
      \<and> (P t \<and> orderWhere w Q t \<longrightarrow> t = t')" using o by auto
qed

lemma revealed_iff_id:
  "distinct (map megapotId (epochs w)) \<Longrightarrow> isEpochRevealed now w i = (i \<in> getRevealedEpochIds now w)"
  by (cases "findEpoch w i")
     (auto simp: isEpochRevealed_def getRevealedEpochIds_def findEpoch_def revealedEpochWhere_def image_iff
        dest: find_None_not find_Some_iff_mem distinct_map_eq split: option.splits)

lemma buyerOf_same: "sameOutside now w w' \<Longrightarrow> buyerOf w' t = buyerOf w t"
  by (simp add: buyerOf_def sameOutside_orderOf)

lemma winningRows_same:
  assumes "sameOutside now w w'" "i \<in> getRevealedEpochIds now w"
  shows "winningRows i w' = winningRows i w"
  unfolding winningRows_def by (rule epoch_rows_same [OF assms]) simp

lemma allWinners_same:
  assumes "sameOutside now w w'" "i \<in> getRevealedEpochIds now w"
  shows "allWinners env i w' = allWinners env i w"
  by (simp add: allWinners_def byBuyer_def winningRows_same [OF assms] buyerOf_same [OF assms(1)])

lemma detail_rows_same:
  assumes "sameOutside now w w'" "i \<in> getRevealedEpochIds now w"
  shows "filter (orderWhere w' (\<lambda>r. fulfillEpoch r = Some i \<and> orderStatus r = SUCCESS \<and> buyer r = b)) (tickets w')
    = filter (orderWhere w (\<lambda>r. fulfillEpoch r = Some i \<and> orderStatus r = SUCCESS \<and> buyer r = b)) (tickets w)"
  using epoch_rows_same [OF assms, of "\<lambda>r. fulfillEpoch r = Some i \<and> orderStatus r = SUCCESS \<and> buyer r = b" "\<lambda>t. True"]
  by simp

definition rowAgrees :: "int \<Rightarrow> world \<Rightarrow> ticket \<times> relayOrder \<Rightarrow> ticket \<times> relayOrder \<Rightarrow> bool" where
  "rowAgrees now w a b = (snd b = snd a \<and> orderOf w (fst a) = Some (snd a) \<and> ticketAgrees now w (fst a) (fst b))"

lemma walletTickets_rel:
  assumes "sameOutside now w w'"
  shows "list_all2 (rowAgrees now w) (walletTickets b w) (walletTickets b w')"
proof -
  have "list_all2 (ticketAgrees now w) (tickets w) (tickets w')" using assms by (simp add: sameOutside_def)
  then show ?thesis
    unfolding walletTickets_def
  proof (induction rule: list_all2_induct)
    case (Cons t ts t' ts')
    have "orderOf w' t' = orderOf w t" by (rule sameOutside_orderOf [OF assms ticketAgrees_sel(1) [OF Cons(1)]])
    then show ?case
      using Cons by (cases "orderOf w t") (auto simp: map_filter_simps rowAgrees_def)
  qed (simp add: map_filter_simps)
qed

lemma recentFirst_rel: "rowAgrees now w a a' \<Longrightarrow> rowAgrees now w b b' \<Longrightarrow> recentFirst a b = recentFirst a' b'"
  using ticketAgrees_sel(2) [of now w "fst a" "fst a'"] ticketAgrees_sel(2) [of now w "fst b" "fst b'"]
  by (simp add: recentFirst_def rowAgrees_def idAsc_def)

lemma prismaTake_rel:
  assumes "list_all2 R xs ys"
  shows "list_all2 R (prismaTake n xs) (prismaTake n ys)"
  using assms list_all2_lengthD [OF assms]
  by (auto simp: prismaTake_def intro: list_all2_dropI list_all2_takeI)

lemma findEpoch_same:
  assumes s: "sameOutside now w w'" and d: "distinct (map megapotId (epochs w))" and i: "i \<in> getRevealedEpochIds now w"
  shows "findEpoch w' i = findEpoch w i"
proof -
  obtain e where e: "e \<in> set (epochs w)" "megapotId e = i" "revealedEpochWhere now e"
    using i by (auto simp: getRevealedEpochIds_def)
  then have f: "findEpoch w i = Some e" using findEpoch_Some [OF d] by blast
  have "rel_option (epochAgrees now) (findEpoch w i) (findEpoch w' i)"
    using s findEpoch_rel unfolding sameOutside_def findEpoch_def by blast
  then show ?thesis using e(3) f by (cases "findEpoch w' i") (auto simp: epochAgrees_def)
qed

lemma viewTicket_same:
  assumes s: "sameOutside (pNow env) w w'" and d: "distinct (map megapotId (epochs w))"
    and r: "rowAgrees (pNow env) w a b"
  shows "viewTicket env w' b = viewTicket env w a"
proof -
  let ?rev = "case fulfillEpoch (snd a) of None \<Rightarrow> True | Some e \<Rightarrow> e \<in> getRevealedEpochIds (pNow env) w"
  have ids: "getRevealedEpochIds (pNow env) w' = getRevealedEpochIds (pNow env) w" by (rule revealed_ids_same [OF s])
  have o: "snd b = snd a" "orderOf w (fst a) = Some (snd a)" and t: "ticketAgrees (pNow env) w (fst a) (fst b)"
    using r by (simp_all add: rowAgrees_def)
  have rel: "rel_option (epochAgrees (pNow env)) (findEpoch w i) (findEpoch w' i)" for i
    using s findEpoch_rel unfolding sameOutside_def findEpoch_def by blast
  have endedAt: "Option.bind (findEpoch w' i) epochEndedAt = Option.bind (findEpoch w i) epochEndedAt" for i
    using rel [of i] epochAgrees_sel by (cases "findEpoch w i"; cases "findEpoch w' i") auto
  have ended: "Option.bind (Option.bind fe (findEpoch w')) epochEndedAt = Option.bind (Option.bind fe (findEpoch w)) epochEndedAt" for fe
    by (cases fe) (simp_all add: endedAt)
  show ?thesis
  proof (cases ?rev)
    case True
    have same: "fst b = fst a"
      by (rule ticketAgrees_shown [OF t]) (use True o(2) in \<open>auto simp: hidden_def split: option.splits\<close>)
    have ep: "Option.bind (fulfillEpoch (snd a)) (findEpoch w') = Option.bind (fulfillEpoch (snd a)) (findEpoch w)"
    proof (cases "fulfillEpoch (snd a)")
      case (Some i)
      have "i \<in> getRevealedEpochIds (pNow env) w" using True Some by simp
      then show ?thesis using findEpoch_same [OF s d] Some by simp
    qed simp
    show ?thesis unfolding viewTicket_def Let_def same o(1) ids ep by (rule refl)
  next
    case False
    show ?thesis
      unfolding viewTicket_def Let_def o(1) ids ended ticketAgrees_sel [OF t]
      by (simp only: False if_False simp_thms)
  qed
qed

lemma ticketsRoute_same:
  assumes "sameOutside (pNow env) w w'" "distinct (map megapotId (epochs w))"
  shows "ticketsRoute env q l off w' = ticketsRoute env q l off w"
proof -
  have rel: "list_all2 (rowAgrees (pNow env) w) (walletTickets b w) (walletTickets b w')" for b
    by (rule walletTickets_rel [OF assms(1)])
  have len: "length (walletTickets b w') = length (walletTickets b w)" for b
    using list_all2_lengthD [OF rel] by simp
  have page: "list_all2 (rowAgrees (pNow env) w) (prismaTake n (drop k (jsSort recentFirst (walletTickets b w))))
      (prismaTake n (drop k (jsSort recentFirst (walletTickets b w'))))" for n k b
    by (rule prismaTake_rel, rule list_all2_dropI, rule jsSort_rel [OF rel recentFirst_rel])
  have views: "map (viewTicket env w') (prismaTake n (drop k (jsSort recentFirst (walletTickets b w'))))
      = map (viewTicket env w) (prismaTake n (drop k (jsSort recentFirst (walletTickets b w))))" for n k b
    using page [of n k b] by (induction rule: list_all2_induct) (simp_all add: viewTicket_same [OF assms])
  have plen: "length (prismaTake n (drop k (jsSort recentFirst (walletTickets b w'))))
      = length (prismaTake n (drop k (jsSort recentFirst (walletTickets b w))))" for n k b
    using list_all2_lengthD [OF page] by simp
  show ?thesis
    unfolding ticketsRoute_def Let_def views plen len ..
qed

text \<open>
  C28: no route shows a result before its epoch is revealed: on two databases that differ at most in
  the results (status, amount and tier of the tickets, and all but the id and end of the epoch row)
  of epochs not yet revealed, every route of the protocol API gives the same answer.
\<close>
theorem api_hides_unrevealed:
  assumes "sameOutside (pNow env) w w'" "distinct (map megapotId (epochs w))"
  shows "stateRoute w' = stateRoute w \<and> statsRoute w' = statsRoute w
    \<and> epochsRoute env l c w' = epochsRoute env l c w \<and> winnersRoute env e l off w' = winnersRoute env e l off w
    \<and> winnerDetailRoute env e b w' = winnerDetailRoute env e b w \<and> ticketsRoute env q l off w' = ticketsRoute env q l off w"
proof (intro conjI)
  show "stateRoute w' = stateRoute w" "statsRoute w' = statsRoute w"
    using assms by (simp_all add: stateRoute_def statsRoute_def sameOutside_def)
  have "list_all2 (epochAgrees (pNow env)) (epochs w) (epochs w')" using assms(1) by (simp add: sameOutside_def)
  then have rows: "filter (\<lambda>e. revealedEpochWhere (pNow env) e \<and> (case below of None \<Rightarrow> True | Some c \<Rightarrow> megapotId e < c)) (epochs w')
      = filter (\<lambda>e. revealedEpochWhere (pNow env) e \<and> (case below of None \<Rightarrow> True | Some c \<Rightarrow> megapotId e < c)) (epochs w)" for below
    by (rule revealed_rows_same [where P = "\<lambda>i. case below of None \<Rightarrow> True | Some c \<Rightarrow> i < c"])
  show "epochsRoute env l c w' = epochsRoute env l c w"
    unfolding epochsRoute_def rows ..
  have g: "isEpochRevealed (pNow env) w' i = isEpochRevealed (pNow env) w i" for i
    by (rule isEpochRevealed_same [OF assms(1)])
  have a: "allWinners env i w' = allWinners env i w" if "isEpochRevealed (pNow env) w i" for i
    using that allWinners_same [OF assms(1)] revealed_iff_id [OF assms(2)] by simp
  show "winnersRoute env e l off w' = winnersRoute env e l off w"
    by (cases "epochParam e") (simp_all add: winnersRoute_def g a)
  have d: "filter (orderWhere w' (\<lambda>r. fulfillEpoch r = Some i \<and> orderStatus r = SUCCESS \<and> buyer r = b)) (tickets w')
      = filter (orderWhere w (\<lambda>r. fulfillEpoch r = Some i \<and> orderStatus r = SUCCESS \<and> buyer r = b)) (tickets w)"
    if "isEpochRevealed (pNow env) w i" for i b
    by (rule detail_rows_same [OF assms(1)]) (use that revealed_iff_id [OF assms(2)] in simp)
  show "winnerDetailRoute env e b w' = winnerDetailRoute env e b w"
  proof (cases "epochParam e")
    case (Some i)
    show ?thesis
    proof (cases "isEpochRevealed (pNow env) w i")
      case True
      show ?thesis unfolding winnerDetailRoute_def g Some option.case d [OF True] ..
    qed (simp add: winnerDetailRoute_def g Some)
  qed (simp add: winnerDetailRoute_def)
  show "ticketsRoute env q l off w' = ticketsRoute env q l off w" by (rule ticketsRoute_same [OF assms])
qed

definition waitingOrder :: relayOrder where
  "waitingOrder = \<lparr> orderHash = ''h'', orderSignature = ''s'', buyer = ''alice'', purchaseEpoch = 7,
     fulfillEpoch = Some 7, amountUsdc = 1000000, orderTicketCount = 1, lastBought = 1, orderStatus = SUCCESS,
     attemptCount = 0, lastError = None, nextRetryAt = None, orderTxHash = None, megapotTicketIds = [],
     orderCreatedAt = 1, updatedAt = 1 \<rparr>"

definition beforeReveal :: "winStatus \<Rightarrow> int \<Rightarrow> world" where
  "beforeReveal st amt = emptyWorld\<lparr>orders := [waitingOrder],
     tickets := [(newTicket ''t'' ''h'' 3 [1, 2, 3, 4, 5])\<lparr>winStatus := st, winAmount := amt\<rparr>],
     epochs := [(blankEpoch 7)\<lparr>epochEndedAt := Some 100, topPrizeAmount := amt\<rparr>]\<rparr>"

definition protoSample :: "int \<Rightarrow> protoEnv" where
  "protoSample now = \<lparr> pNow = now, pBase58 = Some, pCreatedAt = (\<lambda>i. 0), pLocale = (\<lambda>a b. 0) \<rparr>"

theorem api_hides_unrevealed_witness:
  "ticketsRoute (protoSample 50) (Some (JStr ''alice'')) None None (beforeReveal WON_UNCLAIMED 900)
     = ticketsRoute (protoSample 50) (Some (JStr ''alice'')) None None (beforeReveal LOST 0)
   \<and> ticketsRoute (protoSample 100) (Some (JStr ''alice'')) None None (beforeReveal WON_UNCLAIMED 900)
     \<noteq> ticketsRoute (protoSample 100) (Some (JStr ''alice'')) None None (beforeReveal LOST 0)"
proof
  have "hidden 50 (beforeReveal LOST 0) (newTicket ''t'' ''h'' 3 [1, 2, 3, 4, 5])" by code_simp
  then have h: "hidden 50 (beforeReveal LOST 0) ((newTicket ''t'' ''h'' 3 [1, 2, 3, 4, 5])\<lparr>winStatus := LOST, winAmount := 0\<rparr>)"
    by (simp add: hidden_def orderOf_def)
  have s: "sameOutside (pNow (protoSample 50)) (beforeReveal LOST 0) (beforeReveal WON_UNCLAIMED 900)"
    using h by (simp add: sameOutside_def beforeReveal_def ticketAgrees_def maskResult_def protoSample_def
        epochAgrees_def revealedEpochWhere_def)
  have d: "distinct (map megapotId (epochs (beforeReveal LOST 0)))" by (simp add: beforeReveal_def)
  show "ticketsRoute (protoSample 50) (Some (JStr ''alice'')) None None (beforeReveal WON_UNCLAIMED 900)
      = ticketsRoute (protoSample 50) (Some (JStr ''alice'')) None None (beforeReveal LOST 0)"
    using api_hides_unrevealed [OF s d] by blast
  show "ticketsRoute (protoSample 100) (Some (JStr ''alice'')) None None (beforeReveal WON_UNCLAIMED 900)
      \<noteq> ticketsRoute (protoSample 100) (Some (JStr ''alice'')) None None (beforeReveal LOST 0)"
    by code_simp
qed

section \<open>Winners and their pages\<close>

lemma mset_insertCmp: "mset (insertCmp c x ys) = add_mset x (mset ys)"
  by (induction ys) auto

lemma mset_jsSort [simp]: "mset (jsSort c xs) = mset xs"
proof -
  have "mset (fold (insertCmp c) xs ys) = mset xs + mset ys" for ys
    by (induction xs arbitrary: ys) (simp_all add: mset_insertCmp)
  then show ?thesis by (simp add: jsSort_def)
qed

lemma set_jsSort [simp]: "set (jsSort c xs) = set xs"
  using mset_jsSort [of c xs] mset_eq_setD by blast

lemma insertCmp_sorted:
  fixes f :: "'a \<Rightarrow> int"
  assumes lo: "\<And>a b. c a b < 0 \<Longrightarrow> f b \<le> f a" and hi: "\<And>a b. \<not> c a b < 0 \<Longrightarrow> f a \<le> f b"
    and "sorted_wrt (\<lambda>a b. f b \<le> f a) ys"
  shows "sorted_wrt (\<lambda>a b. f b \<le> f a) (insertCmp c x ys)"
  using assms(3)
proof (induction ys)
  case (Cons y ys)
  have s: "set (insertCmp c x ys) = insert x (set ys)"
    using mset_insertCmp [of c x ys] by (metis set_mset_add_mset_insert set_mset_mset)
  show ?case
  proof (cases "c x y < 0")
    case True
    then show ?thesis using Cons.prems lo [OF True] by fastforce
  next
    case False
    then show ?thesis using Cons hi [OF False] by (simp add: s)
  qed
qed simp

lemma jsSort_sorted:
  fixes f :: "'a \<Rightarrow> int"
  assumes lo: "\<And>a b. c a b < 0 \<Longrightarrow> f b \<le> f a" and hi: "\<And>a b. \<not> c a b < 0 \<Longrightarrow> f a \<le> f b"
  shows "sorted_wrt (\<lambda>a b. f b \<le> f a) (jsSort c xs)"
proof -
  have "sorted_wrt (\<lambda>a b. f b \<le> f a) ys \<Longrightarrow> sorted_wrt (\<lambda>a b. f b \<le> f a) (fold (insertCmp c) xs ys)" for ys
    by (induction xs arbitrary: ys) (simp_all add: insertCmp_sorted [of c f] lo hi)
  then show ?thesis by (simp add: jsSort_def)
qed

lemma addWin_map:
  "map_of (addWin b a m) = (map_of m)(b \<mapsto> (case map_of m b of None \<Rightarrow> (1, a) | Some (n, s) \<Rightarrow> (Suc n, s + a)))"
  by (induction b a m rule: addWin.induct) (auto simp: fun_eq_iff)

lemma addWin_keys: "fst ` set (addWin b a m) = insert b (fst ` set m)"
  by (induction b a m rule: addWin.induct) auto

lemma addWin_distinct: "distinct (map fst m) \<Longrightarrow> distinct (map fst (addWin b a m))"
proof (induction b a m rule: addWin.induct)
  case (2 b a b' n s m)
  then show ?case using addWin_keys [of b a m] by (auto simp flip: set_map)
qed simp

lemma byBuyer_snoc: "byBuyer w (ts @ [t]) = addWin (buyerOf w t) (winAmount t) (byBuyer w ts)"
  by (simp add: byBuyer_def)

lemma byBuyer_distinct: "distinct (map fst (byBuyer w ts))"
  by (induction ts rule: rev_induct) (simp_all add: byBuyer_snoc addWin_distinct, simp add: byBuyer_def)

lemma byBuyer_keys: "fst ` set (byBuyer w ts) = buyerOf w ` set ts"
  by (induction ts rule: rev_induct) (simp_all add: byBuyer_snoc addWin_keys, simp add: byBuyer_def)

lemma byBuyer_map:
  "map_of (byBuyer w ts) b = (if b \<in> buyerOf w ` set ts
     then Some (countMany (\<lambda>t. buyerOf w t = b) ts, sumMany winAmount (filter (\<lambda>t. buyerOf w t = b) ts)) else None)"
proof (induction ts rule: rev_induct)
  case Nil
  then show ?case by (simp add: byBuyer_def)
next
  case (snoc t ts)
  have "countMany (\<lambda>u. buyerOf w u = b) ts = 0 \<and> filter (\<lambda>u. buyerOf w u = b) ts = []" if "b \<notin> buyerOf w ` set ts"
    using that by (auto simp: countMany_0_iff filter_empty_conv)
  then show ?case using snoc by (auto simp: byBuyer_snoc addWin_map countMany_append)
qed

text \<open>
  C29: the winners list of an epoch has one row for each buyer of a winning ticket of the epoch's
  fulfilled orders, with the number and the sum of exactly that buyer's winning tickets, the largest
  sums first.
\<close>
theorem winners_breakdown:
  "distinct (map wrBuyer (allWinners env i w)) \<and> sorted_wrt (\<lambda>a b. totalOf b \<le> totalOf a) (allWinners env i w)
   \<and> set (allWinners env i w) = (\<lambda>b. \<lparr> wrBuyer = b, wrCount = countMany (\<lambda>t. buyerOf w t = b) (winningRows i w),
        wrTotal = bigIntToString (sumMany winAmount (filter (\<lambda>t. buyerOf w t = b) (winningRows i w))) \<rparr>)
        ` buyerOf w ` set (winningRows i w)"
proof (intro conjI)
  let ?m = "byBuyer w (winningRows i w)"
  let ?row = "\<lambda>(b, n, s). \<lparr> wrBuyer = b, wrCount = n, wrTotal = bigIntToString s \<rparr>"
  let ?spec = "\<lambda>b. \<lparr> wrBuyer = b, wrCount = countMany (\<lambda>t. buyerOf w t = b) (winningRows i w),
        wrTotal = bigIntToString (sumMany winAmount (filter (\<lambda>t. buyerOf w t = b) (winningRows i w))) \<rparr>"
  have ms: "mset (map wrBuyer (allWinners env i w)) = mset (map fst ?m)"
    by (simp add: allWinners_def comp_def case_prod_beta flip: mset_map)
       (simp add: multiset.map_comp comp_def case_prod_beta)
  show "distinct (map wrBuyer (allWinners env i w))"
    using byBuyer_distinct mset_eq_imp_distinct_iff [OF ms] by blast
  show "sorted_wrt (\<lambda>a b. totalOf b \<le> totalOf a) (allWinners env i w)"
    unfolding allWinners_def
    by (rule jsSort_sorted) (auto simp: compareWinners_def Let_def split: if_splits)
  have "?row p = ?spec (fst p)" if "p \<in> set ?m" for p
  proof -
    have "map_of ?m (fst p) = Some (snd p)" using that byBuyer_distinct by simp
    then show ?thesis by (cases p) (auto simp: byBuyer_map split: if_splits)
  qed
  then have "?row ` set ?m = ?spec ` fst ` set ?m" by force
  then show "set (allWinners env i w) = ?spec ` buyerOf w ` set (winningRows i w)"
    by (simp add: allWinners_def byBuyer_keys)
qed

text \<open>A client that follows \<open>nextOffset\<close>.\<close>

fun followWinners :: "nat \<Rightarrow> jsNum \<Rightarrow> jsNum \<Rightarrow> 'a list \<Rightarrow> 'a list" where
  "followWinners 0 limit off xs = []"
| "followWinners (Suc f) limit off xs =
     (case winnersPage limit off xs of (page, nxt) \<Rightarrow>
        page @ (case nxt of None \<Rightarrow> [] | Some off' \<Rightarrow> followWinners f limit off' xs))"

lemma truncRat_nat [simp]: "truncRat (of_nat k) = int k"
  by (simp add: truncRat_def)

lemma sliceIndex_nat [simp]: "sliceIndex n (JFin (of_nat k)) = min k n"
  by (simp add: sliceIndex_def)

lemma winnersPage_nat:
  "winnersPage (JFin (of_nat k)) (JFin (of_nat n)) xs =
     (take k (drop n xs), if n + k < length xs then Some (JFin (of_nat (n + k))) else None)"
proof -
  have s: "jsSlice (JFin (of_nat n)) (JFin (of_nat (n + k))) xs = take k (drop n xs)"
    unfolding jsSlice_def Let_def sliceIndex_nat by (cases "n \<le> length xs") (auto simp: min_def)
  have r: "(of_nat n + of_nat m :: rat) < of_nat (length xs) \<longleftrightarrow> n + m < length xs" for m
    by (metis of_nat_add of_nat_less_iff)
  show ?thesis
    unfolding winnersPage_def Let_def jsAdd.simps of_nat_add [symmetric] s
    by (auto simp: r simp flip: of_nat_add)
qed

lemma followWinners_drop:
  "0 < k \<Longrightarrow> length xs - n < f \<Longrightarrow> followWinners f (JFin (of_nat k)) (JFin (of_nat n)) xs = drop n xs"
proof (induction f arbitrary: n)
  case (Suc f)
  show ?case
  proof (cases "n + k < length xs")
    case True
    then have "followWinners f (JFin (of_nat k)) (JFin (of_nat (n + k))) xs = drop (n + k) xs"
      using Suc by (intro Suc.IH) auto
    then have "followWinners (Suc f) (JFin (of_nat k)) (JFin (of_nat n)) xs = take k (drop n xs) @ drop k (drop n xs)"
      using True by (simp add: winnersPage_nat add.commute del: append_take_drop_id)
    then show ?thesis unfolding append_take_drop_id .
  qed (simp add: winnersPage_nat)
qed simp

text \<open>
  With any whole page size from one on, a client that follows \<open>nextOffset\<close> from the start is
  given the winners list of the epoch, every row once and in order, and then no further page.
\<close>
theorem winners_pages_cover:
  assumes "pageLimit q = JFin (of_nat k)" "0 < k"
  shows "followWinners (Suc (length (allWinners env i w))) (pageLimit q) (JFin 0) (allWinners env i w) = allWinners env i w"
  using followWinners_drop [OF assms(2), of "allWinners env i w" 0 "Suc (length (allWinners env i w))"] assms(1)
  by (simp del: followWinners.simps)

lemma boundNum_small: "\<bar>r\<bar> < 1000000 \<Longrightarrow> boundNum r = JFin r"
proof -
  assume r: "\<bar>r\<bar> < 1000000"
  define x :: rat where "x = 2 ^ 970"
  have "x = 2 ^ (950 + 20)" by (simp add: x_def)
  also have "\<dots> = 2 ^ 950 * 1048576" unfolding power_add by simp
  finally have "1048576 \<le> x" using one_le_power [of "2 :: rat" 950] by simp
  moreover have "2 * x \<le> 2 ^ 1024" unfolding x_def power_Suc [symmetric] by (rule power_increasing) simp_all
  ultimately have "1000000 \<le> maxDouble" unfolding maxDouble_def x_def [symmetric] by linarith
  then show ?thesis using r by (auto simp: boundNum_def)
qed

lemma textNum_small:
  "trimWhite s = s \<Longrightarrow> s \<notin> {''Infinity'', ''+Infinity'', ''-Infinity''} \<Longrightarrow> numberOf s = Some r \<Longrightarrow> \<bar>r\<bar> < 1000000
   \<Longrightarrow> textNum s = JFin r"
  by (simp add: textNum_def boundNum_small)

lemma pageLimit_texts:
  "pageLimit (Some (JStr ''1'')) = JFin 1" "pageLimit (Some (JStr ''-1'')) = JFin (- 1)"
  "pageLimit (Some (JStr ''-1000'')) = JFin (- 1000)"
proof -
  have "numberOf ''1'' = Some 1" "numberOf ''-1'' = Some (- 1)" "numberOf ''-1000'' = Some (- 1000)"
    "trimWhite ''1'' = ''1''" "trimWhite ''-1'' = ''-1''" "trimWhite ''-1000'' = ''-1000''" by code_simp+
  then have "textNum ''1'' = JFin 1" "textNum ''-1'' = JFin (- 1)" "textNum ''-1000'' = JFin (- 1000)"
    by (simp_all add: textNum_small)
  then show "pageLimit (Some (JStr ''1'')) = JFin 1" "pageLimit (Some (JStr ''-1'')) = JFin (- 1)"
    "pageLimit (Some (JStr ''-1000'')) = JFin (- 1000)"
    by (simp_all add: pageLimit_def orElse_def)
qed

definition twoBuyers :: world where
  "twoBuyers = emptyWorld\<lparr>orders := [waitingOrder, waitingOrder\<lparr>orderHash := ''g'', buyer := ''bob''\<rparr>],
     tickets := [(newTicket ''t'' ''h'' 3 [1, 2, 3, 4, 5])\<lparr>winStatus := WON_UNCLAIMED, winAmount := 7\<rparr>,
       (newTicket ''u'' ''g'' 3 [1, 2, 3, 4, 5])\<lparr>winStatus := CLAIMED_ON_BASE, winAmount := 9\<rparr>]\<rparr>"

theorem winners_pages_cover_witness:
  "followWinners 3 (JFin 1) (JFin 0) (allWinners (protoSample 0) 7 twoBuyers) = allWinners (protoSample 0) 7 twoBuyers"
proof -
  have q: "pageLimit (Some (JStr ''1'')) = JFin (of_nat 1)" by (simp add: pageLimit_texts)
  have n: "length (allWinners (protoSample 0) 7 twoBuyers) = 2" by code_simp
  from winners_pages_cover [OF q, of "protoSample 0" 7 twoBuyers] show ?thesis
    by (simp add: n q eval_nat_numeral)
qed

text \<open>
  The cap of fifty rows a page does not hold for a negative \<open>limit\<close>: \<open>limit=-1\<close> returns all
  winners but the last on one page, and \<open>limit=-1000\<close> the thousand oldest revealed epochs.
\<close>

theorem page_cap_bypassed:
  "fst (winnersPage (pageLimit (Some (JStr ''-1''))) (JFin 0) xs) = butlast xs
   \<and> (\<exists>rows. epochsRoute env (Some (JStr ''-1000'')) None w = Ok (rows, None)
       \<and> length rows = min 1000 (length (filter (revealedEpochWhere (pNow env)) (epochs w))))"
proof
  have "\<lceil>- 1 :: rat\<rceil> = - 1" by (metis ceiling_of_int of_int_minus of_int_1)
  moreover have "nat (int (length xs) - 1) = length xs - Suc 0" by arith
  ultimately show "fst (winnersPage (pageLimit (Some (JStr ''-1''))) (JFin 0) xs) = butlast xs"
    unfolding pageLimit_texts by (simp add: winnersPage_def jsSlice_def sliceIndex_def truncRat_def butlast_conv_take Let_def)
  have w: "wholeNum (pageLimit (Some (JStr ''-1000''))) = Some (- 1000)" by (simp add: wholeNum_def pageLimit_texts)
  show "\<exists>rows. epochsRoute env (Some (JStr ''-1000'')) None w = Ok (rows, None)
       \<and> length rows = min 1000 (length (filter (revealedEpochWhere (pNow env)) (epochs w)))"
    by (simp add: epochsRoute_def w prismaTake_def Let_def min_def)
qed

end
