(* ===== verification/Settlement.thy ===== *)
theory Settlement
  imports Megapot TicketLife
begin

text \<open>
  \<open>workers/settlementWorker.ts\<close>: grading the \<open>DRAW_PENDING\<close> tickets of a settled epoch. The page
  loop with its grouped \<open>updateMany\<close> statements is modelled as written and shown equal to one pass
  that grades every ticket of the epoch by itself.
\<close>

section \<open>Constants and tier arithmetic\<close>

definition TICKET_BATCH :: nat where "TICKET_BATCH = 500"

definition MAX_BATCHES_PER_EPOCH :: nat where "MAX_BATCHES_PER_EPOCH = 2000"

definition FREE_TICKET_TIERS :: "int list" where "FREE_TICKET_TIERS = [1, 4]"

definition calcTierId :: "int list \<Rightarrow> int \<Rightarrow> int list \<Rightarrow> int \<Rightarrow> int" where
  "calcTierId ns bonus winning winningBonus =
     2 * int (length (filter (\<lambda>b. b \<in> set winning) ns))
       + (if bonus = winningBonus then 1 else 0)"

text \<open>
  Reading the stored tier table back. An entry must have an integral \<open>tierId\<close> and an \<open>amount\<close> of
  decimal digits; a later entry of the same tier wins.
\<close>

fun parseTierEntries ::
  "json list \<Rightarrow> (int \<rightharpoonup> int) \<Rightarrow> (string, int \<rightharpoonup> int) result" where
  "parseTierEntries [] m = Inr m"
| "parseTierEntries (e # es) m =
     (let tierId = (case getProp ''tierId'' e of None \<Rightarrow> None | Some v \<Rightarrow> numberOfJson v) in
      case (tierId, getProp ''amount'' e) of
        (Some r, Some (JStr a)) \<Rightarrow>
          (if isInteger (Some r) \<and> allDigits a then
             parseTierEntries es (m(\<lfloor>r\<rfloor> := bigIntOf a))
           else Inl ''Malformed prize tier entry'')
      | _ \<Rightarrow> Inl ''Malformed prize tier entry'')"

definition parsePrizeTiers :: "json \<Rightarrow> (string, int \<rightharpoonup> int) result" where
  "parsePrizeTiers j =
     (case j of JArr es \<Rightarrow>
        (if es = [] then Inl ''prizeTiers is not a non-empty array''
         else parseTierEntries es Map.empty)
      | _ \<Rightarrow> Inl ''prizeTiers is not a non-empty array'')"

section \<open>Grading one page\<close>

text \<open>What the loop body computes for a ticket: \<open>None\<close> for a loser, or the group it joins.\<close>

definition gradeKey :: "(int \<rightharpoonup> int) \<Rightarrow> megapotEpoch \<Rightarrow> ticket \<Rightarrow> (winStatus \<times> int) option" where
  "gradeKey tiers e t =
     (let tierId = calcTierId (normalBalls t) (bonusBall t) (winningNormals e) (winningBonusBall e);
          gross = case_option 0 id (tiers tierId)
      in if gross = 0 then None
         else Some (if tierId \<in> set FREE_TICKET_TIERS then WON_FREE_TICKET else WON_UNCLAIMED,
                    gross))"

type_synonym winGroup = "(winStatus \<times> int) \<times> string list"

fun addToGroup :: "winStatus \<times> int \<Rightarrow> string \<Rightarrow> winGroup list \<Rightarrow> winGroup list" where
  "addToGroup k i [] = [(k, [i])]"
| "addToGroup k i ((k', ids) # gs) =
     (if k' = k then (k', ids @ [i]) # gs else (k', ids) # addToGroup k i gs)"

fun groupTickets ::
  "(int \<rightharpoonup> int) \<Rightarrow> megapotEpoch \<Rightarrow> ticket list \<Rightarrow> string list \<Rightarrow> winGroup list \<Rightarrow>
   string list \<times> winGroup list" where
  "groupTickets tiers e [] losers groups = (losers, groups)"
| "groupTickets tiers e (t # ts) losers groups =
     (case gradeKey tiers e t of
        None \<Rightarrow> groupTickets tiers e ts (losers @ [ticketId t]) groups
      | Some k \<Rightarrow> groupTickets tiers e ts losers (addToGroup k (ticketId t) groups))"

definition pendingIn :: "string list \<Rightarrow> ticket \<Rightarrow> bool" where
  "pendingIn ids t = (ticketId t \<in> set ids \<and> winStatus t = DRAW_PENDING)"

definition markLost :: "ticket \<Rightarrow> ticket" where
  "markLost t = t\<lparr>winStatus := LOST\<rparr>"

definition markWon :: "winStatus \<times> int \<Rightarrow> ticket \<Rightarrow> ticket" where
  "markWon k t = t\<lparr>winStatus := fst k, winAmount := snd k,
                   isFreeTicketTier := (fst k = WON_FREE_TICKET)\<rparr>"

text \<open>The transaction: the losers' statement if there are any, then one statement per group.\<close>

definition gradeTx :: "string list \<Rightarrow> winGroup list \<Rightarrow> ticket list \<Rightarrow> ticket list" where
  "gradeTx losers groups ts =
     fold (\<lambda>(k, ids). updateMany (pendingIn ids) (markWon k)) groups
       (if losers = [] then ts else updateMany (pendingIn losers) markLost ts)"

section \<open>The epoch loop\<close>

definition gradable :: "world \<Rightarrow> int \<Rightarrow> ticket \<Rightarrow> bool" where
  "gradable w i t =
     (winStatus t = DRAW_PENDING
      \<and> orderWhere w (\<lambda>r. fulfillEpoch r = Some i \<and> orderStatus r = SUCCESS) t)"

fun settleBatches :: "nat \<Rightarrow> (int \<rightharpoonup> int) \<Rightarrow> megapotEpoch \<Rightarrow> world \<Rightarrow> bool \<times> world" where
  "settleBatches 0 tiers e w = (True, w)"
| "settleBatches (Suc n) tiers e w =
     (let page = take TICKET_BATCH (filter (gradable w (megapotId e)) (tickets w)) in
      if page = [] then (True, w)
      else let (losers, groups) = groupTickets tiers e page [] [];
               w' = w\<lparr>tickets := gradeTx losers groups (tickets w)\<rparr>
           in if length page < TICKET_BATCH then (True, w')
              else if n = 0 then (False, w')
              else settleBatches n tiers e w')"

definition settleEpoch :: "int \<Rightarrow> megapotEpoch \<Rightarrow> world \<Rightarrow> bool \<times> world" where
  "settleEpoch now e w =
     (case parsePrizeTiers (prizeTiers e) of Inl _ \<Rightarrow> (False, w)
      | Inr tiers \<Rightarrow>
        (case settleBatches MAX_BATCHES_PER_EPOCH tiers e w of
           (False, w') \<Rightarrow> (False, w')
         | (True, w') \<Rightarrow>
             (True, (updEpochs (\<lambda>x. megapotId x = megapotId e)
                       (\<lambda>x. x\<lparr>ticketsSettledAt := Some now\<rparr>) w')
                    \<lparr>published := published w' @ [EpochGraded (megapotId e)]\<rparr>)))"

section \<open>The tick\<close>

definition pendingEpochs :: "world \<Rightarrow> int list" where
  "pendingEpochs w =
     remdups (List.map_filter (\<lambda>t. if winStatus t \<noteq> DRAW_PENDING then None
        else (case orderOf w t of None \<Rightarrow> None
              | Some r \<Rightarrow> (if orderStatus r = SUCCESS then fulfillEpoch r else None))) (tickets w))"

definition stillLive :: "world \<Rightarrow> int \<Rightarrow> bool" where
  "stillLive w i = (case roundCache w of None \<Rightarrow> False | Some r \<Rightarrow> i \<ge> case_option 0 id (rsId r))"

definition healEpoch :: "(int \<Rightarrow> (string, megapotRound) result) \<Rightarrow> int \<Rightarrow> world \<Rightarrow> world" where
  "healEpoch fetchRoundById i w =
     (if stillLive w i then w
      else if 0 < countMany (\<lambda>e. megapotId e = i) (epochs w) then w
      else snd (ensureSettledEpochSynced fetchRoundById i w))"

definition healMissingEpochs :: "(int \<Rightarrow> (string, megapotRound) result) \<Rightarrow> world \<Rightarrow> world" where
  "healMissingEpochs fetchRoundById w = fold (healEpoch fetchRoundById) (pendingEpochs w) w"

text \<open>The orders that can never be graded, counted for the log.\<close>

definition unsettleableOrders :: "world \<Rightarrow> nat" where
  "unsettleableOrders w =
     countMany (\<lambda>r. orderStatus r = SUCCESS \<and> fulfillEpoch r = None
        \<and> (\<exists>t \<in> set (tickets w). ticketOrder t = orderHash r \<and> winStatus t = DRAW_PENDING))
       (orders w)"

definition unsettledEpochs :: "world \<Rightarrow> megapotEpoch list" where
  "unsettledEpochs w = sort_key megapotId (filter (\<lambda>e. ticketsSettledAt e = None) (epochs w))"

definition runSettlementTick ::
  "(int \<Rightarrow> (string, megapotRound) result) \<Rightarrow> int \<Rightarrow> world \<Rightarrow> world" where
  "runSettlementTick fetchRoundById now w =
     (let w1 = healMissingEpochs fetchRoundById w
      in fold (\<lambda>e w. snd (settleEpoch now e w)) (unsettledEpochs w1) w1)"

section \<open>The page transaction grades each ticket of the page\<close>

definition gradeTicket :: "(int \<rightharpoonup> int) \<Rightarrow> megapotEpoch \<Rightarrow> ticket \<Rightarrow> ticket" where
  "gradeTicket tiers e t = (case gradeKey tiers e t of None \<Rightarrow> markLost t | Some k \<Rightarrow> markWon k t)"

lemma gradeKey_status: "gradeKey tiers e t = Some k \<Longrightarrow> fst k \<in> {WON_FREE_TICKET, WON_UNCLAIMED}"
  by (auto simp: gradeKey_def Let_def split: if_splits)

lemma gradeKey_markLost [simp]: "gradeKey tiers e (markLost t) = gradeKey tiers e t"
  by (simp add: gradeKey_def markLost_def)

lemma mark_fields [simp]:
  "ticketId (markLost t) = ticketId t" "ticketId (markWon k t) = ticketId t"
  "ticketOrder (markLost t) = ticketOrder t" "ticketOrder (markWon k t) = ticketOrder t"
  "winStatus (markLost t) = LOST" "winStatus (markWon k t) = fst k"
  by (simp_all add: markLost_def markWon_def)

lemma gradeTicket_fields [simp]:
  "ticketId (gradeTicket tiers e t) = ticketId t"
  "ticketOrder (gradeTicket tiers e t) = ticketOrder t"
  "winStatus (gradeTicket tiers e t) \<noteq> DRAW_PENDING"
  by (auto simp: gradeTicket_def split: option.split dest: gradeKey_status)

lemma fold_row:
  assumes "\<And>g. g \<in> set gs \<Longrightarrow> s g r \<Longrightarrow> u g r = v"
    and "\<And>g. g \<in> set gs \<Longrightarrow> \<not> s g v"
  shows "fold (\<lambda>g r. if s g r then u g r else r) gs r = (if \<exists>g \<in> set gs. s g r then v else r)"
proof -
  have stay: "fold (\<lambda>g r. if s g r then u g r else r) hs v = v" if "set hs \<subseteq> set gs" for hs
    using that assms(2) by (induction hs) auto
  show ?thesis using assms
  proof (induction gs)
    case (Cons g gs)
    show ?case
    proof (cases "s g r")
      case True
      have "fold (\<lambda>g r. if s g r then u g r else r) gs v = v"
        using Cons.prems(2) by (induction gs) auto
      with True Cons.prems(1) [of g] show ?thesis by auto
    next
      case False
      with Cons show ?thesis by simp
    qed
  qed simp
qed

text \<open>The ids a page put in a group, and the key each of them has.\<close>

definition groupIds :: "winGroup list \<Rightarrow> (string \<times> winStatus \<times> int) set" where
  "groupIds gs = {(i, k) |i k ids. (k, ids) \<in> set gs \<and> i \<in> set ids}"

lemma groupIds_Nil [simp]: "groupIds [] = {}"
  by (simp add: groupIds_def)

lemma groupIds_Cons: "groupIds ((k, ids) # gs) = {(i, k) |i. i \<in> set ids} \<union> groupIds gs"
  by (auto simp: groupIds_def)

lemma groupIds_add: "groupIds (addToGroup k i gs) = insert (i, k) (groupIds gs)"
  by (induction k i gs rule: addToGroup.induct) (auto simp: groupIds_Cons)

lemma groupTickets_ids:
  "groupTickets tiers e ts ls gs = (ls', gs') \<Longrightarrow>
   set ls' = set ls \<union> {ticketId t |t. t \<in> set ts \<and> gradeKey tiers e t = None}
   \<and> groupIds gs' = groupIds gs \<union> {(ticketId t, k) |t k. t \<in> set ts \<and> gradeKey tiers e t = Some k}"
proof (induction ts arbitrary: ls gs)
  case (Cons t ts)
  show ?case
  proof (cases "gradeKey tiers e t")
    case None
    with Cons.prems have "groupTickets tiers e ts (ls @ [ticketId t]) gs = (ls', gs')" by simp
    from Cons.IH [OF this] None show ?thesis by auto
  next
    case (Some k)
    with Cons.prems have "groupTickets tiers e ts ls (addToGroup k (ticketId t) gs) = (ls', gs')"
      by simp
    from Cons.IH [OF this] Some show ?thesis by (auto simp: groupIds_add)
  qed
qed simp

lemma gradeTx_row:
  assumes g: "groupTickets tiers e page [] [] = (ls, gs)"
    and d: "distinct (map ticketId ts)" and sub: "set page \<subseteq> set ts" and r: "r \<in> set ts"
  shows "fold (\<lambda>(k, ids) r. if pendingIn ids r then markWon k r else r) gs
           (if pendingIn ls r then markLost r else r)
         = (if r \<in> set page \<and> winStatus r = DRAW_PENDING then gradeTicket tiers e r else r)"
proof -
  have same: "t = r" if "t \<in> set page" "ticketId t = ticketId r" for t
    using distinct_map_eq [OF d] that sub r by blast
  have ls: "ticketId r \<in> set ls \<longleftrightarrow> r \<in> set page \<and> gradeKey tiers e r = None"
    using groupTickets_ids [OF g] same by auto
  have gs: "(ticketId r, k) \<in> groupIds gs \<longleftrightarrow> r \<in> set page \<and> gradeKey tiers e r = Some k" for k
    using groupTickets_ids [OF g] same by auto
  have grp: "\<exists>k. gradeKey tiers e r = Some k \<and> fst h = k \<and> r \<in> set page"
    if "h \<in> set gs" "ticketId r \<in> set (snd h)" for h
    using gs [of "fst h"] that by (cases h) (auto simp: groupIds_def)
  let ?f = "\<lambda>h r. if pendingIn (snd h) r then markWon (fst h) r else r"
  have inert: "fold ?f hs x = x" if "winStatus x \<noteq> DRAW_PENDING" for hs x
    using that by (induction hs) (auto simp: pendingIn_def)
  have "fold ?f gs (if pendingIn ls r then markLost r else r)
        = (if r \<in> set page \<and> winStatus r = DRAW_PENDING then gradeTicket tiers e r else r)"
  proof (cases "winStatus r = DRAW_PENDING \<and> r \<in> set page")
    case False
    then have "\<not> pendingIn ls r" using ls by (auto simp: pendingIn_def)
    moreover have "fold ?f gs r = r"
    proof (cases "winStatus r = DRAW_PENDING")
      case True
      with False grp have "\<not> pendingIn (snd h) r" if "h \<in> set gs" for h
        using that grp [OF that] by (auto simp: pendingIn_def)
      then show ?thesis by (induction gs) auto
    qed (rule inert)
    ultimately show ?thesis using False by auto
  next
    case True
    show ?thesis
    proof (cases "gradeKey tiers e r")
      case None
      with True ls have "pendingIn ls r" by (simp add: pendingIn_def)
      with True None show ?thesis using inert [of "markLost r" gs] by (simp add: gradeTicket_def)
    next
      case (Some k)
      have "fold ?f gs r = (if \<exists>h \<in> set gs. pendingIn (snd h) r then markWon k r else r)"
        using grp Some gradeKey_status [OF Some]
        by (intro fold_row) (auto simp: pendingIn_def)
      moreover have "\<exists>h \<in> set gs. pendingIn (snd h) r"
        using gs [of k] Some True by (force simp: groupIds_def pendingIn_def)
      moreover have "\<not> pendingIn ls r" using ls Some by (simp add: pendingIn_def)
      ultimately show ?thesis using True Some by (simp add: gradeTicket_def)
    qed
  qed
  then show ?thesis by (simp add: case_prod_unfold)
qed

lemma gradeTx_page:
  assumes g: "groupTickets tiers e page [] [] = (ls, gs)"
    and d: "distinct (map ticketId ts)" and sub: "set page \<subseteq> set ts"
  shows "gradeTx ls gs ts
         = updateMany (\<lambda>t. t \<in> set page \<and> winStatus t = DRAW_PENDING) (gradeTicket tiers e) ts"
proof -
  have a: "(if ls = [] then ts else updateMany (pendingIn ls) markLost ts)
           = map (\<lambda>r. if pendingIn ls r then markLost r else r) ts"
    by (auto simp: updateMany_def pendingIn_def)
  have "gradeTx ls gs ts
        = map (\<lambda>r. fold (\<lambda>(k, ids) r. if pendingIn ids r then markWon k r else r) gs
             (if pendingIn ls r then markLost r else r)) ts"
    unfolding gradeTx_def a using fold_updateMany [of "\<lambda>h. pendingIn (snd h)" "\<lambda>h. markWon (fst h)"]
    by (simp add: case_prod_unfold)
  also have "\<dots> = updateMany (\<lambda>t. t \<in> set page \<and> winStatus t = DRAW_PENDING) (gradeTicket tiers e) ts"
    unfolding updateMany_def by (rule map_cong [OF refl]) (rule gradeTx_row [OF g d sub])
  finally show ?thesis .
qed

section \<open>The page loop is one pass over the epoch\<close>

lemma gradeTx_gradable:
  assumes g: "groupTickets tiers e page [] [] = (ls, gs)"
    and d: "distinct (map ticketId (tickets w))"
    and sub: "set page \<subseteq> set (filter (gradable w i) (tickets w))"
  shows "gradeTx ls gs (tickets w) = updateMany (\<lambda>t. t \<in> set page) (gradeTicket tiers e) (tickets w)"
proof -
  have "gradeTx ls gs (tickets w) = updateMany (\<lambda>t. t \<in> set page \<and> winStatus t = DRAW_PENDING)
          (gradeTicket tiers e) (tickets w)"
    using sub by (intro gradeTx_page [OF g d]) auto
  also have "\<dots> = updateMany (\<lambda>t. t \<in> set page) (gradeTicket tiers e) (tickets w)"
    using sub by (intro updateMany_cong) (auto simp: gradable_def)
  finally show ?thesis .
qed

lemma filter_updateMany_out:
  "(\<And>r. \<not> P (g r)) \<Longrightarrow>
   filter P (updateMany (\<lambda>r. r \<in> S) g ts) = filter (\<lambda>r. r \<notin> S) (filter P ts)"
  by (induction ts) auto

lemma filter_after_page:
  assumes "distinct ts" and "\<And>r. \<not> P (g r)"
  shows "filter P (updateMany (\<lambda>r. r \<in> set (take k (filter P ts))) g ts) = drop k (filter P ts)"
proof -
  let ?F = "filter P ts"
  have "filter P (updateMany (\<lambda>r. r \<in> set (take k ?F)) g ts) = filter (\<lambda>r. r \<notin> set (take k ?F)) ?F"
    by (rule filter_updateMany_out) (rule assms(2))
  also have "\<dots> = filter (\<lambda>r. r \<notin> set (take k ?F)) (take k ?F @ drop k ?F)"
    by simp
  also have "\<dots> = drop k ?F"
  proof -
    have "set (take k ?F) \<inter> set (drop k ?F) = {}"
      using assms(1) by (intro set_take_disj_set_drop_if_distinct) auto
    then have "filter (\<lambda>r. r \<notin> set (take k ?F)) (drop k ?F) = drop k ?F"
      by (auto simp: filter_id_conv)
    then show ?thesis by (simp del: append_take_drop_id)
  qed
  finally show ?thesis .
qed

lemma pages_compose:
  assumes "distinct ts" and "\<And>r. \<not> P (g r)"
  shows "updateMany (\<lambda>r. r \<in> set (take m (drop k (filter P ts)))) g
           (updateMany (\<lambda>r. r \<in> set (take k (filter P ts))) g ts)
         = updateMany (\<lambda>r. r \<in> set (take (k + m) (filter P ts))) g ts"
proof -
  let ?F = "filter P ts"
  have notF: "g r \<notin> set (take m (drop k ?F))" for r
    using assms(2) [of r] by (auto dest!: in_set_takeD in_set_dropD)
  have split: "set (take (k + m) ?F) = set (take k ?F) \<union> set (take m (drop k ?F))"
    by (simp add: take_add)
  show ?thesis
    unfolding updateMany_def map_map
    by (rule map_cong [OF refl]) (auto simp: split notF)
qed

lemma settleBatches_spec:
  assumes "distinct (map ticketId (tickets w))" and "0 < n"
  shows "settleBatches n tiers e w =
    (length (filter (gradable w (megapotId e)) (tickets w)) < TICKET_BATCH * n,
     w\<lparr>tickets := updateMany
        (\<lambda>t. t \<in> set (take (TICKET_BATCH * n) (filter (gradable w (megapotId e)) (tickets w))))
        (gradeTicket tiers e) (tickets w)\<rparr>)"
  using assms
proof (induction n arbitrary: w)
  case (Suc n)
  let ?P = "gradable w (megapotId e)" and ?g = "gradeTicket tiers e"
  let ?F = "filter ?P (tickets w)"
  let ?page = "take TICKET_BATCH ?F"
  obtain ls gs where g: "groupTickets tiers e ?page [] [] = (ls, gs)" by fastforce
  let ?w = "w\<lparr>tickets := updateMany (\<lambda>t. t \<in> set ?page) ?g (tickets w)\<rparr>"
  have dt: "distinct (tickets w)" using Suc.prems(1) by (simp add: distinct_map)
  have notP: "\<not> ?P (?g r)" for r by (simp add: gradable_def)
  have tx: "gradeTx ls gs (tickets w) = updateMany (\<lambda>t. t \<in> set ?page) ?g (tickets w)"
    by (rule gradeTx_gradable [OF g Suc.prems(1), of "megapotId e"]) (meson in_set_takeD subsetI)
  have step: "settleBatches (Suc n) tiers e w =
      (if ?page = [] then (True, w) else if length ?page < TICKET_BATCH then (True, ?w)
       else if n = 0 then (False, ?w) else settleBatches n tiers e ?w)"
    by (simp add: Let_def g tx)
  have all: "take k ?F = ?F" if "length ?F \<le> k" for k using that by simp
  consider (empty) "?F = []" | (short) "?F \<noteq> []" "length ?F < TICKET_BATCH"
    | (last) "TICKET_BATCH \<le> length ?F" "n = 0" | (more) "TICKET_BATCH \<le> length ?F" "0 < n"
    by linarith
  then show ?case
  proof cases
    case empty
    then have "settleBatches (Suc n) tiers e w = (True, w)" by (simp only: step) simp
    moreover have "updateMany (\<lambda>t. t \<in> set (take (TICKET_BATCH * Suc n) ?F)) ?g (tickets w) = tickets w"
      using empty by (intro updateMany_noop) simp
    ultimately show ?thesis using empty by (simp add: TICKET_BATCH_def)
  next
    case short
    then have "settleBatches (Suc n) tiers e w = (True, ?w)" by (simp only: step) (simp add: TICKET_BATCH_def)
    with short show ?thesis by simp
  next
    case last
    then have "settleBatches (Suc n) tiers e w = (False, ?w)"
      unfolding step using last by (auto simp: TICKET_BATCH_def)
    with last show ?thesis by simp
  next
    case more
    have s: "settleBatches (Suc n) tiers e w = settleBatches n tiers e ?w"
      unfolding step using more by (auto simp: TICKET_BATCH_def)
    have P': "gradable ?w (megapotId e) = ?P"
      by (rule ext) (simp add: gradable_def orderWhere_def orderOf_def)
    have F': "filter ?P (tickets ?w) = drop TICKET_BATCH ?F"
      using filter_after_page [OF dt, of ?P ?g] notP by simp
    have d': "distinct (map ticketId (tickets ?w))"
      using Suc.prems(1) by (simp add: map_updateMany_key)
    have "settleBatches n tiers e ?w =
       (length (drop TICKET_BATCH ?F) < TICKET_BATCH * n,
        ?w\<lparr>tickets := updateMany (\<lambda>t. t \<in> set (take (TICKET_BATCH * n) (drop TICKET_BATCH ?F)))
          ?g (tickets ?w)\<rparr>)"
      using Suc.IH [OF d' more(2)] unfolding P' F' .
    moreover have "updateMany (\<lambda>t. t \<in> set (take (TICKET_BATCH * n) (drop TICKET_BATCH ?F))) ?g (tickets ?w)
        = updateMany (\<lambda>t. t \<in> set (take (TICKET_BATCH * Suc n) ?F)) ?g (tickets w)"
      using pages_compose [OF dt, of ?P ?g] notP by (simp add: add.commute)
    moreover have "length (drop TICKET_BATCH ?F) < TICKET_BATCH * n
        \<longleftrightarrow> length ?F < TICKET_BATCH * Suc n"
      using more(1) by auto
    ultimately show ?thesis unfolding s by simp
  qed
qed simp

section \<open>What settling an epoch does\<close>

definition settled :: "int \<Rightarrow> (int \<rightharpoonup> int) \<Rightarrow> megapotEpoch \<Rightarrow> world \<Rightarrow> world" where
  "settled now tiers e w =
     w\<lparr>tickets := updateMany (\<lambda>t. winStatus t = DRAW_PENDING
                      \<and> orderWhere w (\<lambda>r. fulfillEpoch r = Some (megapotId e) \<and> orderStatus r = SUCCESS) t)
                    (gradeTicket tiers e) (tickets w),
       epochs := updateMany (\<lambda>x. megapotId x = megapotId e)
                   (\<lambda>x. x\<lparr>ticketsSettledAt := Some now\<rparr>) (epochs w),
       published := published w @ [EpochGraded (megapotId e)]\<rparr>"

lemma gradable_row: "gradable w i = (\<lambda>t. winStatus t = DRAW_PENDING
    \<and> orderWhere w (\<lambda>r. fulfillEpoch r = Some i \<and> orderStatus r = SUCCESS) t)"
  by (rule ext) (simp add: gradable_def)

text \<open>
  C1: settling an epoch with a readable tier table and fewer than a million pending tickets
  succeeds, grades in one pass exactly the pending tickets of the SUCCESS orders fulfilled in it,
  each by its own tier, sets the watermark and announces it. The paging, the grouping and the
  guarded statements of the worker make no difference to the outcome.
\<close>
theorem settleEpoch_grades:
  assumes "distinct (map ticketId (tickets w))"
    and "parsePrizeTiers (prizeTiers e) = Inr tiers"
    and "countMany (gradable w (megapotId e)) (tickets w) < 1000000"
  shows "settleEpoch now e w = (True, settled now tiers e w)"
proof -
  let ?F = "filter (gradable w (megapotId e)) (tickets w)"
  have len: "length ?F < TICKET_BATCH * MAX_BATCHES_PER_EPOCH"
    using assms(3) by (simp add: countMany_def TICKET_BATCH_def MAX_BATCHES_PER_EPOCH_def)
  then have all: "take (TICKET_BATCH * MAX_BATCHES_PER_EPOCH) ?F = ?F" by simp
  have upd: "updateMany (\<lambda>t. t \<in> set ?F) (gradeTicket tiers e) (tickets w)
      = updateMany (gradable w (megapotId e)) (gradeTicket tiers e) (tickets w)"
    by (rule updateMany_cong) auto
  have "settleBatches MAX_BATCHES_PER_EPOCH tiers e w =
      (True, w\<lparr>tickets := updateMany (gradable w (megapotId e)) (gradeTicket tiers e) (tickets w)\<rparr>)"
    using settleBatches_spec [OF assms(1), of MAX_BATCHES_PER_EPOCH tiers e] len all upd
    by (simp add: MAX_BATCHES_PER_EPOCH_def)
  then show ?thesis
    by (simp add: settleEpoch_def assms(2) settled_def gradable_row updEpochs_def)
qed

section \<open>Settlement keeps the ticket contract\<close>

lemma markLost_step: "winStatus t = DRAW_PENDING \<Longrightarrow> ticketStep t (markLost t)"
  by (simp add: ticketStep_def markLost_def winStatus_order)

lemma markWon_step: "winStatus t = DRAW_PENDING \<Longrightarrow> ticketStep t (markWon k t)"
  by (simp add: ticketStep_def markWon_def winStatus_order)

lemma fold_grow:
  "(\<And>x ts. ticketsGrow ts (f x ts)) \<Longrightarrow> ticketsGrow ts (fold f xs ts)"
proof (induction xs arbitrary: ts)
  case (Cons x xs)
  then show ?case by (auto intro: ticketsGrow_trans)
qed simp

lemma gradeTx_grow: "ticketsGrow ts (gradeTx ls gs ts)"
proof -
  have a: "ticketsGrow ts (if ls = [] then ts else updateMany (pendingIn ls) markLost ts)"
    using ticketsGrow_updateMany [of "pendingIn ls" markLost] by (simp add: pendingIn_def markLost_step)
  have b: "ticketsGrow us (fold (\<lambda>(k, ids). updateMany (pendingIn ids) (markWon k)) gs us)" for us
    by (rule fold_grow, unfold case_prod_unfold, rule ticketsGrow_updateMany)
      (simp add: pendingIn_def markWon_step)
  show ?thesis unfolding gradeTx_def by (rule ticketsGrow_trans [OF a b])
qed

lemma settleBatches_grow: "ticketsGrow (tickets w) (tickets (snd (settleBatches n tiers e w)))"
proof (induction n tiers e w rule: settleBatches.induct)
  case (2 n tiers e w)
  let ?page = "take TICKET_BATCH (filter (gradable w (megapotId e)) (tickets w))"
  obtain ls gs where g: "groupTickets tiers e ?page [] [] = (ls, gs)" by fastforce
  have one: "ticketsGrow (tickets w) (gradeTx ls gs (tickets w))" by (rule gradeTx_grow)
  show ?case
    using 2 g one by (auto simp: Let_def intro: ticketsGrow_trans)
qed simp

lemma settleEpoch_grow: "ticketsGrow (tickets w) (tickets (snd (settleEpoch now e w)))"
  using settleBatches_grow [of w MAX_BATCHES_PER_EPOCH _ e]
  by (auto simp: settleEpoch_def split: sum.split prod.split bool.split) (metis snd_conv)+

lemma upsert_tickets [simp]:
  "tickets (snd (upsertSettledEpoch d w)) = tickets w"
  "orders (snd (upsertSettledEpoch d w)) = orders w"
  by (auto simp: upsertSettledEpoch_def split: sum.split option.split)

lemma ensure_tickets [simp]:
  "tickets (snd (ensureSettledEpochSynced f i w)) = tickets w"
  "orders (snd (ensureSettledEpochSynced f i w)) = orders w"
  by (auto simp: ensureSettledEpochSynced_def Let_def split: sum.split)

lemma heal_tickets [simp]:
  "tickets (healMissingEpochs f w) = tickets w"
  "orders (healMissingEpochs f w) = orders w"
proof -
  have "tickets (fold (healEpoch f) is w) = tickets w \<and> orders (fold (healEpoch f) is w) = orders w"
    for "is"
    by (induction "is" arbitrary: w) (auto simp: healEpoch_def)
  then show "tickets (healMissingEpochs f w) = tickets w" "orders (healMissingEpochs f w) = orders w"
    by (simp_all add: healMissingEpochs_def)
qed

definition settlementOp ::
  "(int \<Rightarrow> (string, megapotRound) result) \<times> int \<Rightarrow> world \<Rightarrow> world" where
  "settlementOp i = runSettlementTick (fst i) (snd i)"

interpretation settlement: ticket_op settlementOp
proof
  fix w and i :: "(int \<Rightarrow> (string, megapotRound) result) \<times> int"
  have "ticketsGrow (tickets w) (tickets (fold (\<lambda>e w. snd (settleEpoch n e w)) es w))" for n es w
    by (induction es arbitrary: w) (auto intro: ticketsGrow_trans settleEpoch_grow)
  from this [of "healMissingEpochs (fst i) w"]
  show "ticketsGrow (tickets w) (tickets (settlementOp i w))"
    by (simp add: settlementOp_def runSettlementTick_def Let_def)
qed

section \<open>The stored tier table reads back as the net table of the API\<close>

fun netTable :: "prizeTier list \<Rightarrow> (int \<rightharpoonup> int) \<Rightarrow> (int \<rightharpoonup> int)" where
  "netTable [] m = m"
| "netTable (t # ts) m =
     (if tier_id t = 0 then netTable ts m
      else case toBigInt (tierPayout t) of Inl _ \<Rightarrow> netTable ts m
        | Inr raw \<Rightarrow> netTable ts (m(tier_id t \<mapsto> applyReferralShare raw)))"

definition payoutsNonneg :: "prizeTier list \<Rightarrow> bool" where
  "payoutsNonneg ts = list_all (\<lambda>t. case toBigInt (tierPayout t) of Inl _ \<Rightarrow> True | Inr n \<Rightarrow> 0 \<le> n) ts"

lemma parse_tierJson:
  "0 \<le> n \<Longrightarrow> parseTierEntries (tierJson \<lparr> ftTierId = i, ftAmount = bigIntToString n, ftTicketCount = c \<rparr> # es) m
   = parseTierEntries es (m(i \<mapsto> n))"
  by (simp add: tierJson_def isInteger_def)

lemma processTiers_parse:
  "processTiers ts paid jp acc = Inr (paid', jp', fts) \<Longrightarrow> payoutsNonneg ts \<Longrightarrow>
   \<exists>new. fts = acc @ new \<and> (\<forall>m. parseTierEntries (map tierJson new) m = Inr (netTable ts m))"
proof (induction ts arbitrary: paid jp acc)
  case (Cons t ts)
  then have nn: "payoutsNonneg ts" by (simp add: payoutsNonneg_def)
  show ?case
  proof (cases "tier_id t = 0")
    case True
    with Cons.prems(1) Cons.IH [OF _ nn] show ?thesis by simp
  next
    case False
    with Cons.prems obtain raw where r: "toBigInt (tierPayout t) = Inr raw"
      by (auto split: sum.splits)
    with Cons.prems have "0 \<le> raw" by (simp add: payoutsNonneg_def)
    then have net: "0 \<le> applyReferralShare raw" using applyReferralShare_bounds by blast
    let ?f = "\<lparr> ftTierId = tier_id t, ftAmount = bigIntToString (applyReferralShare raw),
                ftTicketCount = tier_ticket_count t \<rparr>"
    from Cons.prems(1) r False obtain p2 j2 where
      "processTiers ts p2 j2 (acc @ [?f]) = Inr (paid', jp', fts)"
      by (simp add: Let_def)
    from Cons.IH [OF this nn] obtain new where
      n: "fts = acc @ ?f # new"
         "\<forall>m. parseTierEntries (map tierJson new) m = Inr (netTable ts m)" by auto
    have "\<forall>m. parseTierEntries (map tierJson (?f # new)) m = Inr (netTable (t # ts) m)"
      using n(2) net False r by (simp only: list.map parse_tierJson) simp
    with n(1) show ?thesis by blast
  qed
qed simp

text \<open>
  C2: the JSON column written by \<open>processPrizeTiers\<close> is read back by the grader as the table of
  the API's payouts, each net of the referral share exactly once, tier 0 left out.
\<close>
theorem prizeTiers_roundtrip:
  assumes "processPrizeTiers (Some ts) = Inr (paid, jp, fts)" and "payoutsNonneg ts" and "fts \<noteq> []"
  shows "parsePrizeTiers (tiersJson fts) = Inr (netTable ts Map.empty)"
proof -
  have "processTiers ts 0 0 [] = Inr (paid, jp, fts)"
    using assms(1) by (simp add: processPrizeTiers_def)
  from processTiers_parse [OF this assms(2)] assms(3)
  show ?thesis by (auto simp: parsePrizeTiers_def tiersJson_def)
qed

definition sampleTier :: "int \<Rightarrow> string \<Rightarrow> prizeTier" where
  "sampleTier i a = \<lparr> tier_id = i, tierPayout = \<lparr> tokAmount = Some a, tokDecimals = Some 6 \<rparr>,
                       tier_ticket_count = 2 \<rparr>"

lemma sample_amount: "toBigInt \<lparr> tokAmount = Some ''1111112'', tokDecimals = Some 6 \<rparr> = Inr 1111112"
  by (simp add: toBigInt_def bigIntOf_def trimWhite_def isWhite_def allDigits_def isDigit_def
      digitVal_def Let_def)

lemma sample_tiers:
  "processPrizeTiers (Some [sampleTier 0 ''0'', sampleTier 1 ''1111112''])
     = Inr (2222224, 0, [\<lparr> ftTierId = 1, ftAmount = bigIntToString 1000001, ftTicketCount = 2 \<rparr>])"
  "payoutsNonneg [sampleTier 0 ''0'', sampleTier 1 ''1111112'']"
  "netTable [sampleTier 0 ''0'', sampleTier 1 ''1111112''] Map.empty = [1 \<mapsto> 1000001]"
  by (simp_all add: processPrizeTiers_def sampleTier_def sample_amount Let_def
      applyReferralShare_nonneg payoutsNonneg_def toBigInt_def [of "\<lparr> tokAmount = Some ''0'', tokDecimals = Some 6 \<rparr>"]
      bigIntOf_def trimWhite_def isWhite_def allDigits_def isDigit_def digitVal_def)

theorem prizeTiers_roundtrip_witness:
  "parsePrizeTiers (tiersJson [\<lparr> ftTierId = 1, ftAmount = bigIntToString 1000001, ftTicketCount = 2 \<rparr>])
   = Inr [1 \<mapsto> 1000001]"
  using prizeTiers_roundtrip [OF sample_tiers(1,2)]
  by (simp del: netTable.simps add: sample_tiers(3))

section \<open>A concrete epoch\<close>

definition sampleEpoch :: megapotEpoch where
  "sampleEpoch = (blankEpoch 7)\<lparr>winningNormals := [1, 2, 3, 4, 5], winningBonusBall := 9,
     prizeTiers := tiersJson [\<lparr> ftTierId = 1, ftAmount = ''55'', ftTicketCount = 2 \<rparr>,
                              \<lparr> ftTierId = 2, ftAmount = ''0'', ftTicketCount = 2 \<rparr>]\<rparr>"

definition sampleOrder :: relayOrder where
  "sampleOrder = \<lparr> orderHash = ''h'', orderSignature = ''s'', buyer = ''b'', purchaseEpoch = 7,
     fulfillEpoch = Some 7, amountUsdc = 2, orderTicketCount = 2, lastBought = 0,
     orderStatus = SUCCESS, attemptCount = 1, lastError = None, nextRetryAt = None,
     orderTxHash = None, megapotTicketIds = [], orderCreatedAt = 0, updatedAt = 0 \<rparr>"

definition sampleWorld :: world where
  "sampleWorld = emptyWorld\<lparr>orders := [sampleOrder], epochs := [sampleEpoch],
     tickets := [newTicket ''t1'' ''h'' 9 [6, 7, 8, 10, 11], newTicket ''t2'' ''h'' 8 [1, 7, 8, 10, 11]]\<rparr>"

lemma sampleEpoch_tiers: "parsePrizeTiers (prizeTiers sampleEpoch) = Inr [1 \<mapsto> 55, 2 \<mapsto> 0]"
  by (simp add: sampleEpoch_def parsePrizeTiers_def tiersJson_def tierJson_def isInteger_def
      allDigits_def isDigit_def bigIntOf_def trimWhite_def isWhite_def digitVal_def Let_def)

theorem settleEpoch_grades_witness:
  "settleEpoch 50 sampleEpoch sampleWorld = (True, settled 50 [1 \<mapsto> 55, 2 \<mapsto> 0] sampleEpoch sampleWorld)
   \<and> map winStatus (tickets (settled 50 [1 \<mapsto> 55, 2 \<mapsto> 0] sampleEpoch sampleWorld)) = [WON_FREE_TICKET, LOST]"
proof
  show "settleEpoch 50 sampleEpoch sampleWorld = (True, settled 50 [1 \<mapsto> 55, 2 \<mapsto> 0] sampleEpoch sampleWorld)"
    by (rule settleEpoch_grades [OF _ sampleEpoch_tiers])
      (simp_all add: sampleWorld_def newTicket_def)
  show "map winStatus (tickets (settled 50 [1 \<mapsto> 55, 2 \<mapsto> 0] sampleEpoch sampleWorld)) = [WON_FREE_TICKET, LOST]"
    by (simp add: settled_def sampleWorld_def sampleEpoch_def sampleOrder_def newTicket_def gradable_def
        orderWhere_def orderOf_def gradeTicket_def gradeKey_def calcTierId_def FREE_TICKET_TIERS_def
        emptyWorld_def blankEpoch_def markWon_def markLost_def Let_def)
qed

text \<open>
  An epoch whose tier table is malformed is never graded: nothing changes, and the watermark
  stays unset so that the next tick tries again.
\<close>
theorem settleEpoch_refuses:
  assumes "parsePrizeTiers (prizeTiers e) = Inl err"
  shows "settleEpoch now e w = (False, w)"
  using assms by (simp add: settleEpoch_def)

theorem settleEpoch_refuses_witness: "settleEpoch 50 (blankEpoch 3) sampleWorld = (False, sampleWorld)"
  by (rule settleEpoch_refuses [where err = "''prizeTiers is not a non-empty array''"])
    (simp add: blankEpoch_def parsePrizeTiers_def)

section \<open>What a tick leaves alone\<close>

lemma settleEpoch_orders [simp]: "orders (snd (settleEpoch now e w)) = orders w"
proof -
  have "orders (snd (settleBatches n tiers e w)) = orders w" for n tiers
    by (induction n tiers e w rule: settleBatches.induct) (auto simp: Let_def split: prod.split)
  then show ?thesis
    by (auto simp: settleEpoch_def split: sum.split prod.split bool.split) (metis snd_conv)+
qed

text \<open>What settling an epoch may write: pending tickets of that epoch only.\<close>

lemma settleEpoch_writes:
  assumes "distinct (map ticketId (tickets w))"
  shows "\<exists>sel tiers. tickets (snd (settleEpoch now e w)) = updateMany sel (gradeTicket tiers e) (tickets w)
     \<and> (\<forall>t. sel t \<longrightarrow> gradable w (megapotId e) t)"
proof (cases "parsePrizeTiers (prizeTiers e)")
  case (Inl err)
  then show ?thesis
    by (intro exI [of _ "\<lambda>_. False"] exI [of _ Map.empty]) (simp add: settleEpoch_def updateMany_noop)
next
  case (Inr tiers)
  let ?sel = "\<lambda>t. t \<in> set (take (TICKET_BATCH * MAX_BATCHES_PER_EPOCH)
                      (filter (gradable w (megapotId e)) (tickets w)))"
  have "tickets (snd (settleEpoch now e w)) = updateMany ?sel (gradeTicket tiers e) (tickets w)"
    using settleBatches_spec [OF assms, of MAX_BATCHES_PER_EPOCH tiers e]
    by (simp add: settleEpoch_def Inr MAX_BATCHES_PER_EPOCH_def split: bool.split)
  moreover have "\<forall>t. ?sel t \<longrightarrow> gradable w (megapotId e) t" by (auto dest: in_set_takeD)
  ultimately show ?thesis by blast
qed

lemma settle_fold_keeps:
  assumes "distinct (map ticketId (tickets w))" and "t \<in> set (tickets w)"
    and "\<And>e. e \<in> set es \<Longrightarrow> \<not> gradable w (megapotId e) t"
  shows "t \<in> set (tickets (fold (\<lambda>e w. snd (settleEpoch now e w)) es w))"
  using assms
proof (induction es arbitrary: w)
  case (Cons e es)
  let ?w = "snd (settleEpoch now e w)"
  obtain sel tiers where u: "tickets ?w = updateMany sel (gradeTicket tiers e) (tickets w)"
    "\<forall>t. sel t \<longrightarrow> gradable w (megapotId e) t"
    using settleEpoch_writes [OF Cons.prems(1)] by blast
  have "distinct (map ticketId (tickets ?w))"
    using Cons.prems(1) by (simp add: u(1) map_updateMany_key)
  moreover have "t \<in> set (tickets ?w)"
    using Cons.prems(2,3) u by (force simp: set_updateMany)
  moreover have "\<not> gradable ?w (megapotId x) t" if "x \<in> set es" for x
    using Cons.prems(3) [of x] that by (simp add: gradable_def orderWhere_def orderOf_def)
  ultimately show ?case using Cons.IH by simp
qed simp

lemma epochPayload_keeps:
  "epochPayload d = Inr f \<Longrightarrow>
   megapotId (f e) = megapotId e \<and> ticketsSettledAt (f e) = ticketsSettledAt e"
  by (auto simp: epochPayload_def split: option.splits sum.splits prod.splits)

definition watermarked :: "int \<Rightarrow> world \<Rightarrow> bool" where
  "watermarked i w \<longleftrightarrow> i \<in> megapotId ` set (epochs w)
     \<and> (\<forall>e \<in> set (epochs w). megapotId e = i \<longrightarrow> ticketsSettledAt e \<noteq> None)"

lemma watermarked_upsert:
  assumes "watermarked i w"
  shows "watermarked i (snd (upsertSettledEpoch d w))"
proof -
  have upd: "watermarked i (updEpochs (\<lambda>e. megapotId e = k) f w)" if "epochPayload d = Inr f" for f k
  proof -
    have ids: "map megapotId (epochs (updEpochs (\<lambda>e. megapotId e = k) f w)) = map megapotId (epochs w)"
      using epochPayload_keeps [OF that] by (simp add: map_updateMany_key)
    then have "i \<in> megapotId ` set (epochs (updEpochs (\<lambda>e. megapotId e = k) f w))"
      using assms by (metis set_map watermarked_def)
    moreover have "ticketsSettledAt e \<noteq> None"
      if "e \<in> set (epochs (updEpochs (\<lambda>e. megapotId e = k) f w))" "megapotId e = i" for e
      using that assms epochPayload_keeps [OF \<open>epochPayload d = Inr f\<close>]
      by (auto simp: watermarked_def set_updateMany split: if_splits)
    ultimately show ?thesis unfolding watermarked_def by blast
  qed
  have new: "watermarked i (w\<lparr>epochs := epochs w @ [f (blankEpoch k)]\<rparr>)"
    if "epochPayload d = Inr f" "\<not> (\<exists>e \<in> set (epochs w). megapotId e = k)" for f k
    using assms epochPayload_keeps [OF that(1), of "blankEpoch k"] that(2)
    by (auto simp: watermarked_def blankEpoch_def)
  show ?thesis
    using assms upd new by (auto simp: upsertSettledEpoch_def split: sum.split option.split)
qed

lemma watermarked_heal: "watermarked i w \<Longrightarrow> watermarked i (healMissingEpochs f w)"
proof -
  have one: "watermarked i (healEpoch f k w)" if "watermarked i w" for k w
    using that watermarked_upsert [OF that]
    by (auto simp: healEpoch_def ensureSettledEpochSynced_def Let_def split: sum.split)
  have "watermarked i (fold (healEpoch f) is w)" if "watermarked i w" for "is"
    using that by (induction "is" arbitrary: w) (auto simp: one)
  then show "watermarked i w \<Longrightarrow> watermarked i (healMissingEpochs f w)"
    by (simp add: healMissingEpochs_def)
qed

text \<open>
  C4: once the watermark of an epoch is set, no later tick writes a ticket of that epoch. A ticket
  whose order only reaches SUCCESS after the watermark therefore stays \<open>DRAW_PENDING\<close>.
\<close>
theorem tick_never_revisits_settled_epoch:
  assumes "distinct (map ticketId (tickets w))" and "t \<in> set (tickets w)"
    and "orderWhere w (\<lambda>r. fulfillEpoch r = Some i) t" and "watermarked i w"
  shows "t \<in> set (tickets (runSettlementTick fetch now w))"
proof -
  let ?w = "healMissingEpochs fetch w"
  have "\<not> gradable ?w (megapotId e) t" if "e \<in> set (unsettledEpochs ?w)" for e
  proof -
    from that have "e \<in> set (epochs ?w)" "ticketsSettledAt e = None"
      by (auto simp: unsettledEpochs_def)
    then have "megapotId e \<noteq> i" using watermarked_heal [OF assms(4), of fetch]
      by (auto simp: watermarked_def)
    then show ?thesis using assms(3)
      by (auto simp: gradable_def orderWhere_def orderOf_def split: option.splits)
  qed
  then show ?thesis
    using settle_fold_keeps [of ?w t "unsettledEpochs ?w" now] assms(1,2)
    by (simp add: runSettlementTick_def Let_def)
qed

theorem tick_never_revisits_settled_epoch_witness:
  "newTicket ''t1'' ''h'' 9 [6, 7, 8, 10, 11] \<in> set (tickets (runSettlementTick (\<lambda>_. Inl []) 60
     (sampleWorld\<lparr>epochs := [sampleEpoch\<lparr>ticketsSettledAt := Some 50\<rparr>]\<rparr>)))"
  by (rule tick_never_revisits_settled_epoch [where i = 7])
    (simp_all add: sampleWorld_def newTicket_def orderWhere_def orderOf_def sampleOrder_def
      watermarked_def sampleEpoch_def blankEpoch_def)

end
