(* ===== verification/Pages.thy ===== *)
theory Pages
  imports ProtocolApi Settlement
begin

text \<open>
  The logic of the result pages in the browser: \<open>pages/Tickets/Tickets.tsx\<close> (grouping a wallet's
  tickets by epoch, countdown targets, what a group shows, the purchase proofs),
  \<open>pages/Results/Results.tsx\<close> (tier labels), \<open>pages/Winnings/Winnings.tsx\<close> (the claim button),
  \<open>store/revealedEpochsStore.ts\<close> and the exact half of \<open>lib/format.ts\<close>. The pages read the answers of
  the protocol routes, so a ticket here is a \<open>ticketView\<close>; dates are milliseconds.
\<close>

section \<open>Formatting\<close>

definition pad2 :: "int \<Rightarrow> string" where
  "pad2 n = (let s = bigIntToString n in if length s < 2 then ''0'' @ s else s)"

definition formatCountdown :: "int \<Rightarrow> int option \<Rightarrow> string" where
  "formatCountdown now target =
     (case target of None \<Rightarrow> ''--:--:--''
      | Some t \<Rightarrow>
        (let diff = t - now in
         if diff \<le> 0 then ''DRAWING NOW''
         else pad2 (diff div 3600000) @ '':'' @ pad2 (diff mod 3600000 div 60000) @ '':''
              @ pad2 (diff mod 60000 div 1000)))"

text \<open>The character between the two halves is an ellipsis in the source.\<close>

definition shortenAddress :: "string \<Rightarrow> nat \<Rightarrow> string" where
  "shortenAddress a n = (if length a \<le> n * 2 + 3 then a else take n a @ ''...'' @ (if n = 0 then a else drop (length a - n) a))"

section \<open>Tickets by epoch\<close>

record ticketGroup =
  tgEpoch :: int
  tgTickets :: "ticketView list"
  tgSettledAt :: "int option"
  tgAnchor :: "int option"
  tgWinningNormals :: "int list option"
  tgWinningBonus :: "int option"

definition ticketEpoch :: "ticketView \<Rightarrow> int" where
  "ticketEpoch t = (case tvFulfillEpoch t of None \<Rightarrow> tvPurchaseEpoch t | Some e \<Rightarrow> e)"

fun pushEpoch :: "ticketView \<Rightarrow> (int \<times> ticketView list) list \<Rightarrow> (int \<times> ticketView list) list" where
  "pushEpoch t [] = [(ticketEpoch t, [t])]"
| "pushEpoch t ((e, ts) # m) = (if e = ticketEpoch t then (e, ts @ [t]) # m else (e, ts) # pushEpoch t m)"

definition mkGroup :: "int \<times> ticketView list \<Rightarrow> ticketGroup" where
  "mkGroup p = \<lparr> tgEpoch = fst p, tgTickets = snd p, tgSettledAt = tvSettledAt (hd (snd p)),
     tgAnchor = tvEndedAt (hd (snd p)), tgWinningNormals = tvWinningNormals (hd (snd p)),
     tgWinningBonus = tvWinningBonus (hd (snd p)) \<rparr>"

definition byEpoch :: "ticketView list \<Rightarrow> (int \<times> ticketView list) list" where
  "byEpoch ts = fold pushEpoch ts []"

definition ticketGroups :: "ticketView list \<Rightarrow> ticketGroup list" where
  "ticketGroups ts = jsSort (\<lambda>a b. tgEpoch b - tgEpoch a) (map mkGroup (byEpoch ts))"

definition upcomingGroups :: "ticketView list \<Rightarrow> ticketGroup list" where
  "upcomingGroups ts = filter (\<lambda>g. tgSettledAt g = None) (ticketGroups ts)"

definition previousGroups :: "ticketView list \<Rightarrow> ticketGroup list" where
  "previousGroups ts = filter (\<lambda>g. tgSettledAt g \<noteq> None) (ticketGroups ts)"

datatype rowVariant = VWin | VFree | VPending | VLoss | VNeutral

definition statusFor :: "ticketView \<Rightarrow> rowVariant" where
  "statusFor t = (case tvStatus t of DRAW_PENDING \<Rightarrow> VPending | LOST \<Rightarrow> VLoss | WON_FREE_TICKET \<Rightarrow> VFree
     | WON_UNCLAIMED \<Rightarrow> VWin | CLAIMED_ON_BASE \<Rightarrow> VWin | PAID_OUT_ON_SOLANA \<Rightarrow> VNeutral)"

definition groupWinAmount :: "ticketView list \<Rightarrow> int" where
  "groupWinAmount ts = sumMany (\<lambda>t. case bigIntOf (tvAmount t) of Some n \<Rightarrow> n | None \<Rightarrow> 0) (filter (\<lambda>t. \<not> tvFree t) ts)"

definition isGroupProcessing :: "ticketView list \<Rightarrow> bool" where
  "isGroupProcessing ts = list_ex (\<lambda>t. tvOrderStatus t \<noteq> SUCCESS) ts"

definition resolveCountdownTarget :: "int \<Rightarrow> int option \<Rightarrow> int option \<Rightarrow> int option \<Rightarrow> int option" where
  "resolveCountdownTarget e current nextDraw anchor =
     (case current of Some c \<Rightarrow> (if e \<ge> c then nextDraw else anchor) | None \<Rightarrow> anchor)"

definition countdownExpired :: "int \<Rightarrow> int option \<Rightarrow> bool" where
  "countdownExpired now target = (case target of None \<Rightarrow> False | Some t \<Rightarrow> t \<le> now)"

text \<open>The extra refetch at the soonest target of an upcoming group.\<close>

datatype refetchPlan = NoRefetch | RefetchNow | RefetchAfter int

definition planRefetch :: "int \<Rightarrow> int option \<Rightarrow> int option \<Rightarrow> ticketView list \<Rightarrow> refetchPlan" where
  "planRefetch now current nextDraw ts =
     (case sort (List.map_filter (\<lambda>g. resolveCountdownTarget (tgEpoch g) current nextDraw (tgAnchor g)) (upcomingGroups ts)) of
        [] \<Rightarrow> NoRefetch
      | soonest # _ \<Rightarrow> (if soonest - now \<le> 0 then RefetchNow else RefetchAfter (soonest - now + 1500)))"

section \<open>What a group shows\<close>

definition isGrading :: "ticketView list \<Rightarrow> bool" where
  "isGrading ts = list_ex (\<lambda>t. tvStatus t = DRAW_PENDING) ts"

definition hasWon :: "ticketView list \<Rightarrow> bool" where
  "hasWon ts = (list_ex tvFree ts \<or> groupWinAmount ts > 0)"

text \<open>\<open>revealed\<close> holds the keys \<open>wallet:epoch\<close> the user has opened.\<close>

definition keyFor :: "string \<Rightarrow> int \<Rightarrow> string" where
  "keyFor wallet e = wallet @ '':'' @ bigIntToString e"

definition reveal :: "string \<Rightarrow> int \<Rightarrow> string list \<Rightarrow> string list" where
  "reveal wallet e revealed = (if keyFor wallet e \<in> set revealed then revealed else revealed @ [keyFor wallet e])"

definition isRevealed :: "string \<Rightarrow> int \<Rightarrow> string list \<Rightarrow> bool" where
  "isRevealed wallet e revealed = (keyFor wallet e \<in> set revealed)"

datatype upcomingView = ShowProcessing | ShowReveal | ShowCountdown "int option"

definition upcomingView :: "int \<Rightarrow> int option \<Rightarrow> int option \<Rightarrow> ticketGroup \<Rightarrow> upcomingView" where
  "upcomingView now current nextDraw g =
     (let target = resolveCountdownTarget (tgEpoch g) current nextDraw (tgAnchor g) in
      if isGroupProcessing (tgTickets g) then ShowProcessing
      else if countdownExpired now target then ShowReveal else ShowCountdown target)"

definition showWinBadges :: "string list \<Rightarrow> string \<Rightarrow> ticketGroup \<Rightarrow> bool" where
  "showWinBadges revealed wallet g =
     (isRevealed wallet (tgEpoch g) revealed \<and> \<not> isGrading (tgTickets g) \<and> hasWon (tgTickets g))"

datatype groupBody = UpcomingBody | GradingBody | NotRevealedBody | WonBody | LostBody

definition groupDetail :: "string list \<Rightarrow> string \<Rightarrow> ticketGroup \<Rightarrow> groupBody" where
  "groupDetail revealed wallet g =
     (if tgSettledAt g = None then UpcomingBody
      else if isGrading (tgTickets g) then GradingBody
      else if \<not> isRevealed wallet (tgEpoch g) revealed then NotRevealedBody
      else if hasWon (tgTickets g) then WonBody else LostBody)"

section \<open>Proofs of a purchase\<close>

record orderProof =
  opHash :: string
  opCount :: nat
  opPurchasedAt :: int
  opSignature :: string
  opBatches :: "(string option \<times> nat) list"

text \<open>The batch key of a ticket without a transaction is the text \<open>pending\<close>.\<close>

definition batchKey :: "string option \<Rightarrow> string" where
  "batchKey h = (case h of None \<Rightarrow> ''pending'' | Some x \<Rightarrow> x)"

fun addBatch :: "string option \<Rightarrow> (string option \<times> nat) list \<Rightarrow> (string option \<times> nat) list" where
  "addBatch h [] = [(h, 1)]"
| "addBatch h ((h', n) # bs) = (if batchKey h' = batchKey h then (h', Suc n) # bs else (h', n) # addBatch h bs)"

fun addProof :: "ticketView \<Rightarrow> orderProof list \<Rightarrow> orderProof list" where
  "addProof t [] = [\<lparr> opHash = tvOrderHash t, opCount = 1, opPurchasedAt = tvPurchasedAt t,
     opSignature = tvSignature t, opBatches = [(tvBaseTx t, 1)] \<rparr>]"
| "addProof t (p # ps) =
     (if opHash p = tvOrderHash t
      then p\<lparr>opCount := Suc (opCount p), opBatches := addBatch (tvBaseTx t) (opBatches p)\<rparr> # ps
      else p # addProof t ps)"

definition noTx :: "string option \<Rightarrow> bool" where "noTx h = (h = None \<or> h = Some [])"

definition pendingLast :: "string option \<times> nat \<Rightarrow> string option \<times> nat \<Rightarrow> int" where
  "pendingLast a b = (if noTx (fst a) then 1 else if noTx (fst b) then -1 else 0)"

definition txHistory :: "ticketView list \<Rightarrow> orderProof list" where
  "txHistory ts = jsSort (\<lambda>a b. opPurchasedAt b - opPurchasedAt a)
     (map (\<lambda>p. p\<lparr>opBatches := jsSort pendingLast (opBatches p)\<rparr>) (fold addProof ts []))"

section \<open>Tiers\<close>

definition FREE_TICKET_TIER_IDS :: "int list" where "FREE_TICKET_TIER_IDS = [1, 4]"

definition tierMatches :: "int \<Rightarrow> int \<times> bool" where
  "tierMatches i = (i div 2, i mod 2 \<noteq> 0)"

definition plural :: "int \<Rightarrow> string" where "plural n = (if n = 1 then '''' else ''s'')"

definition tierLabel :: "int \<Rightarrow> string" where
  "tierLabel i = bigIntToString (i div 2) @ '' normal ball'' @ plural (i div 2)
     @ (if i mod 2 \<noteq> 0 then '' + 1 bonus ball'' else '''')"

definition shownTiers :: "formattedTier list \<Rightarrow> formattedTier list" where
  "shownTiers ts = jsSort (\<lambda>a b. case (bigIntOf (ftAmount a), bigIntOf (ftAmount b)) of
       (Some x, Some y) \<Rightarrow> (if y > x then 1 else -1) | _ \<Rightarrow> 0)
     (filter (\<lambda>t. ftAmount t \<noteq> ''0'' \<or> ftTierId t \<in> set FREE_TICKET_TIER_IDS) ts)"

section \<open>The claim button\<close>

text \<open>A voucher answer has the transaction, or none when one is already live.\<close>

datatype claimView = ClaimIdle string | ClaimSuccess | ClaimError string

definition IN_FLIGHT :: string where
  "IN_FLIGHT = ''A claim is already in flight for this wallet - check your wallet for a pending signature, or wait about a minute and try again.''"

definition handleClaim ::
  "(string, string option) result \<Rightarrow> (string \<Rightarrow> (string, string) result) \<Rightarrow>
   (string \<Rightarrow> (string, string option) result) \<Rightarrow> claimView" where
  "handleClaim voucher submit confirm =
     (case voucher of Inl e \<Rightarrow> ClaimError e
      | Inr tx \<Rightarrow>
        (case tx of None \<Rightarrow> ClaimIdle IN_FLIGHT
         | Some b \<Rightarrow> if b = [] then ClaimIdle IN_FLIGHT
           else case submit b of Inl e \<Rightarrow> ClaimError e
             | Inr sig \<Rightarrow> (case confirm sig of Inl e \<Rightarrow> ClaimError e | Inr err \<Rightarrow> ClaimSuccess)))"

section \<open>The pages agree with the worker\<close>

text \<open>
  The results page reads a tier the way the settlement worker numbers it: from the id the worker
  computes for a ticket the page gets back how many of its numbers were drawn and whether the bonus
  ball was, and it shows a tier as a free ticket exactly when the worker grades it so.
\<close>
lemma tier_label_decodes:
  "tierMatches (calcTierId ns b winning wb) = (int (length (filter (\<lambda>n. n \<in> set winning) ns)), b = wb)
   \<and> (i \<in> set FREE_TICKET_TIER_IDS) = (i \<in> set FREE_TICKET_TIERS)"
  by (simp add: tierMatches_def calcTierId_def FREE_TICKET_TIER_IDS_def FREE_TICKET_TIERS_def)

text \<open>The proofs account for every ticket: the counts of the orders, and of an order's batches, add up.\<close>

lemma mset_addBatch_count: "sum_list (map snd (addBatch h bs)) = Suc (sum_list (map snd bs))"
  by (induction h bs rule: addBatch.induct) auto

lemma sum_mset_jsSort:
  fixes f :: "'a \<Rightarrow> nat"
  shows "sum_list (map f (jsSort c xs)) = sum_list (map f xs)"
  by (metis mset_jsSort mset_map sum_mset_sum_list)

lemma addProof_count: "sum_list (map opCount (addProof t ps)) = Suc (sum_list (map opCount ps))"
  by (induction t ps rule: addProof.induct) auto

lemma addProof_batches:
  "(\<forall>p \<in> set ps. opCount p = sum_list (map snd (opBatches p))) \<Longrightarrow>
   (\<forall>p \<in> set (addProof t ps). opCount p = sum_list (map snd (opBatches p)))"
  by (induction t ps rule: addProof.induct) (auto simp: mset_addBatch_count)

lemma proofs_count: "sum_list (map opCount (fold addProof ts ps)) = length ts + sum_list (map opCount ps)"
  by (induction ts arbitrary: ps) (simp_all add: addProof_count)

lemma proofs_batches:
  "\<forall>p \<in> set ps. opCount p = sum_list (map snd (opBatches p)) \<Longrightarrow>
   \<forall>p \<in> set (fold addProof ts ps). opCount p = sum_list (map snd (opBatches p))"
proof (induction ts arbitrary: ps)
  case (Cons t ts)
  have "\<forall>p \<in> set (addProof t ps). opCount p = sum_list (map snd (opBatches p))"
    by (rule addProof_batches [OF Cons.prems])
  then show ?case using Cons.IH by simp
qed simp

lemma txHistory_complete:
  "sum_list (map opCount (txHistory ts)) = length ts
   \<and> (\<forall>p \<in> set (txHistory ts). opCount p = sum_list (map snd (opBatches p)))"
proof
  let ?sorted = "\<lambda>p :: orderProof. p\<lparr>opBatches := jsSort pendingLast (opBatches p)\<rparr>"
  have "opCount \<circ> ?sorted = opCount" by (simp add: fun_eq_iff)
  then show "sum_list (map opCount (txHistory ts)) = length ts"
    using proofs_count [of ts "[]"] by (simp add: txHistory_def sum_mset_jsSort)
  have "\<forall>p \<in> set (fold addProof ts []). opCount p = sum_list (map snd (opBatches p))"
    by (rule proofs_batches) simp
  then show "\<forall>p \<in> set (txHistory ts). opCount p = sum_list (map snd (opBatches p))"
    by (simp add: txHistory_def sum_mset_jsSort)
qed

text \<open>
  A group stands as settled or upcoming by its first ticket alone: a later purchase of the same epoch
  that is still being relayed hides the results of the tickets that have been drawn.
\<close>

definition drawnTicket :: ticketView where
  "drawnTicket = \<lparr> tvId = ''a'', tvNormals = [1, 2, 3, 4, 5], tvBonus = 1, tvStatus = WON_UNCLAIMED, tvAmount = ''7'',
     tvFree = False, tvPurchaseEpoch = 7, tvFulfillEpoch = Some 7, tvOrderStatus = SUCCESS, tvPurchasedAt = 1,
     tvOrderHash = ''h'', tvSignature = ''s'', tvBaseTx = Some ''x'', tvEndedAt = Some 9, tvSettledAt = Some 8,
     tvWinningNormals = Some [1, 2, 3, 4, 5], tvWinningBonus = Some 2 \<rparr>"

definition stuckTicket :: ticketView where
  "stuckTicket = drawnTicket\<lparr>tvId := ''b'', tvStatus := DRAW_PENDING, tvAmount := ''0'', tvFulfillEpoch := None,
     tvOrderStatus := RETRY_PENDING, tvPurchasedAt := 2, tvOrderHash := ''g'', tvSignature := ''r'', tvBaseTx := None,
     tvEndedAt := None, tvSettledAt := None, tvWinningNormals := None, tvWinningBonus := None\<rparr>"

lemma stuck_order_hides_group:
  "map tgEpoch (previousGroups [drawnTicket]) = [7]
   \<and> previousGroups [stuckTicket, drawnTicket] = [] \<and> map tgEpoch (upcomingGroups [stuckTicket, drawnTicket]) = [7]"
  by code_simp

text \<open>A transaction that landed with an error is shown as a success: the confirmation's \<open>err\<close> is not read.\<close>

lemma claim_success_ignores_error: "handleClaim (Inr (Some ''tx'')) (\<lambda>b. Inr ''sig'') (\<lambda>s. Inr (Some ''failed'')) = ClaimSuccess"
  by (simp add: handleClaim_def)

end
