(* ===== verification/SolanaService.thy ===== *)
theory SolanaService
  imports Prelude
begin

text \<open>
  \<open>services/solanaService.ts\<close>: the admin transactions (pause, resume, claim voucher) and the chain
  sweep that discovers landed claims. The RPC node, the wallet and Anchor are fields of \<open>solEnv\<close>;
  transactions are lists of instructions. The decode cache is the state the sweep passes on.
\<close>

datatype solInstr = SetComputeUnitLimit int | SetComputeUnitPrice int | PauseProtocol
  | UpdateEpoch int int | ResumeProtocol int | ClaimWinnings string int

record solTx =
  txPayer :: string
  txBlockhash :: string
  txInstrs :: "solInstr list"

record feeAnswer =
  rpcError :: bool
  rpcFee :: "rat option"

record sigInfo =
  sigName :: string
  sigSlot :: int
  sigTime :: "int option"
  sigErr :: bool

record logEvent =
  evName :: string
  evUser :: string
  evAmount :: int

record solEnv =
  isMainnet :: bool
  adminKey :: string
  instrError :: "solInstr \<Rightarrow> string option"
  latestBlockhash :: "(string, string \<times> int) result"
  encodeTx :: "solTx \<Rightarrow> string"
  feeRpc :: "string \<Rightarrow> (string, feeAnswer) result"
  signTx :: "solTx \<Rightarrow> (string, solTx) result"
  sendRaw :: "solTx \<Rightarrow> (string, string) result"
  confirmTx :: "string \<Rightarrow> string \<Rightarrow> int \<Rightarrow> (string, unit) result"
  parseKey :: "string \<Rightarrow> (string, string) result"
  partialSign :: "solTx \<Rightarrow> (string, (string \<times> bool) list) result"
  sigPage :: "string option \<Rightarrow> nat \<Rightarrow> (string, sigInfo list) result"
  getTx :: "string \<Rightarrow> (string, string list option option) result"
  parseLogs :: "string list \<Rightarrow> logEvent list"

section \<open>Constants\<close>

definition FALLBACK_PRIORITY_FEE :: int where "FALLBACK_PRIORITY_FEE = 1000"

definition CU_LIMIT_PAUSE :: int where "CU_LIMIT_PAUSE = 25000"

definition CU_LIMIT_UNPAUSE_ONLY :: int where "CU_LIMIT_UNPAUSE_ONLY = 25000"

definition CU_LIMIT_UPDATE_UNPAUSE :: int where "CU_LIMIT_UPDATE_UNPAUSE = 40000"

definition CU_LIMIT_CLAIM :: int where "CU_LIMIT_CLAIM = 100000"

definition CLAIM_CACHE_MAX :: nat where "CLAIM_CACHE_MAX = 5000"

definition SWEEP_PAGE :: nat where "SWEEP_PAGE = 200"

definition MAX_PAGES :: nat where "MAX_PAGES = 25"

section \<open>The admin transactions\<close>

definition getPriorityFeeEstimate :: "solEnv \<Rightarrow> string \<Rightarrow> int" where
  "getPriorityFeeEstimate env serialized =
     (if \<not> isMainnet env then FALLBACK_PRIORITY_FEE
      else case feeRpc env serialized of
          Inl _ \<Rightarrow> FALLBACK_PRIORITY_FEE
        | Inr ans \<Rightarrow> (if rpcError ans then FALLBACK_PRIORITY_FEE
            else case rpcFee ans of None \<Rightarrow> FALLBACK_PRIORITY_FEE | Some f \<Rightarrow> \<lfloor>f\<rfloor>))"

definition priced :: "solEnv \<Rightarrow> string \<Rightarrow> string \<Rightarrow> int \<Rightarrow> solInstr list \<Rightarrow> solTx" where
  "priced env payer bh units core =
     \<lparr> txPayer = payer, txBlockhash = bh,
       txInstrs = [SetComputeUnitLimit units,
         SetComputeUnitPrice (getPriorityFeeEstimate env
           (encodeTx env \<lparr> txPayer = payer, txBlockhash = bh, txInstrs = core \<rparr>))] @ core \<rparr>"

fun buildInstrs :: "solEnv \<Rightarrow> solInstr list \<Rightarrow> string option" where
  "buildInstrs env [] = None"
| "buildInstrs env (i # is) = (case instrError env i of Some e \<Rightarrow> Some e | None \<Rightarrow> buildInstrs env is)"

definition signAndSend :: "solEnv \<Rightarrow> solTx \<Rightarrow> (string, string) result" where
  "signAndSend env tx = (case signTx env tx of Inl e \<Rightarrow> Inl e | Inr signed \<Rightarrow> sendRaw env signed)"

definition pauseProtocol :: "solEnv \<Rightarrow> (string, string) result" where
  "pauseProtocol env =
     (case buildInstrs env [PauseProtocol] of Some e \<Rightarrow> Inl e
      | None \<Rightarrow> (case latestBlockhash env of Inl e \<Rightarrow> Inl e
      | Inr (bh, lvbh) \<Rightarrow>
          (case signAndSend env (priced env (adminKey env) bh CU_LIMIT_PAUSE [PauseProtocol]) of
             Inl e \<Rightarrow> Inl e
           | Inr sig \<Rightarrow> (case confirmTx env sig bh lvbh of Inl e \<Rightarrow> Inl e | Inr _ \<Rightarrow> Inr sig))))"

definition resumeInstrs :: "int \<Rightarrow> int \<Rightarrow> bool \<Rightarrow> int \<Rightarrow> solInstr list" where
  "resumeInstrs normalsMax bonusMax needsUpdate next =
     (if needsUpdate then [UpdateEpoch normalsMax bonusMax] else []) @ [ResumeProtocol next]"

definition resumeAndTransitionEpoch ::
  "solEnv \<Rightarrow> int \<Rightarrow> int \<Rightarrow> bool \<Rightarrow> int \<Rightarrow> (string, string) result" where
  "resumeAndTransitionEpoch env normalsMax bonusMax needsUpdate next =
     (let core = resumeInstrs normalsMax bonusMax needsUpdate next
      in case buildInstrs env core of Some e \<Rightarrow> Inl e
       | None \<Rightarrow> (case latestBlockhash env of Inl e \<Rightarrow> Inl e
       | Inr (bh, _) \<Rightarrow> signAndSend env (priced env (adminKey env) bh
           (if needsUpdate then CU_LIMIT_UPDATE_UNPAUSE else CU_LIMIT_UNPAUSE_ONLY) core)))"

definition buildClaimVoucher :: "solEnv \<Rightarrow> string \<Rightarrow> int \<Rightarrow> (string, string \<times> int) result" where
  "buildClaimVoucher env userWallet amt =
     (case parseKey env userWallet of Inl e \<Rightarrow> Inl e
      | Inr user \<Rightarrow> (case buildInstrs env [ClaimWinnings user amt] of Some e \<Rightarrow> Inl e
      | None \<Rightarrow> (case latestBlockhash env of Inl e \<Rightarrow> Inl e
      | Inr (bh, lvbh) \<Rightarrow>
          (let tx = priced env user bh CU_LIMIT_CLAIM [ClaimWinnings user amt]
           in case partialSign env tx of Inl e \<Rightarrow> Inl e
            | Inr sigs \<Rightarrow>
               (if list_ex (\<lambda>(k, signed). k = adminKey env \<and> signed) sigs
                then Inr (encodeTx env tx, lvbh)
                else Inl ''Voucher signing failed'')))))"

section \<open>The sweep\<close>

record landedClaim =
  lcWallet :: string
  lcAmount :: int
  lcSignature :: string
  lcSlot :: int
  lcTime :: "int option"
  lcFailed :: bool

type_synonym claimCache = "(string \<times> (string \<times> int) list) list"

definition claimEvents :: "solEnv \<Rightarrow> string list option option \<Rightarrow> (string \<times> int) list" where
  "claimEvents env parsed =
     (case parsed of Some (Some logs) \<Rightarrow>
        map (\<lambda>e. (evUser e, evAmount e))
          (filter (\<lambda>e. evName e \<in> {''WinningsClaimedEvent'', ''winningsClaimedEvent''}) (parseLogs env logs))
      | _ \<Rightarrow> [])"

definition cachePut :: "string \<Rightarrow> (string \<times> int) list \<Rightarrow> claimCache \<Rightarrow> claimCache" where
  "cachePut sig evs cache =
     (if length cache \<ge> CLAIM_CACHE_MAX then tl cache else cache) @ [(sig, evs)]"

definition decodeCached ::
  "solEnv \<Rightarrow> string \<Rightarrow> claimCache \<Rightarrow> (string, (string \<times> int) list) result \<times> claimCache" where
  "decodeCached env sig cache =
     (case map_of cache sig of Some evs \<Rightarrow> (Inr evs, cache)
      | None \<Rightarrow> (case getTx env sig of Inl e \<Rightarrow> (Inl e, cache)
        | Inr parsed \<Rightarrow> (Inr (claimEvents env parsed),
            (case parsed of None \<Rightarrow> cache | Some _ \<Rightarrow> cachePut sig (claimEvents env parsed) cache))))"

definition landedOf :: "sigInfo \<Rightarrow> string \<times> int \<Rightarrow> landedClaim" where
  "landedOf s ev = \<lparr> lcWallet = fst ev, lcAmount = snd ev, lcSignature = sigName s,
     lcSlot = sigSlot s, lcTime = sigTime s, lcFailed = sigErr s \<rparr>"

definition tooOld :: "int \<Rightarrow> sigInfo \<Rightarrow> bool" where
  "tooOld notBefore s = (case sigTime s of None \<Rightarrow> False | Some t \<Rightarrow> t < notBefore)"

text \<open>One page: whether a transaction older than the bound was met, and the claims collected.\<close>

fun sweepPage ::
  "solEnv \<Rightarrow> int \<Rightarrow> sigInfo list \<Rightarrow> landedClaim list \<Rightarrow> claimCache \<Rightarrow>
   (string, bool \<times> landedClaim list) result \<times> claimCache" where
  "sweepPage env notBefore [] acc cache = (Inr (False, acc), cache)"
| "sweepPage env notBefore (s # ss) acc cache =
     (if tooOld notBefore s then (Inr (True, acc), cache)
      else case decodeCached env (sigName s) cache of
          (Inl e, c) \<Rightarrow> (Inl e, c)
        | (Inr evs, c) \<Rightarrow> sweepPage env notBefore ss (acc @ map (landedOf s) evs) c)"

fun sweepPages ::
  "nat \<Rightarrow> solEnv \<Rightarrow> int \<Rightarrow> string option \<Rightarrow> landedClaim list \<Rightarrow> claimCache \<Rightarrow>
   (string, landedClaim list \<times> bool) result \<times> claimCache" where
  "sweepPages 0 env notBefore before acc cache = (Inr (acc, False), cache)"
| "sweepPages (Suc n) env notBefore before acc cache =
     (case sigPage env before SWEEP_PAGE of Inl e \<Rightarrow> (Inl e, cache)
      | Inr sigs \<Rightarrow>
        (if sigs = [] then (Inr (acc, True), cache)
         else case sweepPage env notBefore sigs acc cache of
             (Inl e, c) \<Rightarrow> (Inl e, c)
           | (Inr (old, acc'), c) \<Rightarrow>
               (if old \<or> length sigs < SWEEP_PAGE then (Inr (acc', True), c)
                else sweepPages n env notBefore (Some (sigName (last sigs))) acc' c)))"

definition findLandedClaims ::
  "solEnv \<Rightarrow> int \<Rightarrow> claimCache \<Rightarrow> (string, landedClaim list \<times> bool) result \<times> claimCache" where
  "findLandedClaims env notBefore cache = sweepPages MAX_PAGES env notBefore None [] cache"

section \<open>What the sweep finds\<close>

definition afterSig :: "string option \<Rightarrow> sigInfo list \<Rightarrow> sigInfo list" where
  "afterSig before hist =
     (case before of None \<Rightarrow> hist | Some i \<Rightarrow> tl (dropWhile (\<lambda>s. sigName s \<noteq> i) hist))"

text \<open>
  The node's documented behaviour over one sweep: it lists a fixed history, newest first, a page at
  a time, and answers for every transaction in it, perhaps with null.
\<close>

definition servesHistory :: "solEnv \<Rightarrow> sigInfo list \<Rightarrow> bool" where
  "servesHistory env hist \<longleftrightarrow>
     distinct (map sigName hist)
     \<and> (\<forall>before limit. sigPage env before limit = Inr (take limit (afterSig before hist)))
     \<and> (\<forall>s \<in> set hist. \<exists>p. getTx env (sigName s) = Inr p)"

definition cacheSound :: "solEnv \<Rightarrow> claimCache \<Rightarrow> bool" where
  "cacheSound env cache \<longleftrightarrow>
     (\<forall>(i, evs) \<in> set cache. \<exists>logs. getTx env i = Inr (Some logs) \<and> evs = claimEvents env (Some logs))"

definition sigEvents :: "solEnv \<Rightarrow> sigInfo \<Rightarrow> (string \<times> int) list" where
  "sigEvents env s = (case getTx env (sigName s) of Inl _ \<Rightarrow> [] | Inr p \<Rightarrow> claimEvents env p)"

definition claimsOf :: "solEnv \<Rightarrow> sigInfo list \<Rightarrow> landedClaim list" where
  "claimsOf env ss = concat (map (\<lambda>s. map (landedOf s) (sigEvents env s)) ss)"

abbreviation recent :: "int \<Rightarrow> sigInfo \<Rightarrow> bool" where
  "recent notBefore s \<equiv> \<not> tooOld notBefore s"

lemma set_tl: "x \<in> set (tl xs) \<Longrightarrow> x \<in> set xs"
  by (cases xs) auto

lemma cachePut_sound:
  assumes "cacheSound env cache" "getTx env i = Inr (Some logs)"
  shows "cacheSound env (cachePut i (claimEvents env (Some logs)) cache)"
  using assms by (auto simp: cacheSound_def cachePut_def dest!: set_tl)

lemma decodeCached_exact:
  assumes "cacheSound env cache" "\<exists>p. getTx env (sigName s) = Inr p"
  obtains c where "decodeCached env (sigName s) cache = (Inr (sigEvents env s), c)" "cacheSound env c"
proof (cases "map_of cache (sigName s)")
  case None
  from assms(2) obtain p where p: "getTx env (sigName s) = Inr p" by blast
  then have "decodeCached env (sigName s) cache = (Inr (sigEvents env s),
      (case p of None \<Rightarrow> cache | Some _ \<Rightarrow> cachePut (sigName s) (claimEvents env p) cache))"
    using None by (simp add: decodeCached_def sigEvents_def)
  moreover have "cacheSound env (case p of None \<Rightarrow> cache | Some _ \<Rightarrow> cachePut (sigName s) (claimEvents env p) cache)"
    using assms(1) p by (auto simp: cachePut_sound split: option.split)
  ultimately show thesis by (rule that)
next
  case (Some evs)
  then have "(sigName s, evs) \<in> set cache" by (rule map_of_SomeD)
  then have "evs = sigEvents env s" using assms(1) by (auto simp: cacheSound_def sigEvents_def)
  with Some assms(1) show thesis by (intro that [of cache]) (simp_all add: decodeCached_def)
qed

lemma sweepPage_exact:
  assumes "cacheSound env cache" "\<forall>s \<in> set ss. \<exists>p. getTx env (sigName s) = Inr p"
  shows "\<exists>c. sweepPage env nb ss acc cache =
      (Inr (\<exists>s \<in> set ss. tooOld nb s, acc @ claimsOf env (takeWhile (recent nb) ss)), c) \<and> cacheSound env c"
  using assms
proof (induction ss arbitrary: acc cache)
  case Nil
  then show ?case by (simp add: claimsOf_def)
next
  case (Cons s ss)
  show ?case
  proof (cases "tooOld nb s")
    case True
    then show ?thesis using Cons.prems by (simp add: claimsOf_def)
  next
    case False
    obtain c where c: "decodeCached env (sigName s) cache = (Inr (sigEvents env s), c)" "cacheSound env c"
      using decodeCached_exact [OF Cons.prems(1)] Cons.prems(2) by auto
    have rest: "\<forall>s \<in> set ss. \<exists>p. getTx env (sigName s) = Inr p" using Cons.prems(2) by simp
    obtain c' where "sweepPage env nb ss (acc @ map (landedOf s) (sigEvents env s)) c =
        (Inr (\<exists>s \<in> set ss. tooOld nb s,
          (acc @ map (landedOf s) (sigEvents env s)) @ claimsOf env (takeWhile (recent nb) ss)), c')"
      "cacheSound env c'"
      using Cons.IH [OF c(2) rest, where acc = "acc @ map (landedOf s) (sigEvents env s)"] by blast
    then show ?thesis using False c(1) by (simp add: claimsOf_def)
  qed
qed

lemma afterSig_last:
  assumes "distinct (map sigName (pre @ xs @ rest))" "xs \<noteq> []"
  shows "afterSig (Some (sigName (last xs))) (pre @ xs @ rest) = rest"
proof -
  define ys where "ys = pre @ butlast xs"
  have e: "pre @ xs @ rest = ys @ last xs # rest"
    using assms(2) unfolding ys_def by (metis append.assoc append_butlast_last_id append_Cons append_Nil)
  have "\<forall>y \<in> set ys. sigName y \<noteq> sigName (last xs)"
    using assms(1) unfolding e by (auto simp: image_iff)
  then have "dropWhile (\<lambda>s. sigName s \<noteq> sigName (last xs)) (ys @ last xs # rest) = last xs # rest"
    by (simp add: dropWhile_append2)
  then show ?thesis unfolding afterSig_def e by simp
qed

lemma takeWhile_full:
  "\<forall>x \<in> set (take n xs). P x \<Longrightarrow> n \<le> length xs \<Longrightarrow>
   takeWhile P xs = take n xs @ takeWhile P (drop n xs)"
proof (induction xs arbitrary: n)
  case (Cons x xs)
  then show ?case by (cases n) auto
qed simp

lemma takeWhile_hit: "\<exists>x \<in> set (take n xs). \<not> P x \<Longrightarrow> length (takeWhile P xs) < n"
proof (induction xs arbitrary: n)
  case (Cons x xs)
  then show ?case by (cases n) auto
qed simp

lemma takeWhile_take_hit:
  "\<exists>x \<in> set (take n xs). \<not> P x \<Longrightarrow> n \<le> m \<Longrightarrow> takeWhile P (take m xs) = takeWhile P (take n xs)"
proof -
  assume hit: "\<exists>x \<in> set (take n xs). \<not> P x" and "n \<le> m"
  have "take m xs = take n xs @ take (m - n) (drop n xs)"
    using take_add [of n "m - n" xs] \<open>n \<le> m\<close> by simp
  with hit show ?thesis by (metis takeWhile_append1)
qed

lemma sweepPages_exact:
  assumes "servesHistory env hist" "cacheSound env cache" "hist = pre @ rest" "afterSig before hist = rest"
  shows "\<exists>c. sweepPages n env nb before acc cache =
      (Inr (acc @ claimsOf env (takeWhile (recent nb) (take (n * SWEEP_PAGE) rest)),
            length (takeWhile (recent nb) rest) < n * SWEEP_PAGE), c) \<and> cacheSound env c"
  using assms(2-)
proof (induction n arbitrary: before acc cache pre rest)
  case 0
  then show ?case by (simp add: claimsOf_def)
next
  case (Suc n)
  let ?sigs = "take SWEEP_PAGE rest"
  have P: "0 < SWEEP_PAGE" by (simp add: SWEEP_PAGE_def)
  have page: "sigPage env before SWEEP_PAGE = Inr ?sigs"
    using assms(1) Suc.prems(3) by (simp add: servesHistory_def)
  have known: "\<forall>s \<in> set ?sigs. \<exists>p. getTx env (sigName s) = Inr p"
    using assms(1) Suc.prems(2) by (auto simp: servesHistory_def dest: in_set_takeD)
  obtain c where c: "sweepPage env nb ?sigs acc cache =
      (Inr (\<exists>s \<in> set ?sigs. tooOld nb s, acc @ claimsOf env (takeWhile (recent nb) ?sigs)), c)" "cacheSound env c"
    using sweepPage_exact [OF Suc.prems(1) known] by blast
  consider (none) "rest = []" | (old) "rest \<noteq> []" "\<exists>s \<in> set ?sigs. tooOld nb s"
    | (short) "rest \<noteq> []" "\<forall>s \<in> set ?sigs. recent nb s" "length rest < SWEEP_PAGE"
    | (full) "rest \<noteq> []" "\<forall>s \<in> set ?sigs. recent nb s" "SWEEP_PAGE \<le> length rest"
    by fastforce
  then show ?case
  proof cases
    case none
    then show ?thesis using page P Suc.prems(1) by (simp add: claimsOf_def)
  next
    case old
    have "takeWhile (recent nb) (take (Suc n * SWEEP_PAGE) rest) = takeWhile (recent nb) ?sigs"
      by (rule takeWhile_take_hit) (use old in auto)
    moreover have "length (takeWhile (recent nb) rest) < Suc n * SWEEP_PAGE"
      using takeWhile_hit [of SWEEP_PAGE rest "recent nb"] old by auto
    ultimately show ?thesis using page c old P by simp
  next
    case short
    then have "length (takeWhile (recent nb) rest) < Suc n * SWEEP_PAGE"
      using length_takeWhile_le [of "recent nb" rest] by simp
    with short show ?thesis using page c P by simp
  next
    case full
    have tw: "takeWhile (recent nb) ?sigs = ?sigs" using full by (simp add: takeWhile_eq_all_conv)
    have split: "hist = (pre @ ?sigs) @ drop SWEEP_PAGE rest" using Suc.prems(2) by simp
    have "afterSig (Some (sigName (last ?sigs))) hist = drop SWEEP_PAGE rest"
      using afterSig_last [of pre ?sigs "drop SWEEP_PAGE rest"] assms(1) split full P
      by (simp add: servesHistory_def)
    then obtain c' where "sweepPages n env nb (Some (sigName (last ?sigs)))
          (acc @ claimsOf env ?sigs) c =
        (Inr ((acc @ claimsOf env ?sigs) @
            claimsOf env (takeWhile (recent nb) (take (n * SWEEP_PAGE) (drop SWEEP_PAGE rest))),
            length (takeWhile (recent nb) (drop SWEEP_PAGE rest)) < n * SWEEP_PAGE), c')" "cacheSound env c'"
      using Suc.IH [OF c(2) split] by blast
    moreover have "takeWhile (recent nb) rest = ?sigs @ takeWhile (recent nb) (drop SWEEP_PAGE rest)"
      by (rule takeWhile_full) (use full in auto)
    moreover have "takeWhile (recent nb) (take (Suc n * SWEEP_PAGE) rest)
        = ?sigs @ takeWhile (recent nb) (take (n * SWEEP_PAGE) (drop SWEEP_PAGE rest))"
      using takeWhile_full [of SWEEP_PAGE "take (Suc n * SWEEP_PAGE) rest" "recent nb"] full
      by (simp add: drop_take min_def)
    ultimately show ?thesis using page c(1) [unfolded tw] full P by (simp add: claimsOf_def)
  qed
qed

text \<open>
  C19: over a node that serves a fixed history, the sweep returns the claim events of exactly the
  transactions newer than the bound among the newest 5000, and reports itself complete exactly when
  all the transactions newer than the bound were among them; what it leaves in the cache are answers
  the node really gave.
\<close>
theorem sweep_exact:
  assumes "servesHistory env hist" and "cacheSound env cache"
  shows "\<exists>c. findLandedClaims env nb cache =
      (Inr (claimsOf env (takeWhile (recent nb) (take 5000 hist)),
            length (takeWhile (recent nb) hist) < 5000), c) \<and> cacheSound env c"
  using sweepPages_exact [OF assms, of "[]" hist None MAX_PAGES nb "[]"]
  by (simp add: findLandedClaims_def afterSig_def MAX_PAGES_def SWEEP_PAGE_def)

section \<open>A node with three transactions\<close>

definition smallHistory :: "sigInfo list" where
  "smallHistory =
     [\<lparr> sigName = ''s3'', sigSlot = 30, sigTime = Some 900, sigErr = False \<rparr>,
      \<lparr> sigName = ''s2'', sigSlot = 20, sigTime = None, sigErr = False \<rparr>,
      \<lparr> sigName = ''s1'', sigSlot = 10, sigTime = Some 100, sigErr = False \<rparr>]"

definition nodeOf :: "sigInfo list \<Rightarrow> (string \<Rightarrow> string list option option) \<Rightarrow> solEnv" where
  "nodeOf hist txs =
     \<lparr> isMainnet = False, adminKey = ''admin'', instrError = (\<lambda>_. None),
       latestBlockhash = Inr (''bh'', 500), encodeTx = txBlockhash,
       feeRpc = (\<lambda>_. Inl []), signTx = Inr, sendRaw = (\<lambda>_. Inr ''sig''),
       confirmTx = (\<lambda>_ _ _. Inr ()), parseKey = Inr,
       partialSign = (\<lambda>tx. Inr [(txPayer tx, False), (''admin'', True)]),
       sigPage = (\<lambda>before limit. Inr (take limit (afterSig before hist))),
       getTx = (\<lambda>i. Inr (txs i)),
       parseLogs = map (\<lambda>l. \<lparr> evName = ''WinningsClaimedEvent'', evUser = l, evAmount = 55 \<rparr>) \<rparr>"

lemma nodeOf_serves: "distinct (map sigName hist) \<Longrightarrow> servesHistory (nodeOf hist txs) hist"
  by (simp add: servesHistory_def nodeOf_def)

definition claimTx :: "string \<Rightarrow> string list option option" where
  "claimTx i = (if i = ''s2'' then None else Some (Some [''b'']))"

lemma small_serves: "servesHistory (nodeOf smallHistory claimTx) smallHistory"
  by (rule nodeOf_serves) (simp add: smallHistory_def)

theorem sweep_exact_witness:
  "fst (findLandedClaims (nodeOf smallHistory claimTx) 700 []) =
   Inr ([\<lparr> lcWallet = ''b'', lcAmount = 55, lcSignature = ''s3'', lcSlot = 30, lcTime = Some 900,
           lcFailed = False \<rparr>], True)"
proof -
  have c: "claimsOf (nodeOf smallHistory claimTx) (takeWhile (recent 700) (take 5000 smallHistory)) =
     [\<lparr> lcWallet = ''b'', lcAmount = 55, lcSignature = ''s3'', lcSlot = 30, lcTime = Some 900,
        lcFailed = False \<rparr>]" "length (takeWhile (recent 700) smallHistory) < 5000"
    by (simp_all add: smallHistory_def tooOld_def claimsOf_def sigEvents_def nodeOf_def claimTx_def
        claimEvents_def landedOf_def)
  have "cacheSound (nodeOf smallHistory claimTx) []" by (simp add: cacheSound_def)
  from sweep_exact [OF small_serves this, of 700] show ?thesis unfolding c(1) using c(2) by auto
qed

end
