(* ===== verification/TicketIngest.thy ===== *)
theory TicketIngest
  imports BaseConfirmer SolanaService
begin

text \<open>
  The way of a purchase into the tables: the Helius webhook (\<open>routes/webhook.ts\<close>), the worker that
  verifies it against the chain (\<open>workers/webhookIngestWorker.ts\<close>), the poller that catches what
  the webhook missed (\<open>services/solanaIndexer.ts\<close>) and the worker that writes order and tickets
  (\<open>workers/ticketWorker.ts\<close>). The chain, Anchor's decoder and the hash are fields of \<open>ingestEnv\<close>.
\<close>

record chainTx =
  txFailed :: bool
  txLogs :: "string list option"

record purchaseEvent =
  peName :: string
  peBuyer :: string
  peEpoch :: int
  peTimestamp :: int
  peAmount :: int
  peCount :: int
  peTickets :: "(int \<times> int list) list"

record ingestEnv =
  iNow :: int
  webhookSecret :: string
  adminWallet :: string
  iTx :: "string \<Rightarrow> (string, chainTx option) result"
  vaultUsdcAta :: string
  vaultSigs :: "string option \<Rightarrow> nat \<Rightarrow> (string, sigInfo list) result"
  parseEvents :: "string list \<Rightarrow> purchaseEvent list"
  idHash :: "string \<Rightarrow> string"
  iUuid :: "nat \<Rightarrow> string"

datatype workerEnd = Done | Failed string | Unrecoverable string

section \<open>Queues\<close>

fun jobKey :: "job \<Rightarrow> string" where
  "jobKey (RelayJob h i) = ''relay:'' @ i"
| "jobKey (IngestJob s i) = ''ingest:'' @ i"
| "jobKey (TicketJob s ls i) = ''ticket:'' @ i"

definition enqueue :: "job \<Rightarrow> world \<Rightarrow> world" where
  "enqueue j w = (if list_ex (\<lambda>x. jobKey x = jobKey j) (jobs w) then w else w\<lparr>jobs := jobs w @ [j]\<rparr>)"

definition ticketJob :: "string \<Rightarrow> string list \<Rightarrow> job" where
  "ticketJob sig logs = TicketJob sig logs (''ticket-'' @ sig)"

definition updInbox :: "string \<Rightarrow> (webhookInbox \<Rightarrow> webhookInbox) \<Rightarrow> world \<Rightarrow> world option" where
  "updInbox sig f w =
     (if list_ex (\<lambda>x. inboxSignature x = sig) (inbox w)
      then Some (w\<lparr>inbox := updateMany (\<lambda>x. inboxSignature x = sig) f (inbox w)\<rparr>) else None)"

section \<open>The webhook\<close>

definition indexZero :: "json \<Rightarrow> json option" where
  "indexZero v = (case v of JArr (x # xs) \<Rightarrow> Some x | JStr (c # cs) \<Rightarrow> Some (JStr [c])
     | JObj kvs \<Rightarrow> getProp ''0'' v | _ \<Rightarrow> None)"

definition truthy :: "json option \<Rightarrow> bool" where
  "truthy v = (case v of None \<Rightarrow> False | Some JNull \<Rightarrow> False | Some (JBool b) \<Rightarrow> b
     | Some (JNum r) \<Rightarrow> r \<noteq> 0 | Some (JStr s) \<Rightarrow> s \<noteq> [] | Some (JArr xs) \<Rightarrow> True | Some (JObj kvs) \<Rightarrow> True)"

definition signatureOf :: "json \<Rightarrow> json option" where
  "signatureOf tx = Option.bind (Option.bind (getProp ''transaction'' tx) (getProp ''signatures'')) indexZero"

definition extractFeePayer :: "json \<Rightarrow> string option" where
  "extractFeePayer tx =
     (case Option.bind (Option.bind (getProp ''transaction'' tx) (getProp ''message'')) (getProp ''accountKeys'') of
        Some (JArr (first # others)) \<Rightarrow>
          (case first of JStr s \<Rightarrow> Some s
           | _ \<Rightarrow> (case getProp ''pubkey'' first of Some (JStr s) \<Rightarrow> Some s | _ \<Rightarrow> None))
      | _ \<Rightarrow> None)"

definition isOwnAdminTx :: "ingestEnv \<Rightarrow> json \<Rightarrow> bool" where
  "isOwnAdminTx env tx = (extractFeePayer tx = Some (adminWallet env))"

definition isDuplicate :: "world \<Rightarrow> json \<Rightarrow> bool" where
  "isDuplicate w sig = (case sig of JStr s \<Rightarrow> s \<in> set (seenSignatures w) | _ \<Rightarrow> False)"

definition freshTxs :: "ingestEnv \<Rightarrow> world \<Rightarrow> json list \<Rightarrow> (json \<times> json) list" where
  "freshTxs env w txs =
     List.map_filter (\<lambda>tx. case signatureOf tx of None \<Rightarrow> None
       | Some sig \<Rightarrow> (if truthy (Some sig) \<and> \<not> isDuplicate w sig \<and> \<not> isOwnAdminTx env tx
           then Some (sig, tx) else None)) txs"

text \<open>\<open>createMany\<close> with \<open>skipDuplicates\<close>; a signature that is not a string makes Prisma reject the batch.\<close>

definition storeInbox :: "ingestEnv \<Rightarrow> string \<times> json \<Rightarrow> world \<Rightarrow> world" where
  "storeInbox env f w =
     (if list_ex (\<lambda>x. inboxSignature x = fst f) (inbox w) then w
      else w\<lparr>inbox := inbox w @ [\<lparr> inboxId = iUuid env (uuidNext w), inboxSignature = fst f,
               inboxSource = ''helius'', rawPayload = snd f, inboxStatus = RECEIVED, inboxError = None,
               inboxCreatedAt = iNow env, processedAt = None \<rparr>],
             uuidNext := Suc (uuidNext w)\<rparr>)"

definition markSeen :: "string \<Rightarrow> world \<Rightarrow> world" where
  "markSeen sig w = (if sig \<in> set (seenSignatures w) then w else w\<lparr>seenSignatures := seenSignatures w @ [sig]\<rparr>)"

definition stringSigs :: "(json \<times> json) list \<Rightarrow> (string \<times> json) list option" where
  "stringSigs fs = (if list_all (\<lambda>f. case fst f of JStr s \<Rightarrow> True | _ \<Rightarrow> False) fs
     then Some (map (\<lambda>f. (case fst f of JStr s \<Rightarrow> s | _ \<Rightarrow> [], snd f)) fs) else None)"

datatype webhookResponse = WhMisconfigured | WhUnauthorized | WhOk nat nat | WhError

definition heliusWebhook :: "ingestEnv \<Rightarrow> string \<Rightarrow> json \<Rightarrow> world \<Rightarrow> webhookResponse \<times> world" where
  "heliusWebhook env auth body w =
     (if webhookSecret env = [] then (WhMisconfigured, w)
      else if auth \<noteq> webhookSecret env then (WhUnauthorized, w)
      else let txs = (case body of JArr xs \<Rightarrow> xs | _ \<Rightarrow> [body]);
               fresh = freshTxs env w txs
           in if fresh = [] then (WhOk (length txs) 0, w)
              else case stringSigs fresh of None \<Rightarrow> (WhError, w)
                | Some fs \<Rightarrow> (WhOk (length txs) (length fs),
                    fold (\<lambda>f. markSeen (fst f)) fs
                      (fold (\<lambda>f. enqueue (IngestJob (fst f) (''wh-'' @ fst f))) fs
                        (fold (storeInbox env) fs w))))"

section \<open>Verifying against the chain\<close>

definition boughtTicket :: "string list \<Rightarrow> bool" where
  "boughtTicket logs = list_ex (\<lambda>l. jsIncludes l ''Instruction: BuyTicket'') logs"

definition settleInbox :: "ingestEnv \<Rightarrow> string \<Rightarrow> webhookStatus \<Rightarrow> string option \<Rightarrow> world \<Rightarrow> workerEnd \<times> world" where
  "settleInbox env sig st err w =
     (case updInbox sig (\<lambda>x. x\<lparr>inboxStatus := st, processedAt := Some (iNow env),
          inboxError := (case err of None \<Rightarrow> inboxError x | Some e \<Rightarrow> Some e)\<rparr>) w of
        None \<Rightarrow> (Failed ''P2025'', w) | Some w' \<Rightarrow> (Done, w'))"

definition webhookIngestJob :: "ingestEnv \<Rightarrow> string \<Rightarrow> world \<Rightarrow> workerEnd \<times> world" where
  "webhookIngestJob env sig w =
     (case List.find (\<lambda>x. inboxSignature x = sig) (inbox w) of None \<Rightarrow> (Done, w)
      | Some row \<Rightarrow>
        (if inboxStatus row = PROCESSED then (Done, w)
         else case iTx env sig of Inl e \<Rightarrow> (Failed e, w)
           | Inr None \<Rightarrow> (Failed ''not visible on-chain yet'', w)
           | Inr (Some tx) \<Rightarrow>
               (if txFailed tx then settleInbox env sig SKIPPED (Some ''Transaction failed on-chain'') w
                else let logs = case_option [] id (txLogs tx) in
                  if \<not> boughtTicket logs then settleInbox env sig SKIPPED None w
                  else settleInbox env sig PROCESSED None (enqueue (ticketJob sig logs) w))))"

section \<open>The poller\<close>

definition INDEXER_LIMIT :: nat where "INDEXER_LIMIT = 50"

text \<open>Oldest first. A read that throws ends the poll before the cursor moves.\<close>

fun pollSigs :: "ingestEnv \<Rightarrow> sigInfo list \<Rightarrow> nat \<Rightarrow> world \<Rightarrow> (string, nat) result \<times> world" where
  "pollSigs env [] n w = (Inr n, w)"
| "pollSigs env (s # ss) n w =
     (if sigErr s then pollSigs env ss n w
      else if list_ex (\<lambda>r. orderSignature r = sigName s) (orders w) then pollSigs env ss n w
      else case iTx env (sigName s) of Inl e \<Rightarrow> (Inl e, w)
        | Inr tx \<Rightarrow>
          (let logs = case_option [] id (Option.bind tx txLogs) in
           if \<not> boughtTicket logs then pollSigs env ss n w
           else pollSigs env ss (Suc n) (enqueue (ticketJob (sigName s) logs) w)))"

definition pollMissedTransactions :: "ingestEnv \<Rightarrow> world \<Rightarrow> (string, nat) result \<times> world" where
  "pollMissedTransactions env w =
     (if vaultUsdcAta env = [] then (Inr 0, w)
      else case vaultSigs env (indexerCursor w) INDEXER_LIMIT of Inl e \<Rightarrow> (Inl e, w)
        | Inr sigs \<Rightarrow>
          (case pollSigs env (rev sigs) 0 w of
             (Inl e, w') \<Rightarrow> (Inl e, w')
           | (Inr n, w') \<Rightarrow> (Inr n, if sigs = [] then w' else w'\<lparr>indexerCursor := Some (sigName (hd sigs))\<rparr>)))"

section \<open>Order and tickets\<close>

definition isTicketPurchaseEvent :: "purchaseEvent \<Rightarrow> bool" where
  "isTicketPurchaseEvent e = (peName e \<in> {''TicketPurchaseEvent'', ''ticketPurchaseEvent''})"

definition purchases :: "ingestEnv \<Rightarrow> string list \<Rightarrow> purchaseEvent list" where
  "purchases env logs = filter isTicketPurchaseEvent (parseEvents env logs)"

definition agree :: "purchaseEvent list \<Rightarrow> bool" where
  "agree es = list_all (\<lambda>e. peBuyer e = peBuyer (hd es) \<and> peEpoch e = peEpoch (hd es)) es"

definition newOrder :: "ingestEnv \<Rightarrow> string \<Rightarrow> purchaseEvent list \<Rightarrow> relayOrder" where
  "newOrder env sig es =
     \<lparr> orderHash = idHash env sig, orderSignature = sig, buyer = peBuyer (hd es),
       purchaseEpoch = peEpoch (hd es), fulfillEpoch = None, amountUsdc = sumMany peAmount es,
       orderTicketCount = sumMany peCount es, lastBought = peTimestamp (hd es) * 1000,
       orderStatus = QUEUED, attemptCount = 0, lastError = None, nextRetryAt = None,
       orderTxHash = None, megapotTicketIds = [], orderCreatedAt = iNow env, updatedAt = iNow env \<rparr>"

fun createTickets :: "ingestEnv \<Rightarrow> string \<Rightarrow> (int \<times> int list) list \<Rightarrow> world \<Rightarrow> world" where
  "createTickets env h [] w = w"
| "createTickets env h ((bonus, ns) # ts) w =
     createTickets env h ts (w\<lparr>tickets := tickets w @ [newTicket (iUuid env (uuidNext w)) h bonus ns],
                              uuidNext := Suc (uuidNext w)\<rparr>)"

definition orderTaken :: "string \<Rightarrow> string \<Rightarrow> world \<Rightarrow> bool" where
  "orderTaken h sig w = list_ex (\<lambda>r. orderHash r = h \<or> orderSignature r = sig) (orders w)"

definition failInbox :: "ingestEnv \<Rightarrow> string \<Rightarrow> string \<Rightarrow> world \<Rightarrow> workerEnd \<times> world" where
  "failInbox env sig why w =
     (case settleInbox env sig WH_FAILED (Some why) w of
        (Done, w') \<Rightarrow> (Unrecoverable why, w') | (r, w') \<Rightarrow> (r, w'))"

definition runTicketJob :: "ingestEnv \<Rightarrow> string \<Rightarrow> string list \<Rightarrow> world \<Rightarrow> workerEnd \<times> world" where
  "runTicketJob env sig logs w =
     (let es = purchases env logs; h = idHash env sig;
          relay = enqueue (RelayJob h (''relay-'' @ h))
      in if es = [] then failInbox env sig ''No TicketPurchaseEvent found in logs'' w
         else if \<not> agree es then failInbox env sig ''TicketPurchaseEvents in one tx disagree on buyer/epoch'' w
         else if orderTaken h sig w then (Done, relay w)
         else (Done, relay (createTickets env h (concat (map peTickets es))
                 (w\<lparr>orders := orders w @ [newOrder env sig es]\<rparr>))))"

section \<open>What the steps touch\<close>

lemma enqueue_sel [simp]:
  "orders (enqueue j w) = orders w" "tickets (enqueue j w) = tickets w" "inbox (enqueue j w) = inbox w"
  by (simp_all add: enqueue_def)

lemma enqueue_jobs: "set (jobs (enqueue j w)) \<subseteq> insert j (set (jobs w))"
  by (auto simp: enqueue_def)

lemma enqueue_has: "list_ex (\<lambda>x. jobKey x = jobKey j) (jobs (enqueue j w))"
  by (simp add: enqueue_def)

lemma enqueue_keeps: "set (jobs w) \<subseteq> set (jobs (enqueue j w))"
  by (auto simp: enqueue_def)

lemma settleInbox_sel [simp]:
  "orders (snd (settleInbox env sig st err w)) = orders w"
  "tickets (snd (settleInbox env sig st err w)) = tickets w"
  "jobs (snd (settleInbox env sig st err w)) = jobs w"
  by (simp_all add: settleInbox_def updInbox_def)

lemma failInbox_snd: "snd (failInbox env sig why w) = snd (settleInbox env sig WH_FAILED (Some why) w)"
  by (simp add: failInbox_def split: prod.split workerEnd.split)

lemma failInbox_sel [simp]:
  "orders (snd (failInbox env sig why w)) = orders w" "tickets (snd (failInbox env sig why w)) = tickets w"
  "jobs (snd (failInbox env sig why w)) = jobs w"
  by (simp_all add: failInbox_snd)

lemma createTickets_rows:
  "\<exists>new. tickets (createTickets env h ts w) = tickets w @ new
     \<and> map (\<lambda>t. (bonusBall t, normalBalls t)) new = ts \<and> (\<forall>t \<in> set new. ticketOrder t = h)"
proof (induction ts arbitrary: w)
  case (Cons t ts)
  obtain b ns where t: "t = (b, ns)" by fastforce
  let ?t = "newTicket (iUuid env (uuidNext w)) h b ns"
  let ?w = "w\<lparr>tickets := tickets w @ [?t], uuidNext := Suc (uuidNext w)\<rparr>"
  obtain new where "tickets (createTickets env h ts ?w) = tickets ?w @ new"
    "map (\<lambda>t. (bonusBall t, normalBalls t)) new = ts" "\<forall>t \<in> set new. ticketOrder t = h"
    using Cons.IH [of ?w] by blast
  then show ?case by (intro exI [of _ "?t # new"]) (auto simp: t newTicket_def)
qed simp

lemma createTickets_sel [simp]:
  "orders (createTickets env h ts w) = orders w" "jobs (createTickets env h ts w) = jobs w"
  "inbox (createTickets env h ts w) = inbox w"
  by (induction ts arbitrary: w) (auto simp: split_paired_all)

lemma storeInbox_sel:
  "orders (fold (storeInbox env) fs w) = orders w \<and> tickets (fold (storeInbox env) fs w) = tickets w
   \<and> jobs (fold (storeInbox env) fs w) = jobs w"
  by (induction fs arbitrary: w) (auto simp: storeInbox_def)

lemma markSeen_sel:
  "orders (fold (\<lambda>f. markSeen (fst f)) fs w) = orders w \<and> tickets (fold (\<lambda>f. markSeen (fst f)) fs w) = tickets w
   \<and> jobs (fold (\<lambda>f. markSeen (fst f)) fs w) = jobs w"
  by (induction fs arbitrary: w) (auto simp: markSeen_def)

lemma enqueue_fold_sel:
  "orders (fold (\<lambda>f. enqueue (g f)) fs w) = orders w \<and> tickets (fold (\<lambda>f. enqueue (g f)) fs w) = tickets w
   \<and> set (jobs (fold (\<lambda>f. enqueue (g f)) fs w)) \<subseteq> set (jobs w) \<union> g ` set fs"
proof (induction fs arbitrary: w)
  case (Cons f fs)
  show ?case using Cons.IH [of "enqueue (g f) w"] enqueue_jobs [of "g f" w] by auto
qed simp

section \<open>Every order is a purchase\<close>

text \<open>
  \<open>facts\<close> is what the chain holds: for a signature whether it failed, and its logs. A node answers
  with nothing else, and lists failed transactions as failed.
\<close>

type_synonym chainFacts = "string \<Rightarrow> (bool \<times> string list) option"

definition honest :: "chainFacts \<Rightarrow> ingestEnv \<Rightarrow> bool" where
  "honest facts env \<longleftrightarrow>
     (\<forall>sig tx. iTx env sig = Inr (Some tx) \<longrightarrow> facts sig = Some (txFailed tx, case_option [] id (txLogs tx)))
     \<and> (\<forall>until limit sigs s. vaultSigs env until limit = Inr sigs \<longrightarrow> s \<in> set sigs \<longrightarrow>
          (\<forall>f logs. facts (sigName s) = Some (f, logs) \<longrightarrow> f = sigErr s))"

definition jobBacked :: "chainFacts \<Rightarrow> job \<Rightarrow> bool" where
  "jobBacked facts j = (case j of
     TicketJob sig logs i \<Rightarrow> facts sig = Some (False, logs) \<and> boughtTicket logs | _ \<Rightarrow> True)"

definition orderBacked ::
  "chainFacts \<Rightarrow> (string list \<Rightarrow> purchaseEvent list) \<Rightarrow> (string \<Rightarrow> string) \<Rightarrow> ticket list \<Rightarrow> relayOrder \<Rightarrow> bool" where
  "orderBacked facts dec h ts r \<longleftrightarrow>
     (\<exists>logs es. facts (orderSignature r) = Some (False, logs) \<and> es = filter isTicketPurchaseEvent (dec logs)
        \<and> es \<noteq> [] \<and> orderHash r = h (orderSignature r)
        \<and> (\<forall>e \<in> set es. peBuyer e = buyer r \<and> peEpoch e = purchaseEpoch r)
        \<and> amountUsdc r = sumMany peAmount es \<and> orderTicketCount r = sumMany peCount es
        \<and> map (\<lambda>t. (bonusBall t, normalBalls t)) (filter (\<lambda>t. ticketOrder t = orderHash r) ts)
            = concat (map peTickets es))"

definition ingestOk ::
  "chainFacts \<Rightarrow> (string list \<Rightarrow> purchaseEvent list) \<Rightarrow> (string \<Rightarrow> string) \<Rightarrow> world \<Rightarrow> bool" where
  "ingestOk facts dec h w \<longleftrightarrow>
     distinct (map orderSignature (orders w)) \<and> distinct (map orderHash (orders w))
     \<and> (\<forall>t \<in> set (tickets w). ticketOrder t \<in> orderHash ` set (orders w))
     \<and> (\<forall>r \<in> set (orders w). orderBacked facts dec h (tickets w) r)
     \<and> (\<forall>j \<in> set (jobs w). jobBacked facts j)"

lemma orderBacked_cong:
  "filter (\<lambda>t. ticketOrder t = orderHash r) ts = filter (\<lambda>t. ticketOrder t = orderHash r) ts'
   \<Longrightarrow> orderBacked facts dec h ts r \<longleftrightarrow> orderBacked facts dec h ts' r"
  by (simp add: orderBacked_def)

lemma ingestOk_cong:
  "ingestOk facts dec h w \<Longrightarrow> orders w' = orders w \<Longrightarrow> tickets w' = tickets w \<Longrightarrow>
   (\<And>j. j \<in> set (jobs w') \<Longrightarrow> j \<in> set (jobs w) \<or> jobBacked facts j) \<Longrightarrow> ingestOk facts dec h w'"
  by (auto simp: ingestOk_def)

lemma webhook_ok:
  assumes "ingestOk facts dec h w"
  shows "ingestOk facts dec h (snd (heliusWebhook env auth body w))"
proof -
  let ?q = "\<lambda>fs v. fold (\<lambda>f. enqueue (IngestJob (fst f) (''wh-'' @ fst f))) fs v"
  have "ingestOk facts dec h (fold (\<lambda>f. markSeen (fst f)) fs (?q fs (fold (storeInbox env) fs w)))" for fs
  proof (rule ingestOk_cong [OF assms])
    fix j
    assume "j \<in> set (jobs (fold (\<lambda>f. markSeen (fst f)) fs (?q fs (fold (storeInbox env) fs w))))"
    then show "j \<in> set (jobs w) \<or> jobBacked facts j"
      using enqueue_fold_sel [of "\<lambda>f. IngestJob (fst f) (''wh-'' @ fst f)" fs "fold (storeInbox env) fs w"]
      by (auto simp: markSeen_sel storeInbox_sel jobBacked_def)
  qed (simp_all add: markSeen_sel storeInbox_sel enqueue_fold_sel)
  then show ?thesis
    using assms by (auto simp: heliusWebhook_def Let_def split: option.split)
qed

lemma verify_ok:
  assumes "ingestOk facts dec h w" "honest facts env"
  shows "ingestOk facts dec h (snd (webhookIngestJob env sig w))"
proof -
  have "ingestOk facts dec h (snd (settleInbox env sig st err v))"
    if "ingestOk facts dec h v" for st err v
    using that by (rule ingestOk_cong) simp_all
  moreover have "ingestOk facts dec h (enqueue (ticketJob sig (case_option [] id (txLogs tx))) w)"
    if "iTx env sig = Inr (Some tx)" "\<not> txFailed tx" "boughtTicket (case_option [] id (txLogs tx))" for tx
  proof (rule ingestOk_cong [OF assms(1)])
    fix j
    assume "j \<in> set (jobs (enqueue (ticketJob sig (case_option [] id (txLogs tx))) w))"
    then have "j \<in> set (jobs w) \<or> j = ticketJob sig (case_option [] id (txLogs tx))"
      using enqueue_jobs by blast
    then show "j \<in> set (jobs w) \<or> jobBacked facts j"
      using that assms(2) by (auto simp: honest_def jobBacked_def ticketJob_def)
  qed simp_all
  ultimately show ?thesis
    using assms(1) by (auto simp: webhookIngestJob_def Let_def split: option.split sum.split)
qed

lemma pollSigs_ok:
  assumes "ingestOk facts dec h w" "honest facts env"
    and "\<forall>s \<in> set ss. \<forall>f logs. facts (sigName s) = Some (f, logs) \<longrightarrow> f = sigErr s"
  shows "ingestOk facts dec h (snd (pollSigs env ss n w))"
  using assms(1,3)
proof (induction ss arbitrary: n w)
  case (Cons s ss)
  show ?case
  proof (cases "sigErr s \<or> list_ex (\<lambda>r. orderSignature r = sigName s) (orders w)")
    case True
    then show ?thesis using Cons by auto
  next
    case False
    show ?thesis
    proof (cases "iTx env (sigName s)")
      case (Inl e)
      then show ?thesis using False Cons.prems by simp
    next
      case (Inr tx)
      let ?logs = "case_option [] id (Option.bind tx txLogs)"
      show ?thesis
      proof (cases "boughtTicket ?logs")
        case True
        then obtain t where t: "tx = Some t" "boughtTicket (case_option [] id (txLogs t))"
          by (cases tx) (auto simp: boughtTicket_def)
        then have "facts (sigName s) = Some (False, case_option [] id (txLogs t))"
          using assms(2) Inr Cons.prems(2) False by (auto simp: honest_def)
        then have "jobBacked facts (ticketJob (sigName s) ?logs)"
          using t by (simp add: jobBacked_def ticketJob_def)
        then have "ingestOk facts dec h (enqueue (ticketJob (sigName s) ?logs) w)"
          using enqueue_jobs by (intro ingestOk_cong [OF Cons.prems(1)]) auto
        then show ?thesis using True False Inr Cons.IH Cons.prems(2) by simp
      next
        case False2: False
        then show ?thesis using False Inr Cons by simp
      qed
    qed
  qed
qed simp

lemma poll_ok:
  assumes "ingestOk facts dec h w" "honest facts env"
  shows "ingestOk facts dec h (snd (pollMissedTransactions env w))"
proof -
  have "ingestOk facts dec h (snd (pollSigs env (rev sigs) 0 w))"
    if "vaultSigs env (indexerCursor w) INDEXER_LIMIT = Inr sigs" for sigs
    using assms that by (intro pollSigs_ok) (auto simp: honest_def)
  moreover have "ingestOk facts dec h (v\<lparr>indexerCursor := c\<rparr>)" if "ingestOk facts dec h v" for v c
    using that by (rule ingestOk_cong) simp_all
  ultimately show ?thesis
    using assms(1) by (fastforce simp: pollMissedTransactions_def split: sum.split prod.split)
qed

lemma ticketJob_ok:
  assumes ok: "ingestOk facts dec h w" and env: "parseEvents env = dec" "idHash env = h"
    and j: "facts sig = Some (False, logs)"
  shows "ingestOk facts dec h (snd (runTicketJob env sig logs w))"
proof (cases "purchases env logs = [] \<or> \<not> agree (purchases env logs) \<or> orderTaken (h sig) sig w")
  case True
  have q: "jobBacked facts x" if "x \<in> set (jobs (enqueue (RelayJob a b) w))" "x \<notin> set (jobs w)" for x a b
    using that enqueue_jobs [of "RelayJob a b" w] by (auto simp: jobBacked_def)
  show ?thesis
    by (rule ingestOk_cong [OF ok])
       (use True env q in \<open>auto simp: runTicketJob_def Let_def split: if_splits\<close>)
next
  case False
  define es where "es = purchases env logs"
  define new where "new = newOrder env sig es"
  define v where "v = w\<lparr>orders := orders w @ [new]\<rparr>"
  obtain rows where rows: "tickets (createTickets env (h sig) (concat (map peTickets es)) v) = tickets w @ rows"
    "map (\<lambda>t. (bonusBall t, normalBalls t)) rows = concat (map peTickets es)" "\<forall>t \<in> set rows. ticketOrder t = h sig"
    using createTickets_rows [of env "h sig" "concat (map peTickets es)" v] by (auto simp: v_def)
  have run: "snd (runTicketJob env sig logs w)
      = enqueue (RelayJob (h sig) (''relay-'' @ h sig)) (createTickets env (h sig) (concat (map peTickets es)) v)"
    using False env by (simp add: runTicketJob_def Let_def es_def new_def v_def)
  have newSel: "orderHash new = h sig" "orderSignature new = sig"
    using env by (simp_all add: new_def newOrder_def)
  have fresh: "\<forall>r \<in> set (orders w). orderHash r \<noteq> h sig \<and> orderSignature r \<noteq> sig"
    using False by (auto simp: orderTaken_def list_ex_iff)
  have "ticketOrder t \<noteq> h sig" if "t \<in> set (tickets w)" for t
  proof -
    have "ticketOrder t \<in> orderHash ` set (orders w)" using ok that by (simp add: ingestOk_def)
    then show ?thesis using fresh by (metis imageE)
  qed
  then have none: "filter (\<lambda>t. ticketOrder t = h sig) (tickets w) = []"
    by (simp add: filter_empty_conv)
  have rowsOf: "filter (\<lambda>t. ticketOrder t = h sig) rows = rows" using rows(3) by (rule filter_True)
  have "orderBacked facts dec h (tickets w @ rows) new"
  proof -
    have f: "filter (\<lambda>t. ticketOrder t = orderHash new) (tickets w @ rows) = rows"
      by (simp add: none rowsOf newSel)
    have "agree es" using False by (simp add: es_def)
    then have a: "\<forall>e \<in> set es. peBuyer e = peBuyer (hd es) \<and> peEpoch e = peEpoch (hd es)"
      unfolding agree_def list_all_iff .
    have same: "buyer new = peBuyer (hd es)" "purchaseEpoch new = peEpoch (hd es)"
      by (simp_all add: new_def newOrder_def)
    have b: "\<forall>e \<in> set es. peBuyer e = buyer new \<and> peEpoch e = purchaseEpoch new"
      unfolding same by (rule a)
    have c: "es = filter isTicketPurchaseEvent (dec logs)" "es \<noteq> []"
      using False env by (simp_all add: es_def purchases_def)
    have d: "amountUsdc new = sumMany peAmount es" "orderTicketCount new = sumMany peCount es"
      by (simp_all add: new_def newOrder_def)
    show ?thesis
      unfolding orderBacked_def f
    proof (rule exI [of _ logs], rule exI [of _ es], intro conjI)
      show "facts (orderSignature new) = Some (False, logs)" "orderHash new = h (orderSignature new)"
        by (simp_all only: newSel j)
    qed (rule b c d rows(2))+
  qed
  moreover have "orderBacked facts dec h (tickets w @ rows) r" if r: "r \<in> set (orders w)" for r
  proof -
    have "ticketOrder t \<noteq> orderHash r" if "t \<in> set rows" for t using rows(3) fresh r that by metis
    then have "filter (\<lambda>t. ticketOrder t = orderHash r) rows = []" by (simp add: filter_empty_conv)
    then have "filter (\<lambda>t. ticketOrder t = orderHash r) (tickets w @ rows)
        = filter (\<lambda>t. ticketOrder t = orderHash r) (tickets w)" by simp
    moreover have "orderBacked facts dec h (tickets w) r" using ok r by (simp add: ingestOk_def)
    ultimately show ?thesis by (metis orderBacked_cong)
  qed
  moreover have "jobBacked facts x" if "x \<in> set (jobs (snd (runTicketJob env sig logs w)))" for x
  proof -
    have "x = RelayJob (h sig) (''relay-'' @ h sig) \<or> x \<in> set (jobs w)"
      using that enqueue_jobs unfolding run by (fastforce simp: v_def)
    then show ?thesis using ok by (auto simp: ingestOk_def jobBacked_def)
  qed
  moreover have sel: "orders (snd (runTicketJob env sig logs w)) = orders w @ [new]"
    "tickets (snd (runTicketJob env sig logs w)) = tickets w @ rows"
    unfolding run using rows(1) by (simp_all add: v_def)
  moreover have "distinct (map orderSignature (orders w @ [new]))" "distinct (map orderHash (orders w @ [new]))"
    using ok fresh newSel by (auto simp: ingestOk_def)
  moreover have "ticketOrder t \<in> orderHash ` set (orders w @ [new])" if "t \<in> set (tickets w @ rows)" for t
    using that ok rows(3) newSel by (auto simp: ingestOk_def)
  ultimately show ?thesis
    unfolding ingestOk_def sel by (simp add: ball_Un)
qed

section \<open>All interleavings\<close>

text \<open>The handlers in any order, each with any answers of an honest node; requests carry any body.\<close>

inductive ingestReach ::
  "chainFacts \<Rightarrow> (string list \<Rightarrow> purchaseEvent list) \<Rightarrow> (string \<Rightarrow> string) \<Rightarrow> world \<Rightarrow> bool"
  for facts dec h where
  reach_empty: "ingestReach facts dec h emptyWorld"
| reach_webhook: "ingestReach facts dec h w \<Longrightarrow> ingestReach facts dec h (snd (heliusWebhook env auth body w))"
| reach_verify: "ingestReach facts dec h w \<Longrightarrow> honest facts env
    \<Longrightarrow> ingestReach facts dec h (snd (webhookIngestJob env sig w))"
| reach_poll: "ingestReach facts dec h w \<Longrightarrow> honest facts env
    \<Longrightarrow> ingestReach facts dec h (snd (pollMissedTransactions env w))"
| reach_ticket: "ingestReach facts dec h w \<Longrightarrow> parseEvents env = dec \<Longrightarrow> idHash env = h
    \<Longrightarrow> TicketJob sig logs i \<in> set (jobs w) \<Longrightarrow> ingestReach facts dec h (snd (runTicketJob env sig logs w))"

lemma ingestOk_empty: "ingestOk facts dec h emptyWorld"
  by (simp add: ingestOk_def emptyWorld_def)

lemma ingestReach_ok: "ingestReach facts dec h w \<Longrightarrow> ingestOk facts dec h w"
proof (induction rule: ingestReach.induct)
  case (reach_ticket w env sig logs i)
  then have "jobBacked facts (TicketJob sig logs i)" unfolding ingestOk_def by blast
  then have "facts sig = Some (False, logs)" by (simp add: jobBacked_def)
  then show ?case using ticketJob_ok reach_ticket by blast
qed (simp_all add: ingestOk_empty webhook_ok verify_ok poll_ok)

definition demoEvent :: purchaseEvent where
  "demoEvent = \<lparr> peName = ''ticketPurchaseEvent'', peBuyer = ''alice'', peEpoch = 7, peTimestamp = 100,
     peAmount = 2000000, peCount = 2, peTickets = [(3, [1, 2, 3, 4, 5]), (4, [6, 7, 8, 9, 10])] \<rparr>"

definition demoLogs :: "string list" where "demoLogs = [''Program log: Instruction: BuyTicket'']"

definition demoFacts :: chainFacts where
  "demoFacts sig = (if sig = ''s1'' then Some (False, demoLogs) else None)"

definition demoSig :: "string \<Rightarrow> sigInfo" where
  "demoSig sig = \<lparr> sigName = sig, sigSlot = 1, sigTime = Some 100, sigErr = False \<rparr>"

definition demoEnv :: ingestEnv where
  "demoEnv = \<lparr> iNow = 5, webhookSecret = ''k'', adminWallet = ''admin'',
     iTx = (\<lambda>sig. Inr (if sig = ''s1'' then Some \<lparr> txFailed = False, txLogs = Some demoLogs \<rparr> else None)),
     vaultUsdcAta = ''ata'',
     vaultSigs = (\<lambda>until n. Inr (if until = None then [demoSig ''s1''] else [])),
     parseEvents = (\<lambda>logs. if logs = demoLogs then [demoEvent] else []),
     idHash = (\<lambda>s. ''0x'' @ s), iUuid = (\<lambda>n. replicate (Suc n) CHR ''u'') \<rparr>"

definition demoPolled :: world where
  "demoPolled = snd (pollMissedTransactions demoEnv emptyWorld)"

definition demoIngested :: world where
  "demoIngested = snd (runTicketJob demoEnv ''s1'' demoLogs demoPolled)"

lemma demoEnv_honest: "honest demoFacts demoEnv"
  by (auto simp: honest_def demoEnv_def demoSig_def demoFacts_def split: if_splits)

lemma demoPolled_jobs: "jobs demoPolled = [TicketJob ''s1'' demoLogs ''ticket-s1'']"
  by code_simp

lemma demoIngested_reach: "ingestReach demoFacts (parseEvents demoEnv) (idHash demoEnv) demoIngested"
  unfolding demoIngested_def
proof (rule reach_ticket [OF _ refl refl])
  show "ingestReach demoFacts (parseEvents demoEnv) (idHash demoEnv) demoPolled"
    unfolding demoPolled_def by (rule reach_poll [OF reach_empty demoEnv_honest])
  show "TicketJob ''s1'' demoLogs ''ticket-s1'' \<in> set (jobs demoPolled)" by (simp add: demoPolled_jobs)
qed

lemma demoIngested_first: "length (orders demoIngested) = 1 \<and> orderSignature (hd (orders demoIngested)) = ''s1''"
  by code_simp

text \<open>
  C26: whatever is posted to the webhook and in whatever order webhook, verifier, poller and ticket
  worker run, every order in the database is a purchase the chain confirmed: its signature did not
  fail there, all its purchase events name its buyer and epoch, its amount and ticket count are their
  sums, and the ticket rows of the order are exactly the tickets of those events, in order. Orders
  have distinct signatures and hashes.
\<close>
theorem orders_backed_by_chain:
  assumes "ingestReach facts dec h w"
  shows "distinct (map orderSignature (orders w)) \<and> distinct (map orderHash (orders w))
    \<and> (\<forall>r \<in> set (orders w). orderBacked facts dec h (tickets w) r)"
  using ingestReach_ok [OF assms] by (simp add: ingestOk_def)

theorem orders_backed_by_chain_witness:
  "orderBacked demoFacts (parseEvents demoEnv) (idHash demoEnv) (tickets demoIngested) (hd (orders demoIngested))"
  using orders_backed_by_chain [OF demoIngested_reach] demoIngested_first
  by (cases "orders demoIngested") auto

text \<open>
  The ticket job is idempotent: run again, at another time and with other fresh ids (a retry, the
  webhook and the poller both finding the signature), it leaves orders and tickets as they are.
\<close>
theorem ticket_job_once:
  "orders (snd (runTicketJob (env\<lparr>iNow := t, iUuid := u\<rparr>) sig logs (snd (runTicketJob env sig logs w))))
     = orders (snd (runTicketJob env sig logs w))
   \<and> tickets (snd (runTicketJob (env\<lparr>iNow := t, iUuid := u\<rparr>) sig logs (snd (runTicketJob env sig logs w))))
     = tickets (snd (runTicketJob env sig logs w))"
proof -
  have "purchases (env\<lparr>iNow := t, iUuid := u\<rparr>) logs = purchases env logs" by (simp add: purchases_def)
  moreover have "orderTaken (idHash env sig) sig (snd (runTicketJob env sig logs w))"
    if "purchases env logs \<noteq> []" "agree (purchases env logs)"
    using that by (auto simp: runTicketJob_def Let_def orderTaken_def newOrder_def)
  ultimately show ?thesis
    by (cases "purchases env logs = [] \<or> \<not> agree (purchases env logs)")
       (auto simp: runTicketJob_def [of "env\<lparr>iNow := t, iUuid := u\<rparr>"] Let_def)
qed

section \<open>What the poller finds\<close>

lemma enqueue_key_mono:
  "list_ex (\<lambda>x. jobKey x = k) (jobs w) \<Longrightarrow> list_ex (\<lambda>x. jobKey x = k) (jobs (enqueue j w))"
  by (simp add: enqueue_def)

lemma pollSigs_mono:
  "list_ex (\<lambda>x. jobKey x = k) (jobs w) \<Longrightarrow> list_ex (\<lambda>x. jobKey x = k) (jobs (snd (pollSigs env ss n w)))"
  by (induction env ss n w rule: pollSigs.induct)
     (auto simp: enqueue_key_mono Let_def split: sum.split)

lemma pollSigs_orders [simp]: "orders (snd (pollSigs env ss n w)) = orders w"
  by (induction env ss n w rule: pollSigs.induct) (auto simp: Let_def split: sum.split)

lemma pollSigs_finds:
  "pollSigs env ss n w = (Inr k, w') \<Longrightarrow> s \<in> set ss \<Longrightarrow> \<not> sigErr s \<Longrightarrow>
   \<not> list_ex (\<lambda>r. orderSignature r = sigName s) (orders w) \<Longrightarrow> iTx env (sigName s) = Inr (Some tx) \<Longrightarrow>
   boughtTicket (case_option [] id (txLogs tx)) \<Longrightarrow>
   list_ex (\<lambda>x. jobKey x = ''ticket:ticket-'' @ sigName s) (jobs w')"
proof (induction env ss n w rule: pollSigs.induct)
  case (2 env s' ss n w)
  let ?j = "ticketJob (sigName s) (case_option [] id (txLogs tx))"
  show ?case
  proof (cases "s' = s")
    case True
    then have "pollSigs env ss (Suc n) (enqueue ?j w) = (Inr k, w')" using 2 by (simp add: Let_def)
    moreover have "list_ex (\<lambda>x. jobKey x = ''ticket:ticket-'' @ sigName s) (jobs (enqueue ?j w))"
      using enqueue_has [of ?j w] by (simp add: ticketJob_def)
    ultimately show ?thesis using pollSigs_mono by (metis snd_conv)
  next
    case False
    then show ?thesis using 2 by (auto simp: Let_def split: if_splits sum.splits)
  qed
qed simp

text \<open>
  C27: a poll that returns has put every purchase the node let it read into the ticket queue: a signature of
  the page that did not fail, has no order yet and whose transaction the node returned with a
  BuyTicket log has a job, and the cursor stands on the newest signature of the page.
\<close>
theorem indexer_enqueues_all:
  assumes "pollMissedTransactions env w = (Inr n, w')" "vaultUsdcAta env \<noteq> []"
    and "vaultSigs env (indexerCursor w) INDEXER_LIMIT = Inr sigs" "s \<in> set sigs" "\<not> sigErr s"
    and "\<not> list_ex (\<lambda>r. orderSignature r = sigName s) (orders w)" "iTx env (sigName s) = Inr (Some tx)"
    and "boughtTicket (case_option [] id (txLogs tx))"
  shows "list_ex (\<lambda>x. jobKey x = ''ticket:ticket-'' @ sigName s) (jobs w')
    \<and> indexerCursor w' = Some (sigName (hd sigs))"
proof -
  obtain k v where p: "pollSigs env (rev sigs) 0 w = (Inr k, v)"
    using assms(1-3) by (auto simp: pollMissedTransactions_def split: prod.splits sum.splits)
  have "w' = v\<lparr>indexerCursor := Some (sigName (hd sigs))\<rparr>"
    using assms(1-4) p by (auto simp: pollMissedTransactions_def split: if_splits)
  then show ?thesis using pollSigs_finds [OF p _ assms(5-8)] assms(4) by simp
qed

theorem indexer_enqueues_all_witness:
  "list_ex (\<lambda>x. jobKey x = ''ticket:ticket-s1'') (jobs demoPolled) \<and> indexerCursor demoPolled = Some ''s1''"
proof -
  have p: "pollMissedTransactions demoEnv emptyWorld = (Inr 1, demoPolled)"
    unfolding demoPolled_def by code_simp
  have "boughtTicket demoLogs" by code_simp
  then show ?thesis
    using indexer_enqueues_all [OF p, of "[demoSig ''s1'']" "demoSig ''s1''" "\<lparr> txFailed = False, txLogs = Some demoLogs \<rparr>"]
    by (simp add: demoEnv_def emptyWorld_def demoSig_def)
qed

text \<open>
  A signature whose transaction the node does not return yet is no purchase to the poller: it is passed
  over, and so is it by every later poll, which asks from the cursor on.
\<close>

lemma poll_passes_unseen:
  assumes "vaultUsdcAta env \<noteq> []" and "vaultSigs env (indexerCursor w) INDEXER_LIMIT = Inr [s]" and "\<not> sigErr s"
    and "\<not> list_ex (\<lambda>r. orderSignature r = sigName s) (orders w)" and "iTx env (sigName s) = Inr None"
  shows "pollMissedTransactions env w = (Inr 0, w\<lparr>indexerCursor := Some (sigName s)\<rparr>)"
  using assms by (simp add: pollMissedTransactions_def boughtTicket_def)

section \<open>More purchases than a page\<close>

text \<open>The node's answer: newest first, down to (without) the \<open>until\<close> signature, at most \<open>limit\<close>.\<close>

definition pageOf :: "sigInfo list \<Rightarrow> string option \<Rightarrow> nat \<Rightarrow> sigInfo list" where
  "pageOf hist until n = take n (takeWhile (\<lambda>s. until \<noteq> Some (sigName s)) hist)"

definition noTicketJob :: "string \<Rightarrow> world \<Rightarrow> bool" where
  "noTicketJob sig w = list_all (\<lambda>j. case j of TicketJob s ls i \<Rightarrow> s \<noteq> sig | _ \<Rightarrow> True) (jobs w)"

lemma takeWhile_all: "takeWhile (\<lambda>x. True) xs = xs"
  by (induction xs) auto

lemma noTicketJob_enqueue: "noTicketJob sig w \<Longrightarrow> s \<noteq> sig \<Longrightarrow> noTicketJob sig (enqueue (ticketJob s logs) w)"
  by (simp add: noTicketJob_def enqueue_def ticketJob_def)

lemma pollSigs_none:
  "noTicketJob sig w \<Longrightarrow> sig \<notin> sigName ` set ss \<Longrightarrow> noTicketJob sig (snd (pollSigs env ss n w))
   \<and> indexerCursor (snd (pollSigs env ss n w)) = indexerCursor w"
proof (induction env ss n w rule: pollSigs.induct)
  case (2 env s ss n w)
  then show ?case
    by (auto simp: Let_def noTicketJob_enqueue split: sum.split) (auto simp: enqueue_def)
qed simp

lemma poll_overflow_step:
  assumes hist: "vaultSigs env = (\<lambda>u n. Inr (pageOf hist u n))" "distinct (map sigName hist)"
    and s: "s \<in> set (drop INDEXER_LIMIT hist)"
    and w: "noTicketJob (sigName s) w" "indexerCursor w = None \<or> indexerCursor w = Some (sigName (hd hist))"
  shows "noTicketJob (sigName s) (snd (pollMissedTransactions env w))
    \<and> (indexerCursor (snd (pollMissedTransactions env w)) = None
       \<or> indexerCursor (snd (pollMissedTransactions env w)) = Some (sigName (hd hist)))"
proof -
  let ?page = "pageOf hist (indexerCursor w) INDEXER_LIMIT"
  have ne: "hist \<noteq> []" using s by auto
  have page: "?page = (if indexerCursor w = None then take INDEXER_LIMIT hist else [])"
    using w(2) ne by (cases hist) (auto simp: pageOf_def takeWhile_all)
  have "set (map sigName (take INDEXER_LIMIT hist)) \<inter> set (map sigName (drop INDEXER_LIMIT hist)) = {}"
    using hist(2) by (metis append_take_drop_id distinct_append map_append)
  then have out: "sigName s \<notin> sigName ` set (rev ?page)" using s unfolding page by auto
  have hd: "sigName (hd ?page) = sigName (hd hist)" if "?page \<noteq> []"
    using that ne unfolding page by (cases hist) (auto split: if_splits simp: INDEXER_LIMIT_def)
  obtain r v where p: "pollSigs env (rev ?page) 0 w = (r, v)" by fastforce
  have v: "noTicketJob (sigName s) v" "indexerCursor v = indexerCursor w"
    using pollSigs_none [OF w(1) out, of env 0] by (simp_all add: p)
  then have v': "noTicketJob (sigName s) (v\<lparr>indexerCursor := c\<rparr>)" for c by (simp add: noTicketJob_def)
  show ?thesis
    using p v v' w hd by (cases r) (auto simp: pollMissedTransactions_def hist(1))
qed

text \<open>
  The poller forgets what does not fit its first page: with more than fifty signatures on the
  vault since the cursor was unset, the older ones get no job from any number of polls, because the
  cursor moves to the newest signature and nothing pages back.
\<close>
theorem indexer_loses_overflow:
  assumes "vaultSigs env = (\<lambda>u n. Inr (pageOf hist u n))" "distinct (map sigName hist)"
    and "s \<in> set (drop INDEXER_LIMIT hist)" "noTicketJob (sigName s) w" "indexerCursor w = None"
  shows "noTicketJob (sigName s) (((\<lambda>v. snd (pollMissedTransactions env v)) ^^ k) w)"
proof -
  have "noTicketJob (sigName s) (((\<lambda>v. snd (pollMissedTransactions env v)) ^^ k) w)
    \<and> (indexerCursor (((\<lambda>v. snd (pollMissedTransactions env v)) ^^ k) w) = None
       \<or> indexerCursor (((\<lambda>v. snd (pollMissedTransactions env v)) ^^ k) w) = Some (sigName (hd hist)))"
  proof (induction k)
    case (Suc k)
    then show ?case using poll_overflow_step [OF assms(1-3)] by simp
  qed (simp add: assms)
  then show ?thesis ..
qed

definition busyHist :: "sigInfo list" where
  "busyHist = map (\<lambda>k. demoSig (replicate k CHR ''s'')) [0..<60]"

definition busyEnv :: ingestEnv where
  "busyEnv = demoEnv\<lparr>vaultSigs := (\<lambda>u n. Inr (pageOf busyHist u n)),
     iTx := (\<lambda>sig. Inr (Some \<lparr> txFailed = False, txLogs = Some demoLogs \<rparr>))\<rparr>"

theorem indexer_loses_overflow_witness:
  "noTicketJob (replicate 55 CHR ''s'') (((\<lambda>v. snd (pollMissedTransactions busyEnv v)) ^^ 10) emptyWorld)"
proof -
  have d: "distinct (map sigName busyHist)"
    by (auto simp: busyHist_def demoSig_def comp_def distinct_map inj_on_def)
  have n: "length busyHist = 60" by (simp add: busyHist_def)
  have "demoSig (replicate 55 CHR ''s'') = busyHist ! 55" by (simp add: busyHist_def)
  also have "\<dots> = drop INDEXER_LIMIT busyHist ! 5" by (simp add: n INDEXER_LIMIT_def)
  also have "\<dots> \<in> set (drop INDEXER_LIMIT busyHist)" by (rule nth_mem) (simp add: n INDEXER_LIMIT_def)
  finally show ?thesis
    using indexer_loses_overflow [of busyEnv busyHist "demoSig (replicate 55 CHR ''s'')" emptyWorld 10] d
    by (simp add: busyEnv_def emptyWorld_def noTicketJob_def demoSig_def)
qed

section \<open>The ticket contract\<close>

lemma webhook_tickets: "tickets (snd (heliusWebhook env auth body w)) = tickets w"
  by (auto simp: heliusWebhook_def Let_def markSeen_sel enqueue_fold_sel storeInbox_sel split: option.split)

lemma verify_tickets: "tickets (snd (webhookIngestJob env sig w)) = tickets w"
  by (auto simp: webhookIngestJob_def Let_def split: option.split sum.split)

lemma pollSigs_tickets: "tickets (snd (pollSigs env ss n w)) = tickets w"
  by (induction env ss n w rule: pollSigs.induct) (auto simp: Let_def split: sum.split)

lemma poll_tickets: "tickets (snd (pollMissedTransactions env w)) = tickets w"
proof -
  have "tickets w' = tickets w" if "pollSigs env ss 0 w = (r, w')" for ss r w'
    using pollSigs_tickets [of env ss 0 w] that by simp
  then show ?thesis by (auto simp: pollMissedTransactions_def split: sum.split prod.split)
qed

lemma record_grow: "ticketsGrow (tickets w) (tickets (snd (runTicketJob env sig logs w)))"
proof -
  have "ticketsGrow (tickets v) (tickets (createTickets env h ts v))" for h ts v
    using createTickets_rows [of env h ts v] ticketsGrow_append by metis
  from this [of "w\<lparr>orders := os\<rparr>" for os] show ?thesis
    by (auto simp: runTicketJob_def Let_def)
qed

interpretation webhook: ticket_reader "\<lambda>(env, auth, body) w. snd (heliusWebhook env auth body w)"
  by unfold_locales (auto simp: webhook_tickets)

interpretation verifier: ticket_reader "\<lambda>(env, sig) w. snd (webhookIngestJob env sig w)"
  by unfold_locales (auto simp: verify_tickets)

interpretation poller: ticket_reader "\<lambda>env w. snd (pollMissedTransactions env w)"
  by unfold_locales (rule poll_tickets)

interpretation recorder: ticket_op "\<lambda>(env, sig, logs) w. snd (runTicketJob env sig logs w)"
  by unfold_locales (auto simp: record_grow)

end
