(* ===== verification/TicketBuilder.thy ===== *)
theory TicketBuilder
  imports ProtocolApi TicketIngest "HOL-Library.Word"
begin

text \<open>
  Buying from the browser: the basket of staged tickets (\<open>store/ticketBuilderStore.ts\<close>,
  \<open>solana/ticketUtils.ts\<close>), what the home page lets through (\<open>pages/Home/Home.tsx\<close>), the
  instructions built for the program (\<open>solana/buyTickets.ts\<close>, \<open>solana/constants.ts\<close>), and the
  backend's check of the same tickets (\<open>routes/quote.ts\<close>, not mounted). \<open>Math.random\<close> is a
  parameter: a stream of numbers and the position in it. A quick pick draws until it has five
  numbers, so its loop has fuel, and \<open>None\<close> means it is still drawing.
\<close>

section \<open>Tickets\<close>

record stagedTicket =
  stNormals :: "int list"
  stBonus :: "int option"
  stQuick :: bool

definition NORMALS_PER_TICKET :: nat where "NORMALS_PER_TICKET = 5"
definition MAX_TICKETS_PER_IX :: nat where "MAX_TICKETS_PER_IX = 65"
definition MAX_STAGED_TICKETS :: nat where "MAX_STAGED_TICKETS = 200"

definition draw :: "(nat \<Rightarrow> rat) \<Rightarrow> nat \<Rightarrow> int \<Rightarrow> int" where
  "draw rnd pos m = 1 + \<lfloor>rnd pos * of_int m\<rfloor>"

text \<open>The set of drawn numbers, in insertion order.\<close>

fun drawNormals :: "nat \<Rightarrow> (nat \<Rightarrow> rat) \<Rightarrow> int \<Rightarrow> int list \<Rightarrow> nat \<Rightarrow> (int list \<times> nat) option" where
  "drawNormals fuel rnd m ns pos =
     (if NORMALS_PER_TICKET \<le> length ns then Some (ns, pos)
      else case fuel of 0 \<Rightarrow> None
        | Suc f \<Rightarrow> (let n = draw rnd pos m in
            drawNormals f rnd m (if n \<in> set ns then ns else ns @ [n]) (Suc pos)))"

declare drawNormals.simps [simp del]

definition generateQuickPick :: "nat \<Rightarrow> (nat \<Rightarrow> rat) \<Rightarrow> int \<Rightarrow> int \<Rightarrow> nat \<Rightarrow> (stagedTicket \<times> nat) option" where
  "generateQuickPick fuel rnd nm bm pos =
     map_option (\<lambda>(ns, p). (\<lparr> stNormals = sort ns, stBonus = Some (draw rnd p bm), stQuick = True \<rparr>, Suc p))
       (drawNormals fuel rnd nm [] pos)"

definition emptyTicket :: stagedTicket where
  "emptyTicket = \<lparr> stNormals = [], stBonus = None, stQuick = False \<rparr>"

datatype ticketFault = PickFive | PickBonus | NotUnique | NormalRange | BonusRange

definition validateTicket :: "int list \<Rightarrow> int option \<Rightarrow> int \<Rightarrow> int \<Rightarrow> ticketFault option" where
  "validateTicket ns b nm bm =
     (if length ns \<noteq> NORMALS_PER_TICKET then Some PickFive
      else case b of None \<Rightarrow> Some PickBonus
        | Some bb \<Rightarrow>
          if length (remdups ns) \<noteq> length ns then Some NotUnique
          else if list_ex (\<lambda>n. n < 1 \<or> n > nm) ns then Some NormalRange
          else if bb < 1 \<or> bb > bm then Some BonusRange else None)"

definition isTicketComplete :: "stagedTicket \<Rightarrow> int \<Rightarrow> int \<Rightarrow> bool" where
  "isTicketComplete t nm bm = (validateTicket (stNormals t) (stBonus t) nm bm = None)"

section \<open>The basket\<close>

record basket =
  staged :: "stagedTicket list"
  rndPos :: nat

fun quickPicks :: "nat \<Rightarrow> (nat \<Rightarrow> rat) \<Rightarrow> int \<Rightarrow> int \<Rightarrow> nat \<Rightarrow> nat \<Rightarrow> (stagedTicket list \<times> nat) option" where
  "quickPicks fuel rnd nm bm 0 pos = Some ([], pos)"
| "quickPicks fuel rnd nm bm (Suc k) pos =
     (case generateQuickPick fuel rnd nm bm pos of None \<Rightarrow> None
      | Some (t, p) \<Rightarrow> map_option (\<lambda>(ts, q). (t # ts, q)) (quickPicks fuel rnd nm bm k p))"

definition removeTicket :: "int \<Rightarrow> basket \<Rightarrow> basket" where
  "removeTicket i s = s\<lparr>staged := map snd (filter (\<lambda>p. int (fst p) \<noteq> i) (enumerate 0 (staged s)))\<rparr>"

definition clearTickets :: "basket \<Rightarrow> basket" where
  "clearTickets s = s\<lparr>staged := []\<rparr>"

definition syncStagedCount :: "nat \<Rightarrow> (nat \<Rightarrow> rat) \<Rightarrow> int \<Rightarrow> int \<Rightarrow> int \<Rightarrow> basket \<Rightarrow> basket option" where
  "syncStagedCount fuel rnd n nm bm s =
     (let target = nat (max 0 (min n (int MAX_STAGED_TICKETS))) in
      if target = length (staged s) then Some s
      else if target < length (staged s) then Some (s\<lparr>staged := take target (staged s)\<rparr>)
      else map_option (\<lambda>(ts, p). s\<lparr>staged := staged s @ ts, rndPos := p\<rparr>)
             (quickPicks fuel rnd nm bm (target - length (staged s)) (rndPos s)))"

definition mapAt :: "int \<Rightarrow> (stagedTicket \<Rightarrow> stagedTicket) \<Rightarrow> basket \<Rightarrow> basket" where
  "mapAt i f s = s\<lparr>staged := map (\<lambda>p. if int (fst p) = i then f (snd p) else snd p) (enumerate 0 (staged s))\<rparr>"

definition shuffleTicket :: "nat \<Rightarrow> (nat \<Rightarrow> rat) \<Rightarrow> int \<Rightarrow> int \<Rightarrow> int \<Rightarrow> basket \<Rightarrow> basket option" where
  "shuffleTicket fuel rnd i nm bm s =
     (if i < 0 \<or> int (length (staged s)) \<le> i then Some s
      else map_option (\<lambda>(t, p). (mapAt i (\<lambda>_. t) s)\<lparr>rndPos := p\<rparr>) (generateQuickPick fuel rnd nm bm (rndPos s)))"

definition clearTicketBalls :: "int \<Rightarrow> basket \<Rightarrow> basket" where
  "clearTicketBalls i = mapAt i (\<lambda>_. emptyTicket)"

definition toggleNormal :: "int \<Rightarrow> stagedTicket \<Rightarrow> stagedTicket" where
  "toggleNormal n t =
     (if n \<in> set (stNormals t) then t\<lparr>stNormals := filter (\<lambda>x. x \<noteq> n) (stNormals t), stQuick := False\<rparr>
      else if length (stNormals t) \<ge> 5 then t
      else t\<lparr>stNormals := sort (stNormals t @ [n]), stQuick := False\<rparr>)"

definition toggleBonus :: "int \<Rightarrow> stagedTicket \<Rightarrow> stagedTicket" where
  "toggleBonus n t = t\<lparr>stBonus := (if stBonus t = Some n then None else Some n), stQuick := False\<rparr>"

definition toggleTicketNormal :: "int \<Rightarrow> int \<Rightarrow> basket \<Rightarrow> basket" where
  "toggleTicketNormal i n = mapAt i (toggleNormal n)"

definition toggleTicketBonus :: "int \<Rightarrow> int \<Rightarrow> basket \<Rightarrow> basket" where
  "toggleTicketBonus i n = mapAt i (toggleBonus n)"

definition shuffleAllTickets :: "nat \<Rightarrow> (nat \<Rightarrow> rat) \<Rightarrow> int \<Rightarrow> int \<Rightarrow> basket \<Rightarrow> basket option" where
  "shuffleAllTickets fuel rnd nm bm s =
     map_option (\<lambda>(ts, p). s\<lparr>staged := ts, rndPos := p\<rparr>) (quickPicks fuel rnd nm bm (length (staged s)) (rndPos s))"

definition clearAllTicketBalls :: "basket \<Rightarrow> basket" where
  "clearAllTicketBalls s = s\<lparr>staged := map (\<lambda>_. emptyTicket) (staged s)\<rparr>"

section \<open>The home page\<close>

definition RELAY_FEE_BASE_USDC :: int where "RELAY_FEE_BASE_USDC = 0"

definition RELAY_FEE_PER_TICKET_USDC :: int where "RELAY_FEE_PER_TICKET_USDC = 0"

definition calculateRelayFee :: "int \<Rightarrow> int" where
  "calculateRelayFee n =
     (if n \<le> 0 then 0
      else RELAY_FEE_BASE_USDC * ((n + int MAX_TICKETS_PER_IX - 1) div int MAX_TICKETS_PER_IX) + RELAY_FEE_PER_TICKET_USDC * n)"

lemma relayFee_free [simp]: "calculateRelayFee n = 0"
  by (simp add: calculateRelayFee_def RELAY_FEE_BASE_USDC_def RELAY_FEE_PER_TICKET_USDC_def)

text \<open>The program's account as the page reads it; \<open>None\<close> while it is loading.\<close>

record onChainView =
  ocNormalMax :: int
  ocBonusMax :: int
  ocTicketPrice :: int
  ocPaused :: bool
  ocAdmin :: string

definition pageNormalMax :: "onChainView option \<Rightarrow> int" where "pageNormalMax oc = case_option 30 ocNormalMax oc"
definition pageBonusMax :: "onChainView option \<Rightarrow> int" where "pageBonusMax oc = case_option 10 ocBonusMax oc"

definition pagePaused :: "onChainView option \<Rightarrow> bool option \<Rightarrow> bool" where
  "pagePaused oc api = (case oc of Some v \<Rightarrow> ocPaused v | None \<Rightarrow> case_option False id api)"

definition totalCostUnits :: "onChainView option \<Rightarrow> basket \<Rightarrow> int" where
  "totalCostUnits oc s = int (length (staged s)) * case_option 1000000 ocTicketPrice oc
     + calculateRelayFee (int (length (staged s)))"

definition cannotAfford :: "onChainView option \<Rightarrow> int option \<Rightarrow> basket \<Rightarrow> bool" where
  "cannotAfford oc bal s = (case bal of None \<Rightarrow> False | Some b \<Rightarrow> staged s \<noteq> [] \<and> b < totalCostUnits oc s)"

definition allComplete :: "onChainView option \<Rightarrow> basket \<Rightarrow> bool" where
  "allComplete oc s = (staged s \<noteq> [] \<and> list_all (\<lambda>t. isTicketComplete t (pageNormalMax oc) (pageBonusMax oc)) (staged s))"

definition setCount :: "nat \<Rightarrow> (nat \<Rightarrow> rat) \<Rightarrow> onChainView option \<Rightarrow> int \<Rightarrow> basket \<Rightarrow> basket option" where
  "setCount fuel rnd oc n =
     syncStagedCount fuel rnd (max 0 (min n (int MAX_STAGED_TICKETS))) (pageNormalMax oc) (pageBonusMax oc)"

text \<open>What the count box keeps of the typed text, and the count it sets.\<close>

definition countInput :: "string \<Rightarrow> string \<times> int option" where
  "countInput typed =
     (let digits = take (length (bigIntToString (int MAX_STAGED_TICKETS))) (filter isDigit typed);
          n = min (digitsVal 0 digits) (int MAX_STAGED_TICKETS)
      in if digits = [] then ([], None) else (bigIntToString n, Some n))"

definition seedBasket ::
  "nat \<Rightarrow> (nat \<Rightarrow> rat) \<Rightarrow> onChainView option \<Rightarrow> bool \<Rightarrow> basket \<Rightarrow> (bool \<times> basket) option" where
  "seedBasket fuel rnd oc seeded s =
     (if seeded \<or> oc = None \<or> staged s \<noteq> [] then Some (seeded, s)
      else map_option (Pair True) (syncStagedCount fuel rnd 1 (pageNormalMax oc) (pageBonusMax oc) s))"

section \<open>Instructions\<close>

text \<open>\<open>Buffer.from\<close> keeps the low byte of each number.\<close>

record ixTicket =
  ixNormals :: "8 word list"
  ixBonus :: int

definition formatTicket :: "stagedTicket \<Rightarrow> ixTicket" where
  "formatTicket t = \<lparr> ixNormals = map word_of_int (stNormals t), ixBonus = case_option 0 id (stBonus t) \<rparr>"

definition buildTransactions :: "stagedTicket list \<Rightarrow> ixTicket list list list" where
  "buildTransactions ts = map (\<lambda>tx. map (map formatTicket) (chunksOf MAX_TICKETS_PER_IX tx)) (chunksOf MAX_TICKETS_PER_IX ts)"

definition buyTickets ::
  "(ixTicket list list list \<Rightarrow> (string, string list) result) \<Rightarrow> stagedTicket list \<Rightarrow> (string, string list) result" where
  "buyTickets sendAll ts =
     (if list_ex (\<lambda>t. length (stNormals t) \<noteq> NORMALS_PER_TICKET \<or> stBonus t = None) ts
      then Inl ''One or more staged tickets are missing numbers'' else sendAll (buildTransactions ts))"

datatype buyOutcome = NotTried | Bought "string list" | BuyFailed string

definition handleBuy ::
  "(ixTicket list list list \<Rightarrow> (string, string list) result) \<Rightarrow> bool \<Rightarrow> onChainView option \<Rightarrow> bool option \<Rightarrow>
   basket \<Rightarrow> buyOutcome \<times> basket" where
  "handleBuy sendAll hasWallet oc api s =
     (if \<not> hasWallet \<or> oc = None \<or> (case oc of Some v \<Rightarrow> ocAdmin v = [] | None \<Rightarrow> True) \<or> \<not> allComplete oc s
         \<or> length (staged s) > MAX_STAGED_TICKETS \<or> pagePaused oc api then (NotTried, s)
      else case buyTickets sendAll (staged s) of Inl e \<Rightarrow> (BuyFailed e, s) | Inr txs \<Rightarrow> (Bought txs, clearTickets s))"

section \<open>The backend's check of the same tickets\<close>

datatype quoteReply = Quoted "json option" | Bad400 string | Missing404 | Unavailable503 string | Broken500

record quoteEnv =
  qNow :: int
  qRewardWallet :: string
  qIsKey :: "json \<Rightarrow> bool"

text \<open>\<open>v.length\<close> and \<open>v[i]\<close> of a value of the body.\<close>

definition lengthProp :: "json \<Rightarrow> json option" where
  "lengthProp v = (case v of JArr xs \<Rightarrow> Some (JNum (of_nat (length xs)))
     | JStr s \<Rightarrow> Some (JNum (of_nat (length s))) | JObj kvs \<Rightarrow> map_of kvs ''length'' | _ \<Rightarrow> None)"

definition itemAt :: "nat \<Rightarrow> json \<Rightarrow> json option" where
  "itemAt i v = (case v of JArr xs \<Rightarrow> (if i < length xs then Some (xs ! i) else None)
     | JStr s \<Rightarrow> (if i < length s then Some (JStr [s ! i]) else None)
     | JObj kvs \<Rightarrow> map_of kvs (bigIntToString (int i)) | _ \<Rightarrow> None)"

fun quoteBalls :: "int \<Rightarrow> rat option \<Rightarrow> json list \<Rightarrow> quoteReply option" where
  "quoteBalls nm prev [] = None"
| "quoteBalls nm prev (JNum b # bs) =
     (if b < 1 \<or> b > of_int nm then Some (Bad400 ''normal ball out of bounds'')
      else if (case prev of None \<Rightarrow> False | Some p \<Rightarrow> b \<le> p)
        then Some (Bad400 ''normal balls must be unique and sorted ascending'')
      else quoteBalls nm (Some b) bs)"
| "quoteBalls nm prev (b # bs) = Some (Bad400 ''normal ball must be a number'')"

definition quoteTicket :: "int \<Rightarrow> int \<Rightarrow> json option \<Rightarrow> quoteReply option" where
  "quoteTicket nm bm t =
     (case t of None \<Rightarrow> Some Broken500 | Some JNull \<Rightarrow> Some Broken500
      | Some v \<Rightarrow>
        (case getProp ''normals'' v of
           Some (JArr ns) \<Rightarrow>
             (if length ns \<noteq> 5 then Some (Bad400 ''must have exactly 5 normal numbers'')
              else case getProp ''bonusball'' v of
                Some (JNum b) \<Rightarrow>
                  (if b < 1 \<or> b > of_int bm then Some (Bad400 ''bonus ball out of bounds'') else quoteBalls nm None ns)
              | _ \<Rightarrow> Some (Bad400 ''bonus ball out of bounds''))
         | _ \<Rightarrow> Some (Bad400 ''normals must be an array'')))"

fun quoteTickets :: "int \<Rightarrow> int \<Rightarrow> json \<Rightarrow> nat \<Rightarrow> nat \<Rightarrow> quoteReply option" where
  "quoteTickets nm bm v i 0 = None"
| "quoteTickets nm bm v i (Suc n) =
     (case quoteTicket nm bm (itemAt i v) of Some r \<Rightarrow> Some r | None \<Rightarrow> quoteTickets nm bm v (Suc i) n)"

text \<open>The number of indices below \<open>v.length\<close>, which a comparison reads as a number.\<close>

definition loopCount :: "json \<Rightarrow> nat" where
  "loopCount v = (case Option.bind (lengthProp v) numberOfJson of None \<Rightarrow> 0 | Some r \<Rightarrow> nat \<lceil>r\<rceil>)"

definition quoteRoute :: "quoteEnv \<Rightarrow> json \<Rightarrow> world \<Rightarrow> quoteReply" where
  "quoteRoute env body w =
     (case (getProp ''tickets'' body, getProp ''userSolanaAddress'' body, getProp ''referrers'' body,
            getProp ''referralSplitBps'' body) of
        (Some ts, Some user, Some refs, Some bps) \<Rightarrow>
          (if \<not> truthy (Some ts) \<or> \<not> truthy (Some user) \<or> \<not> truthy (Some refs) \<or> \<not> truthy (Some bps)
             then Bad400 ''Invalid request''
           else if isProtocolPaused w then Unavailable503 ''Protocol is paused for epoch rollover''
           else case roundCache w of None \<Rightarrow> Missing404
             | Some r \<Rightarrow>
               if lengthProp ts = Some (JNum 0) then Bad400 ''No tickets provided''
               else if \<not> qIsKey env user then Bad400 ''Invalid Solana public key format''
               else if lengthProp refs \<noteq> Some (JNum 1) \<or> lengthProp bps \<noteq> Some (JNum 1)
                 then Bad400 ''Invalid referral structure: exactly one referrer allowed''
               else if itemAt 0 refs \<noteq> Some (JStr (qRewardWallet env)) then Bad400 ''Unauthorized referrer wallet''
               else if itemAt 0 bps \<noteq> Some (JNum 10000) then Bad400 ''Referral split must be 10000 BPS''
               else if isRoundLocked (qNow env) r then Unavailable503 ''Round is locked''
               else if rsEndedAt r < qNow env then Unavailable503 ''Current round has ended''
               else case quoteTickets (rsNormalsMax r) (rsBonusballMax r) ts 0 (loopCount ts) of
                 Some reply \<Rightarrow> reply | None \<Rightarrow> Quoted (lengthProp ts))
      | _ \<Rightarrow> (if body = JNull then Broken500 else Bad400 ''Invalid request''))"

section \<open>Reachable baskets\<close>

definition ticketOk :: "stagedTicket \<Rightarrow> bool" where
  "ticketOk t = (sorted (stNormals t) \<and> distinct (stNormals t) \<and> length (stNormals t) \<le> NORMALS_PER_TICKET)"

definition basketOk :: "basket \<Rightarrow> bool" where
  "basketOk s = (length (staged s) \<le> MAX_STAGED_TICKETS \<and> list_all ticketOk (staged s))"

inductive basketReach :: "(nat \<Rightarrow> rat) \<Rightarrow> basket \<Rightarrow> bool" for rnd where
  b_empty: "basketReach rnd \<lparr> staged = [], rndPos = p \<rparr>"
| b_remove: "basketReach rnd s \<Longrightarrow> basketReach rnd (removeTicket i s)"
| b_clear: "basketReach rnd s \<Longrightarrow> basketReach rnd (clearTickets s)"
| b_sync: "basketReach rnd s \<Longrightarrow> syncStagedCount fuel rnd n nm bm s = Some s' \<Longrightarrow> basketReach rnd s'"
| b_shuffle: "basketReach rnd s \<Longrightarrow> shuffleTicket fuel rnd i nm bm s = Some s' \<Longrightarrow> basketReach rnd s'"
| b_blank: "basketReach rnd s \<Longrightarrow> basketReach rnd (clearTicketBalls i s)"
| b_normal: "basketReach rnd s \<Longrightarrow> basketReach rnd (toggleTicketNormal i n s)"
| b_bonus: "basketReach rnd s \<Longrightarrow> basketReach rnd (toggleTicketBonus i n s)"
| b_shuffle_all: "basketReach rnd s \<Longrightarrow> shuffleAllTickets fuel rnd nm bm s = Some s' \<Longrightarrow> basketReach rnd s'"
| b_blank_all: "basketReach rnd s \<Longrightarrow> basketReach rnd (clearAllTicketBalls s)"

lemma drawNormals_ok:
  "drawNormals fuel rnd m ns pos = Some (ns', p) \<Longrightarrow> distinct ns \<Longrightarrow> length ns \<le> NORMALS_PER_TICKET \<Longrightarrow>
   distinct ns' \<and> length ns' = NORMALS_PER_TICKET \<and> (\<forall>n \<in> set ns'. n \<in> set ns \<or> (\<exists>k. n = draw rnd k m))"
proof (induction fuel arbitrary: ns pos)
  case 0
  then show ?case by (simp add: drawNormals.simps [of 0] split: if_splits)
next
  case (Suc f)
  let ?n = "draw rnd pos m"
  let ?ns = "if ?n \<in> set ns then ns else ns @ [?n]"
  show ?case
  proof (cases "NORMALS_PER_TICKET \<le> length ns")
    case True
    then show ?thesis using Suc.prems by (simp add: drawNormals.simps [of "Suc f"])
  next
    case False
    then have "drawNormals f rnd m ?ns (Suc pos) = Some (ns', p)"
      using Suc.prems by (simp add: drawNormals.simps [of "Suc f"] Let_def)
    moreover have "distinct ?ns" "length ?ns \<le> NORMALS_PER_TICKET" using Suc.prems False by auto
    ultimately have "distinct ns' \<and> length ns' = NORMALS_PER_TICKET \<and> (\<forall>n \<in> set ns'. n \<in> set ?ns \<or> (\<exists>k. n = draw rnd k m))"
      by (rule Suc.IH)
    then show ?thesis by (auto split: if_splits)
  qed
qed

lemma quickPick_ok: "generateQuickPick fuel rnd nm bm pos = Some (t, p) \<Longrightarrow> ticketOk t"
  using drawNormals_ok [of fuel rnd nm "[]" pos]
  by (auto simp: generateQuickPick_def ticketOk_def)

lemma quickPicks_ok:
  "quickPicks fuel rnd nm bm k pos = Some (ts, p) \<Longrightarrow> length ts = k \<and> list_all ticketOk ts"
  by (induction k arbitrary: pos ts) (auto simp: quickPick_ok split: option.splits)

lemma mapAt_ok: "basketOk s \<Longrightarrow> (\<And>t. ticketOk t \<Longrightarrow> ticketOk (f t)) \<Longrightarrow> basketOk (mapAt i f s)"
  by (auto simp: basketOk_def mapAt_def list_all_iff in_set_enumerate_eq)

lemma toggleNormal_ok: "ticketOk t \<Longrightarrow> ticketOk (toggleNormal n t)"
  by (auto simp: ticketOk_def toggleNormal_def sorted_wrt_filter NORMALS_PER_TICKET_def
      intro: le_trans [OF length_filter_le] distinct_filter)

lemma grow_le: "a \<le> m \<Longrightarrow> b \<le> m \<Longrightarrow> a + (b - a) \<le> (m :: nat)"
  by simp

lemma basketReach_ok: "basketReach rnd s \<Longrightarrow> basketOk s"
proof (induction rule: basketReach.induct)
  case (b_remove s i)
  have "length (filter (\<lambda>p. int (fst p) \<noteq> i) (enumerate 0 (staged s))) \<le> length (staged s)"
    using length_filter_le [of _ "enumerate 0 (staged s)"] by (metis length_enumerate)
  then show ?case using b_remove.IH by (auto simp: basketOk_def removeTicket_def list_all_iff in_set_enumerate_eq)
next
  case (b_sync s fuel n nm bm s')
  have n: "nat (max 0 (min n (int MAX_STAGED_TICKETS))) \<le> MAX_STAGED_TICKETS" by linarith
  from b_sync n show ?case
    by (auto simp: syncStagedCount_def Let_def basketOk_def list_all_iff simp del: nat_le_iff split: if_splits
        dest!: quickPicks_ok in_set_takeD intro: grow_le)
next
  case (b_shuffle s fuel i nm bm s')
  then show ?case
    using mapAt_ok [OF b_shuffle.IH] quickPick_ok
    by (auto simp: shuffleTicket_def basketOk_def split: if_splits)
next
  case (b_shuffle_all s fuel nm bm s')
  then show ?case by (auto simp: shuffleAllTickets_def basketOk_def dest!: quickPicks_ok)
next
  case (b_blank s i)
  then show ?case unfolding clearTicketBalls_def by (intro mapAt_ok) (simp_all add: emptyTicket_def ticketOk_def)
next
  case (b_normal s i n)
  then show ?case unfolding toggleTicketNormal_def by (intro mapAt_ok toggleNormal_ok)
next
  case (b_bonus s i n)
  then show ?case unfolding toggleTicketBonus_def by (intro mapAt_ok) (simp_all add: toggleBonus_def ticketOk_def)
qed (simp_all add: clearTickets_def clearAllTicketBalls_def basketOk_def list_all_iff emptyTicket_def ticketOk_def)

section \<open>What is bought is valid\<close>

lemma complete_iff:
  assumes "ticketOk t"
  shows "isTicketComplete t nm bm \<longleftrightarrow> length (stNormals t) = 5 \<and> (\<forall>n \<in> set (stNormals t). 1 \<le> n \<and> n \<le> nm)
    \<and> (\<exists>b. stBonus t = Some b \<and> 1 \<le> b \<and> b \<le> bm)"
proof -
  have "list_ex (\<lambda>n. n < 1 \<or> n > nm) (stNormals t) \<longleftrightarrow> \<not> (\<forall>n \<in> set (stNormals t). 1 \<le> n \<and> n \<le> nm)"
    by (auto simp: list_ex_iff not_le)
  then show ?thesis
    using assms by (cases "stBonus t")
      (simp_all add: isTicketComplete_def validateTicket_def NORMALS_PER_TICKET_def ticketOk_def distinct_remdups_id
        not_less)
qed

text \<open>The check of \<open>buy_ticket\<close> in the program: five strictly ascending numbers in range, the bonus in range.\<close>

definition accepted :: "int \<Rightarrow> int \<Rightarrow> ixTicket \<Rightarrow> bool" where
  "accepted nm bm x = (length (ixNormals x) = 5 \<and> sorted_wrt (<) (map uint (ixNormals x))
     \<and> list_all (\<lambda>n. 1 \<le> uint n \<and> uint n \<le> nm) (ixNormals x) \<and> 1 \<le> ixBonus x \<and> ixBonus x \<le> bm)"

lemma formatTicket_accepted:
  assumes "ticketOk t" "isTicketComplete t nm bm" "nm \<le> 255"
  shows "accepted nm bm (formatTicket t)"
proof -
  have c: "length (stNormals t) = 5" "\<forall>n \<in> set (stNormals t). 1 \<le> n \<and> n \<le> nm" "\<exists>b. stBonus t = Some b \<and> 1 \<le> b \<and> b \<le> bm"
    using assms complete_iff by blast+
  have u: "uint (word_of_int n :: 8 word) = n" if "n \<in> set (stNormals t)" for n
    using that c(2) assms(3) by (auto simp: uint_word_of_int)
  then have m: "map uint (ixNormals (formatTicket t)) = stNormals t"
    by (simp add: formatTicket_def comp_def map_idI)
  have "sorted_wrt (<) (stNormals t)" using assms(1) by (simp add: ticketOk_def strict_sorted_iff)
  then show ?thesis
    using c u m by (auto simp: accepted_def formatTicket_def list_all_iff)
qed

lemma chunksOf_single: "c \<in> set (chunksOf n xs) \<Longrightarrow> 0 < n \<Longrightarrow> chunksOf n c = [c]"
  using chunksOf_bounds [of n c xs] by (simp add: chunksOf_step)

lemma buildTransactions_single:
  "buildTransactions ts = map (\<lambda>tx. [map formatTicket tx]) (chunksOf MAX_TICKETS_PER_IX ts)"
  by (simp add: buildTransactions_def chunksOf_single MAX_TICKETS_PER_IX_def)

text \<open>
  A purchase that goes out from the page is one the program accepts: from any sequence of edits
  of the basket, when the buy button sends, every ticket has five strictly ascending numbers and a
  bonus number in the program's ranges, the transactions hold exactly the staged tickets in order,
  with one instruction each of at most 65 tickets, at most four of them, and the basket is emptied.
\<close>
theorem purchase_valid:
  assumes "basketReach rnd s" "handleBuy sendAll c (Some oc) api s = (Bought sigs, s')" "ocNormalMax oc \<le> 255"
  shows "sendAll (buildTransactions (staged s)) = Inr sigs \<and> staged s' = []
    \<and> concat (concat (buildTransactions (staged s))) = map formatTicket (staged s)
    \<and> list_all (accepted (ocNormalMax oc) (ocBonusMax oc)) (map formatTicket (staged s))
    \<and> list_all (\<lambda>tx. length tx = 1 \<and> length (hd tx) \<le> MAX_TICKETS_PER_IX) (buildTransactions (staged s))
    \<and> length (buildTransactions (staged s)) \<le> 4"
proof (intro conjI)
  have b: "basketOk s" by (rule basketReach_ok [OF assms(1)])
  have go: "allComplete (Some oc) s" "buyTickets sendAll (staged s) = Inr sigs" "s' = clearTickets s"
    using assms(2) by (auto simp: handleBuy_def split: if_splits sum.splits)
  show "sendAll (buildTransactions (staged s)) = Inr sigs" using go(2) by (simp add: buyTickets_def split: if_splits)
  show "staged s' = []" using go(3) by (simp add: clearTickets_def)
  have "concat (concat (buildTransactions ts)) = map formatTicket (concat (chunksOf MAX_TICKETS_PER_IX ts))" for ts
    unfolding buildTransactions_single by (induction "chunksOf MAX_TICKETS_PER_IX ts" arbitrary: ts) (auto simp: map_concat comp_def)
  then show "concat (concat (buildTransactions (staged s))) = map formatTicket (staged s)"
    by (simp add: concat_chunksOf MAX_TICKETS_PER_IX_def)
  show "list_all (accepted (ocNormalMax oc) (ocBonusMax oc)) (map formatTicket (staged s))"
    using b go(1) formatTicket_accepted assms(3)
    by (auto simp: basketOk_def allComplete_def list_all_iff pageNormalMax_def pageBonusMax_def)
  show "list_all (\<lambda>tx. length tx = 1 \<and> length (hd tx) \<le> MAX_TICKETS_PER_IX) (buildTransactions (staged s))"
    using chunksOf_bounds [of MAX_TICKETS_PER_IX _ "staged s"]
    by (auto simp: buildTransactions_single list_all_iff MAX_TICKETS_PER_IX_def)
  show "length (buildTransactions (staged s)) \<le> 4"
  proof -
    have "length (staged s) + 65 - 1 \<le> 264" using b by (simp add: basketOk_def MAX_STAGED_TICKETS_def)
    then have "(length (staged s) + 65 - 1) div 65 \<le> 264 div 65" by (rule div_le_mono)
    then show ?thesis by (simp add: buildTransactions_def length_chunksOf MAX_TICKETS_PER_IX_def)
  qed
qed

definition constRnd :: "nat \<Rightarrow> rat" where "constRnd k = of_nat (k mod 7) / 7"

definition oneTicket :: basket where
  "oneTicket = \<lparr> staged = [\<lparr> stNormals = [1, 5, 9, 13, 18], stBonus = Some 8, stQuick = True \<rparr>], rndPos = 6 \<rparr>"

definition chainView :: onChainView where
  "chainView = \<lparr> ocNormalMax = 30, ocBonusMax = 10, ocTicketPrice = 1000000, ocPaused = False, ocAdmin = ''admin'' \<rparr>"

lemma oneTicket_sync: "syncStagedCount 9 constRnd 1 30 10 \<lparr> staged = [], rndPos = 0 \<rparr> = Some oneTicket"
  by code_simp

lemma oneTicket_reach: "basketReach constRnd oneTicket"
  by (rule b_sync [OF b_empty oneTicket_sync])

lemma oneTicket_buy:
  "handleBuy (\<lambda>txs. Inr [''sig'']) True (Some chainView) None oneTicket = (Bought [''sig''], oneTicket\<lparr>staged := []\<rparr>)"
  by code_simp

theorem purchase_valid_witness:
  "concat (concat (buildTransactions (staged oneTicket))) = map formatTicket (staged oneTicket)
   \<and> list_all (accepted 30 10) (map formatTicket (staged oneTicket))"
  using purchase_valid [OF oneTicket_reach oneTicket_buy] by (simp add: chainView_def)

section \<open>Two checks of one ticket\<close>

definition ticketJson :: "stagedTicket \<Rightarrow> json" where
  "ticketJson t = JObj [(''normals'', JArr (map (\<lambda>n. JNum (of_int n)) (stNormals t))),
     (''bonusball'', case stBonus t of None \<Rightarrow> JNull | Some b \<Rightarrow> JNum (of_int b))]"

lemma quoteBalls_iff:
  "quoteBalls nm prev (map (\<lambda>n. JNum (of_int n)) ns) = None \<longleftrightarrow>
     (\<forall>n \<in> set ns. 1 \<le> n \<and> n \<le> nm) \<and> sorted_wrt (<) ns
     \<and> (ns \<noteq> [] \<longrightarrow> (case prev of None \<Rightarrow> True | Some p \<Rightarrow> p < of_int (hd ns)))"
proof (induction ns arbitrary: prev)
  case (Cons n ns)
  have c: "(of_int n < (1 :: rat)) = (n < 1)" "((of_int nm :: rat) < of_int n) = (nm < n)"
    by (metis of_int_1 of_int_less_iff) simp
  have s: "sorted_wrt (<) (n # ns) \<longleftrightarrow> sorted_wrt (<) ns \<and> (ns \<noteq> [] \<longrightarrow> n < hd ns)"
    by (cases ns) auto
  show ?case
    unfolding s using Cons.IH [of "Some (of_int n)"] by (auto simp: c not_less split: option.splits)
qed simp

text \<open>
  The browser's and the backend's check of a ticket agree: on every ticket any sequence of edits
  can stage, the quote route's test passes exactly when the page counts the ticket as complete.
\<close>
theorem quote_agrees_with_page:
  assumes "basketReach rnd s" "t \<in> set (staged s)"
  shows "quoteTicket nm bm (Some (ticketJson t)) = None \<longleftrightarrow> isTicketComplete t nm bm"
proof -
  have ok: "ticketOk t" using basketReach_ok [OF assms(1)] assms(2) by (simp add: basketOk_def list_all_iff)
  have b: "(of_int b < (1 :: rat)) = (b < 1)" for b by (metis of_int_1 of_int_less_iff)
  have "sorted_wrt (<) (stNormals t)" using ok by (simp add: ticketOk_def strict_sorted_iff)
  then show ?thesis
    unfolding complete_iff [OF ok]
    by (cases "stBonus t") (auto simp: quoteTicket_def ticketJson_def quoteBalls_iff b not_less)
qed

theorem quote_agrees_with_page_witness:
  "quoteTicket 30 10 (Some (ticketJson (hd (staged oneTicket)))) = None"
proof -
  have t: "hd (staged oneTicket) \<in> set (staged oneTicket)" by (simp add: oneTicket_def)
  have "isTicketComplete (hd (staged oneTicket)) 30 10" by code_simp
  then show ?thesis using quote_agrees_with_page [OF oneTicket_reach t] by blast
qed

text \<open>The page's check alone does not ask for ascending numbers, and the quote takes fractions.\<close>

lemma validateTicket_unordered: "validateTicket [5, 4, 3, 2, 1] (Some 1) 30 10 = None"
  by code_simp

lemma quoteTicket_fraction:
  "quoteTicket 30 10 (Some (JObj [(''normals'', JArr [JNum 1, JNum (3 / 2), JNum 2, JNum 3, JNum 4]), (''bonusball'', JNum 1)])) = None"
  by (simp add: quoteTicket_def)

lemma quote_length_less_tickets:
  "loopCount (JObj []) = 0 \<and> quoteTickets nm bm (JObj []) 0 (loopCount (JObj [])) = None"
  by (simp add: loopCount_def lengthProp_def)

end
