(* ===== verification/View.thy ===== *)
theory View
  imports Pages TicketBuilder
begin

text \<open>
  What the browser draws. A React component is a function from its properties and its state to a tree
  of elements; an element has its classes, its attributes and what a click on it does. The icons'
  drawings, keys and style sheets are left out. Text outside ASCII is written with the nearest ASCII
  text. Here: the shared components (\<open>components/NumberBall\<close>, \<open>TicketRow\<close>, \<open>TicketEditor\<close>,
  \<open>BallReveal\<close>, \<open>EmptyState\<close>, \<open>WalletGate\<close>, \<open>TransactionOverlay\<close>, \<open>CountdownBadge\<close>).
\<close>

section \<open>Elements\<close>

datatype 'e attr =
    Cls "string list"
  | Click 'e
  | Change "string \<Rightarrow> 'e"
  | Blur 'e
  | Disabled bool
  | Attr string string

datatype 'e html = Txt string | El string "'e attr list" "'e html list"

text \<open>\<open>condition && element\<close> as a child.\<close>

definition onlyIf :: "bool \<Rightarrow> 'a list \<Rightarrow> 'a list" where
  "onlyIf b xs = (if b then xs else [])"

definition classes :: "string list \<Rightarrow> 'e attr" where
  "classes cs = Cls (filter (\<lambda>c. c \<noteq> []) cs)"

definition box :: "string \<Rightarrow> 'e html list \<Rightarrow> 'e html" where "box c = El ''div'' [Cls [c]]"
definition label :: "string \<Rightarrow> string \<Rightarrow> 'e html" where "label c s = El ''span'' [Cls [c]] [Txt s]"
definition para :: "string \<Rightarrow> string \<Rightarrow> 'e html" where "para c s = El ''p'' [Cls [c]] [Txt s]"

definition isDisabled :: "'e attr list \<Rightarrow> bool" where
  "isDisabled as = list_ex (\<lambda>a. case a of Disabled d \<Rightarrow> d | _ \<Rightarrow> False) as"

definition attrClick :: "'e attr \<Rightarrow> 'e option" where
  "attrClick a = (case a of Click e \<Rightarrow> Some e | _ \<Rightarrow> None)"

text \<open>What a user can do by clicking, in the order of the page.\<close>

fun clicks :: "'e html \<Rightarrow> 'e list" where
  "clicks (Txt s) = []"
| "clicks (El t as hs) = (if isDisabled as then [] else List.map_filter attrClick as) @ concat (map clicks hs)"

definition hasClass :: "string \<Rightarrow> 'e attr list \<Rightarrow> bool" where
  "hasClass c as = list_ex (\<lambda>a. case a of Cls cs \<Rightarrow> c \<in> set cs | _ \<Rightarrow> False) as"

fun textOf :: "'e html \<Rightarrow> string" where
  "textOf (Txt s) = s"
| "textOf (El t as hs) = concat (map textOf hs)"

text \<open>The texts of the elements that carry a class.\<close>

fun marked :: "string \<Rightarrow> 'e html \<Rightarrow> string list" where
  "marked c (Txt s) = []"
| "marked c (El t as hs) = (if hasClass c as then [concat (map textOf hs)] else []) @ concat (map (marked c) hs)"

lemmas element_defs = box_def label_def para_def onlyIf_def classes_def

lemma isDisabled_simps [simp]:
  "isDisabled [] = False" "isDisabled (Disabled d # as) = (d \<or> isDisabled as)"
  "isDisabled (Cls cs # as) = isDisabled as" "isDisabled (Click e # as) = isDisabled as"
  "isDisabled (Attr k v # as) = isDisabled as" "isDisabled (Change f # as) = isDisabled as"
  "isDisabled (Blur e # as) = isDisabled as"
  by (simp_all add: isDisabled_def)

lemma attrClick_simps [simp]:
  "attrClick (Click e) = Some e" "attrClick (Cls cs) = None" "attrClick (Disabled d) = None"
  "attrClick (Attr k v) = None" "attrClick (Change f) = None" "attrClick (Blur e) = None"
  by (simp_all add: attrClick_def)

lemma hasClass_simps [simp]:
  "hasClass c [] = False" "hasClass c (Cls cs # as) = (c \<in> set cs \<or> hasClass c as)"
  "hasClass c (Click e # as) = hasClass c as" "hasClass c (Disabled d # as) = hasClass c as"
  "hasClass c (Attr k v # as) = hasClass c as" "hasClass c (Change f # as) = hasClass c as"
  "hasClass c (Blur e # as) = hasClass c as"
  by (simp_all add: hasClass_def)

lemma map_filter_simps' [simp]:
  "List.map_filter f [] = []"
  "List.map_filter f (x # xs) = (case f x of None \<Rightarrow> List.map_filter f xs | Some y \<Rightarrow> y # List.map_filter f xs)"
  by (simp_all add: List.map_filter_def split: option.splits)

section \<open>Number balls and ticket rows\<close>

record ballLook =
  blBonus :: bool
  blSize :: string
  blSelected :: bool
  blWinning :: bool
  blDim :: bool

definition plainBall :: "string \<Rightarrow> ballLook" where
  "plainBall sz = \<lparr> blBonus = False, blSize = sz, blSelected = False, blWinning = False, blDim = False \<rparr>"

definition bonusLook :: "string \<Rightarrow> ballLook" where
  "bonusLook sz = (plainBall sz)\<lparr>blBonus := True\<rparr>"

definition numberBall :: "int \<Rightarrow> ballLook \<Rightarrow> 'e option \<Rightarrow> 'e html" where
  "numberBall n l onClick =
     (let cs = classes [''ball'', blSize l, if blBonus l then ''bonus'' else ''normal'',
                 if blSelected l then ''selected'' else [], if blWinning l then ''winning'' else [],
                 if blDim l then ''dim'' else [], if onClick \<noteq> None then ''clickable'' else []]
      in case onClick of Some e \<Rightarrow> El ''button'' [Attr ''type'' ''button'', cs, Click e] [Txt (bigIntToString n)]
         | None \<Rightarrow> El ''div'' [cs] [Txt (bigIntToString n)])"

text \<open>The balls of one ticket, none of them highlighted.\<close>

definition plainBalls :: "string \<Rightarrow> int list \<Rightarrow> int \<Rightarrow> 'e html list" where
  "plainBalls sz ns b = map (\<lambda>n. numberBall n (plainBall sz) None) ns @ [numberBall b (bonusLook sz) None]"

fun variantName :: "rowVariant \<Rightarrow> string" where
  "variantName VWin = ''win''" | "variantName VFree = ''free''" | "variantName VPending = ''pending''"
| "variantName VLoss = ''loss''" | "variantName VNeutral = ''neutral''"

definition ticketRow :: "int list \<Rightarrow> int \<Rightarrow> string \<Rightarrow> rowVariant \<Rightarrow> int list option \<Rightarrow> int option \<Rightarrow> 'e html" where
  "ticketRow ns b status variant wn wb =
     (let hasData = (wn \<noteq> None \<and> wb \<noteq> None); dim = (\<not> hasData \<and> variant = VLoss)
      in box ''row''
        [box ''balls''
           (map (\<lambda>n. numberBall n ((plainBall ''sm'')\<lparr>blDim := dim, blWinning := hasData \<and> n \<in> set (the wn)\<rparr>) None) ns
            @ [numberBall b ((bonusLook ''sm'')\<lparr>blDim := dim, blWinning := hasData \<and> Some b = wb\<rparr>) None]),
         El ''span'' [Cls [''pill'', variantName variant]] [Txt status]])"

section \<open>Shared frames\<close>

definition emptyState :: "string \<Rightarrow> string \<Rightarrow> string \<Rightarrow> (string \<times> 'e) option \<Rightarrow> 'e html" where
  "emptyState icon title description action =
     box ''wrap''
       (onlyIf (icon \<noteq> []) [box ''icon'' [Txt icon]]
        @ [El ''h3'' [Cls [''title'']] [Txt title]]
        @ onlyIf (description \<noteq> []) [para ''description'' description]
        @ (case action of None \<Rightarrow> [] | Some (l, e) \<Rightarrow> [El ''button'' [Cls [''action''], Click e] [Txt l]]))"

definition walletGate :: "bool \<Rightarrow> string \<Rightarrow> string \<Rightarrow> 'e \<Rightarrow> 'e html list \<Rightarrow> 'e html list" where
  "walletGate hasWallet title description connect children =
     (if hasWallet then children
      else [box ''wrap''
        [box ''icon'' [Txt ''lock''], El ''h3'' [Cls [''title'']] [Txt title], para ''description'' description,
         El ''button'' [Cls [''button''], Click connect] [Txt ''Connect Wallet'']]])"

datatype txState = TxIdle | TxLoading | TxSuccess | TxError

definition coinLoader :: "string \<Rightarrow> string \<Rightarrow> 'e html" where
  "coinLoader sz cap = box ''wrap''
     ([El ''div'' [Cls [''canvasContainer'', sz]] []] @ onlyIf (cap \<noteq> []) [para ''label'' cap])"

definition overlayCard :: "string \<Rightarrow> string \<Rightarrow> string \<Rightarrow> 'e html" where
  "overlayCard icon c text = box ''card'' [box ''resultWrap''
     [El ''div'' [Cls [''iconCircle'', icon]] [El ''svg'' [] []], El ''p'' [Cls [''resultText'', c]] [Txt text]]]"

definition transactionOverlay :: "txState \<Rightarrow> string \<Rightarrow> string \<Rightarrow> 'e html list" where
  "transactionOverlay st successText errorText =
     (if st = TxIdle then []
      else [box ''overlay''
        (onlyIf (st = TxLoading) [coinLoader ''sm'' []]
         @ onlyIf (st = TxSuccess) [overlayCard ''iconSuccess'' ''successText'' successText]
         @ onlyIf (st = TxError) [overlayCard ''iconError'' ''errorText'' errorText])])"

definition countdownBadge :: "int \<Rightarrow> int option \<Rightarrow> string \<Rightarrow> 'e html" where
  "countdownBadge now target text =
     box ''badge''
       ([El ''span'' [Cls [''dot'']] []] @ onlyIf (text \<noteq> []) [label ''label'' (text @ '':'')]
        @ [label ''value'' (formatCountdown now target)])"

section \<open>The ticket editor\<close>

datatype editorEvent =
    Expand "nat option"
  | ToggleNormal nat int
  | ToggleBonus nat int
  | ShuffleTicket nat
  | ClearTicket nat
  | RemoveTicket nat
  | ShuffleAll
  | ClearAll
  | CloseEditor

definition iconButton :: "string list \<Rightarrow> editorEvent \<Rightarrow> string \<Rightarrow> editorEvent html" where
  "iconButton cs e aria =
     El ''button'' [Attr ''type'' ''button'', Cls (''iconButton'' # cs), Click e, Attr ''aria-label'' aria] [El ''svg'' [] []]"

definition editorBalls :: "stagedTicket \<Rightarrow> 'e html list" where
  "editorBalls t =
     map (\<lambda>j. if j < length (stNormals t) then numberBall (stNormals t ! j) (plainBall ''xs'') None
              else El ''div'' [Cls [''emptySlot'']] []) [0..<5]
     @ [case stBonus t of None \<Rightarrow> El ''div'' [Cls [''emptySlot'', ''emptySlotBonus'']] []
        | Some b \<Rightarrow> numberBall b (bonusLook ''xs'') None]"

text \<open>The numbers 1 to \<open>m\<close>.\<close>

definition ballRange :: "int \<Rightarrow> int list" where "ballRange m = map (\<lambda>k. int k + 1) [0..<nat m]"

definition editorGrid :: "nat \<Rightarrow> stagedTicket \<Rightarrow> int \<Rightarrow> int \<Rightarrow> editorEvent html list" where
  "editorGrid i t nm bm =
     [box ''grid'' (map (\<lambda>n. numberBall n ((plainBall ''xs'')\<lparr>blSelected := n \<in> set (stNormals t)\<rparr>) (Some (ToggleNormal i n)))
        (ballRange nm)),
      box ''grid'' (map (\<lambda>n. numberBall n ((bonusLook ''xs'')\<lparr>blSelected := stBonus t = Some n\<rparr>) (Some (ToggleBonus i n)))
        (ballRange bm))]
     @ onlyIf (isTicketComplete t nm bm) [para ''completeHint'' ''Ticket complete - pick a different number to change it.'']"

definition editorRow :: "int \<Rightarrow> int \<Rightarrow> nat option \<Rightarrow> nat \<times> stagedTicket \<Rightarrow> editorEvent html" where
  "editorRow nm bm expanded p =
     (let i = fst p; t = snd p; blank = (stNormals t = [] \<and> stBonus t = None); isExpanded = (expanded = Some i) in
      box ''rowWrap''
        ([box ''row''
           [(if blank
             then El ''button'' [Attr ''type'' ''button'', Cls [''quickFillRow''], Click (ShuffleTicket i),
                      Attr ''aria-label'' ''Quick pick this ticket'']
                    [El ''span'' [Cls [''quickFillButton'']] [El ''svg'' [] []], label ''quickFillLabel'' ''Quick pick this ticket'']
             else box ''rowBalls'' (editorBalls t)),
            box ''rowActions''
              [iconButton (onlyIf isExpanded [''iconButtonActive'']) (Expand (if isExpanded then None else Some i)) ''Edit numbers'',
               iconButton [] (ShuffleTicket i) ''Shuffle this ticket'',
               iconButton [] (ClearTicket i) ''Clear this ticket'',
               iconButton [''iconButtonDanger''] (RemoveTicket i) ''Remove this ticket'']]]
         @ onlyIf isExpanded [box ''expandedGrid'' (editorGrid i t nm bm)]))"

definition ticketEditor :: "stagedTicket list \<Rightarrow> int \<Rightarrow> int \<Rightarrow> nat option \<Rightarrow> editorEvent html" where
  "ticketEditor ts nm bm expanded =
     box ''panel''
       [box ''panelHeader''
          [label ''panelTitle'' ''Edit tickets'',
           box ''panelActions''
             [iconButton [] ClearAll ''Clear all tickets'', iconButton [] ShuffleAll ''Quick pick all tickets'',
              iconButton [] CloseEditor ''Close editor'']],
        box ''rows'' (map (editorRow nm bm expanded) (enumerate 0 ts))]"

section \<open>The reveal animation\<close>

definition NORMAL_DELAYS :: "int list" where "NORMAL_DELAYS = [400, 550, 620, 690, 760]"
definition BONUS_DELAY :: int where "BONUS_DELAY = 1500"
definition SETTLE_DELAY :: int where "SETTLE_DELAY = 650"

datatype revealStep = PopNormal nat | PopBonus | Complete

text \<open>The timers, with the time after the start at which each fires.\<close>

fun schedule :: "int \<Rightarrow> (int \<times> revealStep) list \<Rightarrow> (int \<times> revealStep) list" where
  "schedule elapsed [] = []"
| "schedule elapsed ((delay, cb) # rest) = (elapsed + delay, cb) # schedule (elapsed + delay) rest"

definition revealDelays :: "nat \<Rightarrow> (int \<times> revealStep) list" where
  "revealDelays n = map (\<lambda>i. (if i < length NORMAL_DELAYS then NORMAL_DELAYS ! i else 700, PopNormal i)) [0..<n]
     @ [(BONUS_DELAY, PopBonus), (SETTLE_DELAY, Complete)]"

definition revealTimers :: "nat \<Rightarrow> (int \<times> revealStep) list" where
  "revealTimers n = schedule 0 (revealDelays n)"

definition firedBy :: "nat \<Rightarrow> int \<Rightarrow> revealStep list" where
  "firedBy n t = map snd (filter (\<lambda>p. fst p \<le> t) (revealTimers n))"

definition revealedCount :: "nat \<Rightarrow> int \<Rightarrow> nat" where
  "revealedCount n t = length (filter (\<lambda>s. s \<noteq> Complete) (firedBy n t))"

definition revealSlot :: "bool \<Rightarrow> 'e html \<Rightarrow> string list \<Rightarrow> 'e html" where
  "revealSlot popped ball placeholder =
     El ''div'' [classes [''slot'', if popped then ''popped'' else []]] [if popped then ball else El ''div'' [Cls placeholder] []]"

definition ballReveal :: "int list \<Rightarrow> int \<Rightarrow> nat \<Rightarrow> 'e html" where
  "ballReveal normals bonus k =
     box ''row''
       (map (\<lambda>p. revealSlot (fst p < k) (numberBall (snd p) (plainBall ''md'') None) [''placeholder'']) (enumerate 0 normals)
        @ [revealSlot (k > length normals) (numberBall bonus (bonusLook ''md'') None) [''placeholder'', ''placeholderBonus'']])"

section \<open>What can be clicked\<close>

lemma clicks_simps [simp]:
  "clicks (box c hs) = concat (map clicks hs)" "clicks (label c s) = []" "clicks (para c s) = []"
  "concat (map clicks (onlyIf b hs)) = (if b then concat (map clicks hs) else [])"
  by (simp_all add: element_defs)

lemma clicks_numberBall [simp]: "clicks (numberBall n l e) = (case e of None \<Rightarrow> [] | Some x \<Rightarrow> [x])"
  by (simp add: numberBall_def Let_def classes_def split: option.splits)

lemma clicks_iconButton [simp]: "clicks (iconButton cs e a) = [e]"
  by (simp add: iconButton_def)

lemma clicks_editorBalls [simp]: "concat (map clicks (editorBalls t)) = []"
  by (simp add: editorBalls_def split: option.splits)

lemma clicks_editorGrid [simp]:
  "concat (map clicks (editorGrid i t nm bm)) = map (ToggleNormal i) (ballRange nm)
     @ map (ToggleBonus i) (ballRange bm)"
  by (simp add: editorGrid_def comp_def concat_map_singleton)

lemma set_ballRange: "set (ballRange m) = {n. 1 \<le> n \<and> n \<le> m}"
proof (intro equalityI subsetI)
  fix n assume "n \<in> {n. 1 \<le> n \<and> n \<le> m}"
  then show "n \<in> set (ballRange m)" unfolding ballRange_def set_map
    by (intro image_eqI [of _ _ "nat (n - 1)"]) auto
qed (auto simp: ballRange_def)

lemma clicks_editorRow:
  "set (clicks (editorRow nm bm ex (i, t))) =
     {Expand (if ex = Some i then None else Some i), ShuffleTicket i, ClearTicket i, RemoveTicket i}
     \<union> (if ex = Some i then {ToggleNormal i n |n. 1 \<le> n \<and> n \<le> nm} \<union> {ToggleBonus i n |n. 1 \<le> n \<and> n \<le> bm} else {})"
  by (cases "stNormals t = [] \<and> stBonus t = None") (auto simp: editorRow_def Let_def set_ballRange)

lemma bex_enumerate: "(\<exists>p \<in> set (enumerate 0 xs). P p) \<longleftrightarrow> (\<exists>i < length xs. P (i, xs ! i))"
proof
  assume "\<exists>i < length xs. P (i, xs ! i)"
  then obtain i where "i < length xs" "P (i, xs ! i)" by blast
  then show "\<exists>p \<in> set (enumerate 0 xs). P p" by (intro bexI [of _ "(i, xs ! i)"]) (simp_all add: in_set_enumerate_eq)
qed (auto simp: in_set_enumerate_eq)

text \<open>
  The editor offers exactly the edits of the tickets it shows: three buttons for the whole batch,
  per ticket its shuffle, clear, remove and expand buttons, and the balls 1 to the maximum of the one
  expanded ticket; so no click can name a ticket that is not staged or a ball out of range.
\<close>
theorem editor_offers:
  "e \<in> set (clicks (ticketEditor ts nm bm ex)) \<longleftrightarrow>
     e \<in> {ClearAll, ShuffleAll, CloseEditor}
     \<or> (\<exists>i < length ts. e \<in> {Expand (if ex = Some i then None else Some i), ShuffleTicket i, ClearTicket i, RemoveTicket i}
          \<or> ex = Some i \<and> (\<exists>n. 1 \<le> n \<and> n \<le> nm \<and> e = ToggleNormal i n \<or> 1 \<le> n \<and> n \<le> bm \<and> e = ToggleBonus i n))"
proof -
  have "set (clicks (ticketEditor ts nm bm ex)) = {ClearAll, ShuffleAll, CloseEditor}
    \<union> (\<Union>p \<in> set (enumerate 0 ts). set (clicks (editorRow nm bm ex p)))"
    by (auto simp: ticketEditor_def)
  then have "e \<in> set (clicks (ticketEditor ts nm bm ex)) \<longleftrightarrow> e \<in> {ClearAll, ShuffleAll, CloseEditor}
    \<or> (\<exists>i < length ts. e \<in> set (clicks (editorRow nm bm ex (i, ts ! i))))"
    by (simp only: Un_iff UN_iff bex_enumerate)
  then show ?thesis unfolding clicks_editorRow by (simp only: Un_iff) (cases ex; auto split: if_splits)
qed

section \<open>What is highlighted\<close>

lemma marked_simps [simp]:
  "marked c (box k hs) = (if c = k then [concat (map textOf hs)] else []) @ concat (map (marked c) hs)"
  "marked c (label k s) = (if c = k then [s] else [])" "marked c (para k s) = (if c = k then [s] else [])"
  by (simp_all add: element_defs)

lemma marked_winning_ball [simp]:
  "blSize l \<noteq> ''winning'' \<Longrightarrow>
   marked ''winning'' (numberBall n l e) = (if blWinning l then [bigIntToString n] else [])"
  by (auto simp: numberBall_def Let_def classes_def split: option.splits)

lemma concat_if: "concat (map (\<lambda>x. if P x then [f x] else []) xs) = map f (filter P xs)"
  by (induction xs) auto

lemma variantName_winning [simp]: "variantName v \<noteq> ''winning''"
  by (cases v) auto

lemma ticketRow_winning:
  "marked ''winning'' (ticketRow ns b status v (Some w) (Some wb)) =
     map bigIntToString (filter (\<lambda>n. n \<in> set w) ns) @ (if b = wb then [bigIntToString b] else [])"
  by (simp add: ticketRow_def Let_def comp_def plainBall_def bonusLook_def concat_if) (cases v; simp)

text \<open>
  The balls a ticket row highlights are the ones the ticket is graded by: they are the ticket's
  drawn normal balls in order and the bonus ball if drawn, and they determine the tier the settlement
  worker computes; without the drawn numbers nothing is highlighted.
\<close>
theorem highlights_are_the_tier:
  "marked ''winning'' (ticketRow ns b status v (Some w) (Some wb)) =
     map bigIntToString (filter (\<lambda>n. n \<in> set w) ns) @ (if b = wb then [bigIntToString b] else [])
   \<and> calcTierId ns b w wb = 2 * int (length (filter (\<lambda>n. n \<in> set w) ns)) + (if b = wb then 1 else 0)
   \<and> int (length (marked ''winning'' (ticketRow ns b status v (Some w) (Some wb))))
     = calcTierId ns b w wb div 2 + calcTierId ns b w wb mod 2
   \<and> marked ''winning'' (ticketRow ns b status v None wb') = []"
proof -
  have none: "marked ''winning'' (ticketRow ns b status v None wb') = []"
    by (simp add: ticketRow_def Let_def comp_def plainBall_def bonusLook_def) (cases v; simp)
  have "calcTierId ns b w wb = 2 * int (length (filter (\<lambda>n. n \<in> set w) ns)) + (if b = wb then 1 else 0)"
    by (simp add: calcTierId_def)
  then show ?thesis unfolding none ticketRow_winning by simp
qed

text \<open>The page gives the row the drawn numbers of the group, so the tier it shows is the graded one.\<close>

theorem highlights_sample:
  "marked ''winning'' (ticketRow [3, 9, 14, 20, 27] 8 ''x'' VWin (Some [27, 3, 1, 2, 4]) (Some 8)) = [''3'', ''27'', ''8'']"
  by code_simp

section \<open>The reveal runs in order\<close>

lemma schedule_later: "\<forall>d \<in> set ds. 0 < fst d \<Longrightarrow> p \<in> set (schedule a ds) \<Longrightarrow> a < fst p"
proof (induction a ds rule: schedule.induct)
  case (2 a delay cb rest)
  then have "0 < delay" by simp
  then show ?case using 2 by fastforce
qed simp

lemma schedule_prefix:
  "\<forall>d \<in> set ds. 0 < fst d \<Longrightarrow>
   filter (\<lambda>p. fst p \<le> t) (schedule a ds) = take (length (filter (\<lambda>p. fst p \<le> t) (schedule a ds))) (schedule a ds)"
proof (induction a ds rule: schedule.induct)
  case (2 a delay cb rest)
  show ?case
  proof (cases "a + delay \<le> t")
    case True
    then show ?thesis using 2 by simp
  next
    case False
    then have "filter (\<lambda>p. fst p \<le> t) (schedule (a + delay) rest) = []"
      using schedule_later [of rest _ "a + delay"] 2(2) by (fastforce simp: filter_empty_conv)
    then show ?thesis using False by simp
  qed
qed simp

lemma map_snd_schedule [simp]: "map snd (schedule a ds) = map snd ds"
  by (induction a ds rule: schedule.induct) auto

lemma schedule_ends: "\<forall>d \<in> set ds. 0 < fst d \<Longrightarrow> p \<in> set (schedule a ds) \<Longrightarrow> fst p \<le> a + sum_list (map fst ds)"
proof (induction a ds rule: schedule.induct)
  case (2 a delay cb rest)
  have "0 \<le> sum_list (map fst rest)" using 2(2) by (intro sum_list_nonneg) (auto intro: less_imp_le)
  then show ?case using 2 by fastforce
qed simp

lemma revealDelays_pos: "\<forall>d \<in> set (revealDelays n). 0 < fst d"
  by (auto simp: revealDelays_def NORMAL_DELAYS_def BONUS_DELAY_def SETTLE_DELAY_def nth_Cons split: nat.splits)

lemma revealSteps: "map snd (revealDelays n) = map PopNormal [0..<n] @ [PopBonus, Complete]"
  by (simp add: revealDelays_def)

lemma firedBy_prefix: "firedBy n t = take (length (firedBy n t)) (map PopNormal [0..<n] @ [PopBonus, Complete])"
proof -
  have "firedBy n t = map snd (take (length (firedBy n t)) (schedule 0 (revealDelays n)))"
    using schedule_prefix [OF revealDelays_pos, of t 0 n] by (simp add: firedBy_def revealTimers_def)
  then show ?thesis by (simp flip: take_map add: revealSteps)
qed

lemma popped_slot [simp]:
  "blSize l \<noteq> ''popped'' \<Longrightarrow> ''popped'' \<notin> set ph \<Longrightarrow>
   marked ''popped'' (revealSlot b (numberBall n l None) ph) = (if b then [bigIntToString n] else [])"
  by (auto simp: revealSlot_def numberBall_def Let_def classes_def)

lemma popped_slots:
  "concat (map (marked ''popped'') (map (\<lambda>p. revealSlot (fst p < k) (numberBall (snd p) (plainBall ''md'') None) [''placeholder''])
     (enumerate a ns))) = map bigIntToString (take (k - a) ns)"
proof (induction ns arbitrary: a)
  case (Cons n ns)
  show ?case
  proof (cases "a < k")
    case True
    then have "k - a = Suc (k - Suc a)" by simp
    then show ?thesis using Cons.IH [of "Suc a"] True by (simp add: plainBall_def)
  qed (use Cons.IH [of "Suc a"] in \<open>simp add: plainBall_def\<close>)
qed simp

lemma popped_shown: "marked ''popped'' (ballReveal ns b k) = map bigIntToString (take k (ns @ [b]))"
proof -
  have "marked ''popped'' (ballReveal ns b k) = map bigIntToString (take k ns) @ (if k > length ns then [bigIntToString b] else [])"
    using popped_slots [of k 0 ns] by (simp add: ballReveal_def bonusLook_def plainBall_def)
  then show ?thesis by (cases "k - length ns") auto
qed

lemma count_steps:
  "length (filter (\<lambda>s. s \<noteq> Complete) (take m (map PopNormal [0..<n] @ [PopBonus, Complete]))) = min m (Suc n)"
proof -
  have "filter (\<lambda>s. s \<noteq> Complete) (take m (map PopNormal [0..<n])) = take m (map PopNormal [0..<n])" for m
    by (intro filter_True) (auto dest: in_set_takeD)
  then show ?thesis by (cases "m - n"; cases "m - n - 1") auto
qed

text \<open>
  The reveal animation shows the drawn numbers one after the other and never out of order: at any
  time the balls on the screen are the first ones of the drawn numbers followed by the bonus ball, as
  many as timers have fired; the callback that ends it fires after all of them, and it does fire, when
  the delays have passed.
\<close>
theorem reveal_in_order:
  "marked ''popped'' (ballReveal ns b (revealedCount (length ns) t)) = map bigIntToString (take (revealedCount (length ns) t) (ns @ [b]))
   \<and> firedBy (length ns) t = take (length (firedBy (length ns) t)) (map PopNormal [0..<length ns] @ [PopBonus, Complete])
   \<and> (Complete \<in> set (firedBy (length ns) t) \<longleftrightarrow> length (firedBy (length ns) t) = length ns + 2)
   \<and> revealedCount (length ns) t = min (length (firedBy (length ns) t)) (Suc (length ns))
   \<and> length (firedBy (length ns) (sum_list (map fst (revealDelays (length ns))))) = length ns + 2"
proof -
  let ?n = "length ns"
  let ?all = "map PopNormal [0..<?n] @ [PopBonus, Complete]" and ?m = "length (firedBy ?n t)"
  have le: "?m \<le> ?n + 2" by (subst firedBy_prefix) simp
  have fin: "(Complete \<in> set (take m ?all)) = (m = ?n + 2)" if "m \<le> ?n + 2" for m
    using that by (cases "m - ?n"; cases "m - ?n - 1") (auto dest: in_set_takeD)
  have c: "(Complete \<in> set (firedBy ?n t)) = (?m = ?n + 2)" by (subst firedBy_prefix) (rule fin [OF le])
  have k: "revealedCount ?n t = min ?m (Suc ?n)"
    using firedBy_prefix [of ?n t] count_steps [of ?m ?n] by (simp add: revealedCount_def)
  have "filter (\<lambda>p. fst p \<le> sum_list (map fst (revealDelays ?n))) (revealTimers ?n) = revealTimers ?n"
    using schedule_ends [OF revealDelays_pos, of _ 0] by (intro filter_True) (simp add: revealTimers_def)
  then have "firedBy ?n (sum_list (map fst (revealDelays ?n))) = ?all"
    by (simp add: firedBy_def revealTimers_def revealSteps)
  then show ?thesis using c k firedBy_prefix [of ?n t] popped_shown [of ns b] by simp
qed

lemma reveal_lasts: "sum_list (map fst (revealDelays 5)) = 5170"
  by code_simp

end
