(* ===== verification/Money.thy ===== *)
theory Money
  imports JsStd "HOL-Library.Log_Nat"
begin

text \<open>
  How the browser turns an amount of USDC into text (\<open>lib/format.ts\<close>). Amounts are whole numbers of
  millionths; the page divides, truncates and prints them in double precision, so the rounding of
  each operation is written out. A double is the rational it stands for. Every quantity here is far
  inside the range of a double: neither overflow nor subnormal numbers occur, and they are not
  modelled.
\<close>

section \<open>Double precision\<close>

text \<open>To the nearest whole number, a tie to the even one.\<close>

definition roundEven :: "rat \<Rightarrow> int" where
  "roundEven x = (let f = \<lfloor>x\<rfloor>; r = x - of_int f in
     if r < 1 / 2 \<or> r = 1 / 2 \<and> even f then f else f + 1)"

text \<open>The exponent of the last of the 53 bits of a positive number.\<close>

definition lastBit :: "rat \<Rightarrow> int" where
  "lastBit q = (let k = bitlen (fst (quotient_of q)) - bitlen (snd (quotient_of q))
     in if 2 powi k \<le> q then k - 52 else k - 53)"

definition fl :: "rat \<Rightarrow> rat" where
  "fl q = (if q = 0 then 0 else let e = lastBit \<bar>q\<bar> in sgn q * of_int (roundEven (\<bar>q\<bar> / 2 powi e)) * 2 powi e)"

lemma roundEven_near: "\<bar>of_int (roundEven x) - x\<bar> \<le> 1 / 2"
proof -
  have "of_int \<lfloor>x\<rfloor> \<le> x" "x < of_int \<lfloor>x\<rfloor> + 1" by linarith+
  then show ?thesis by (auto simp: roundEven_def Let_def)
qed

lemma roundEven_int [simp]: "roundEven (of_int n) = n"
  by (simp add: roundEven_def)

lemma lastBit_scale:
  assumes "0 < q"
  shows "2 ^ 52 \<le> q / 2 powi lastBit q \<and> q / 2 powi lastBit q < 2 ^ 53"
proof -
  obtain n d where nd: "quotient_of q = (n, d)" by fastforce
  have d: "0 < d" using quotient_of_denom_pos [OF nd] .
  have q: "q = of_int n / of_int d" using quotient_of_div [OF nd] .
  have n: "0 < n" using assms d q by (simp add: zero_less_divide_iff)
  define a b where "a = nat (bitlen n - 1)" and "b = nat (bitlen d - 1)"
  have bl: "1 \<le> bitlen n" "1 \<le> bitlen d"
    using n d bitlen_eq_zero_iff [of n] bitlen_eq_zero_iff [of d] bitlen_nonneg [of n] bitlen_nonneg [of d] by linarith+
  then have ab: "bitlen n - bitlen d = int a - int b" "nat (bitlen n) = Suc a" "nat (bitlen d) = Suc b"
    by (auto simp: a_def b_def)
  have "2 ^ a \<le> n" "n < 2 ^ Suc a" "2 ^ b \<le> d" "d < 2 ^ Suc b"
    using bitlen_bounds [OF n] bitlen_bounds [OF d] ab by (simp_all add: a_def b_def)
  then have r: "(2::rat) ^ a \<le> of_int n" "of_int n < (2::rat) * 2 ^ a" "(2::rat) ^ b \<le> of_int d" "of_int d < (2::rat) * 2 ^ b"
    by (metis of_int_le_iff of_int_less_iff of_int_numeral of_int_power power_Suc)+
  have pw: "(2::rat) powi (int a - int b) = 2 ^ a / 2 ^ b" by (simp add: power_int_diff)
  have dpos: "(0::rat) < of_int d" using d by simp
  have up: "q < 2 * (2 ^ a / 2 ^ b)"
  proof -
    have "of_int n * (2::rat) ^ b < 2 * 2 ^ a * of_int d"
      using mult_less_le_imp_less [OF r(2) r(3)] r dpos by simp
    then show ?thesis using dpos by (simp add: q field_simps)
  qed
  have lo: "2 ^ a / 2 ^ b < 2 * q"
  proof -
    have "(2::rat) ^ a * of_int d < of_int n * (2 * 2 ^ b)"
      using mult_le_less_imp_less [OF r(1) r(4)] r dpos by simp
    then show ?thesis using dpos by (simp add: q field_simps)
  qed
  have e52: "(2::rat) powi (int a - int b - 52) = 2 ^ a / 2 ^ b / 2 ^ 52"
    by (simp add: power_int_diff)
  have e53: "(2::rat) powi (int a - int b - 53) = 2 ^ a / 2 ^ b / 2 ^ 53"
    by (simp add: power_int_diff)
  have P: "(0::rat) < 2 ^ a / 2 ^ b" by simp
  show ?thesis
  proof (cases "2 ^ a / 2 ^ b \<le> q")
    case True
    then have "lastBit q = int a - int b - 52" by (simp add: lastBit_def nd ab pw)
    then have L: "(2::rat) powi lastBit q = 2 ^ a / 2 ^ b / 2 ^ 52" using e52 by simp
    show ?thesis unfolding L using True up P by (simp add: field_simps)
  next
    case False
    then have "lastBit q = int a - int b - 53" by (simp add: lastBit_def nd ab pw)
    then have L: "(2::rat) powi lastBit q = 2 ^ a / 2 ^ b / 2 ^ 53" using e53 by simp
    show ?thesis unfolding L using False lo P by (simp add: field_simps)
  qed
qed

text \<open>One operation is off by at most one part in \<open>2 ^ 53\<close>; whole numbers below \<open>2 ^ 53\<close> are exact.\<close>

lemma fl_near: "\<bar>fl q - q\<bar> \<le> \<bar>q\<bar> / 2 ^ 53"
proof (cases "q = 0")
  case False
  let ?e = "lastBit \<bar>q\<bar>" and ?p = "2 powi lastBit \<bar>q\<bar> :: rat"
  have p: "0 < ?p" by simp
  have sc: "2 ^ 52 \<le> \<bar>q\<bar> / ?p" using lastBit_scale [of "\<bar>q\<bar>"] False by simp
  have "fl q - q = sgn q * (of_int (roundEven (\<bar>q\<bar> / ?p)) - \<bar>q\<bar> / ?p) * ?p"
    using False p by (simp add: fl_def Let_def algebra_simps sgn_mult_abs abs_mult_sgn)
  then have "\<bar>fl q - q\<bar> = \<bar>of_int (roundEven (\<bar>q\<bar> / ?p)) - \<bar>q\<bar> / ?p\<bar> * ?p"
    using False p by (simp add: abs_mult abs_sgn_eq)
  also have "\<dots> \<le> 1 / 2 * ?p" using roundEven_near p by (intro mult_right_mono) auto
  also have "\<dots> \<le> \<bar>q\<bar> / 2 ^ 53" using sc p by (simp add: field_simps)
  finally show ?thesis .
qed (simp add: fl_def)

lemma fl_int:
  assumes "\<bar>n\<bar> < 2 ^ 53"
  shows "fl (of_int n) = of_int n"
proof (cases "n = 0")
  case False
  let ?q = "\<bar>of_int n\<bar> :: rat" and ?e = "lastBit \<bar>of_int n\<bar>"
  have "2 ^ 52 * 2 powi ?e \<le> ?q" using lastBit_scale [of ?q] False by (simp add: field_simps)
  moreover have "?q < 2 ^ 53" using assms by (metis of_int_abs of_int_less_iff of_int_numeral of_int_power)
  ultimately have "(2::rat) powi ?e < 2" by simp
  moreover have "(2::rat) powi 1 \<le> 2 powi ?e" if "1 \<le> ?e" using that by (rule power_int_increasing) simp
  ultimately have e: "?e \<le> 0" by (cases "1 \<le> ?e") auto
  have "?q / 2 powi ?e = of_int (\<bar>n\<bar> * 2 ^ nat (- ?e))"
    using e by (simp add: power_int_def field_simps)
  then have "fl (of_int n) = sgn (of_int n) * of_int (\<bar>n\<bar> * 2 ^ nat (- ?e)) * 2 powi ?e"
    using False by (simp only: fl_def Let_def roundEven_int) simp
  also have "\<dots> = sgn (of_int n) * ?q * (2 ^ nat (- ?e) * 2 powi ?e)" by (simp add: mult_ac)
  also have "(2::rat) ^ nat (- ?e) * 2 powi ?e = 1" using e by (simp add: power_int_def power_one_over)
  finally have "fl (of_int n) = sgn (of_int n) * ?q" by simp
  also have "\<dots> = of_int n" by (simp add: sgn_mult_abs)
  finally show ?thesis .
qed (simp add: fl_def)

section \<open>Text of a number\<close>

text \<open>\<open>toLocaleString('en-US')\<close> puts a comma before every third digit from the right.\<close>

fun commaDigits :: "string \<Rightarrow> string" where
  "commaDigits (a # b # c # d # ds) = a # b # c # CHR '','' # commaDigits (d # ds)"
| "commaDigits ds = ds"

definition groupDigits :: "int \<Rightarrow> string" where
  "groupDigits n = rev (commaDigits (rev (bigIntToString n)))"

text \<open>The whole number nearest to \<open>x * 10 ^ d\<close>, the larger one when two are as near.\<close>

definition nearestUp :: "rat \<Rightarrow> int" where "nearestUp x = \<lfloor>x + 1 / 2\<rfloor>"

definition padZeros :: "nat \<Rightarrow> string \<Rightarrow> string" where
  "padZeros d s = replicate (d - length s) CHR ''0'' @ s"

definition decimals :: "nat \<Rightarrow> int \<Rightarrow> string" where
  "decimals d n = (if d = 0 then [] else ''.'' @ padZeros d (bigIntToString (n mod 10 ^ d)))"

text \<open>A number with \<open>d\<close> digits after the point, with and without commas.\<close>

definition localeFixed :: "nat \<Rightarrow> rat \<Rightarrow> string" where
  "localeFixed d x = (let n = nearestUp (\<bar>x\<bar> * 10 ^ d) in
     (if x < 0 then ''-'' else []) @ groupDigits (n div 10 ^ d) @ decimals d n)"

definition toFixed :: "nat \<Rightarrow> rat \<Rightarrow> string" where
  "toFixed d x = (let n = nearestUp (\<bar>x\<bar> * 10 ^ d) in
     (if x < 0 then ''-'' else []) @ bigIntToString (n div 10 ^ d) @ decimals d n)"

section \<open>Amounts\<close>

definition USDC_DECIMALS :: rat where "USDC_DECIMALS = 1000000"

definition usdcToNumber :: "int \<Rightarrow> rat" where
  "usdcToNumber raw = fl (fl (of_int raw) / USDC_DECIMALS)"

definition shownUnits :: "nat \<Rightarrow> int \<Rightarrow> int" where
  "shownUnits d raw = \<lfloor>fl (usdcToNumber raw * 10 ^ d)\<rfloor>"

definition formatUsdc :: "nat \<Rightarrow> bool \<Rightarrow> int \<Rightarrow> string" where
  "formatUsdc d withSign raw =
     (let value = fl (of_int (shownUnits d raw) / 10 ^ d); formatted = localeFixed d value
      in if withSign \<and> value > 0 then ''+$'' @ formatted else ''$'' @ formatted)"

text \<open>\<open>toLocaleString\<close> of a whole number.\<close>

definition formatDollarAmount :: "int \<Rightarrow> string" where
  "formatDollarAmount raw = ''$'' @ (if fl (of_int raw) < 0 then ''-'' else []) @ groupDigits \<lfloor>\<bar>fl (of_int raw)\<bar>\<rfloor>"

section \<open>What the display keeps\<close>

lemma fl_nonneg: "0 \<le> q \<Longrightarrow> 0 \<le> fl q"
proof -
  assume q: "0 \<le> q"
  then have "q - fl q \<le> q / 2 ^ 53" using fl_near [of q] by (simp only: abs_le_iff abs_of_nonneg) linarith
  also have "\<dots> \<le> q" using q by (simp add: field_simps)
  finally show ?thesis by simp
qed

text \<open>Two roundings in a row move a quotient by less than one part of its unit.\<close>

lemma shown_near:
  assumes "0 \<le> raw" "raw \<le> 10 ^ 15" "d \<le> 6"
  shows "\<bar>fl (usdcToNumber raw * 10 ^ d) - of_int raw / 10 ^ (6 - d)\<bar> < 1 / 10 ^ (6 - d)"
proof -
  define x :: rat where "x = of_int raw / 1000000"
  define a where "a = fl x"
  have raw: "of_int raw = x * 1000000" by (simp add: x_def)
  have x0: "0 \<le> x" using assms(1) by (simp add: x_def)
  have xb: "x \<le> 10 ^ 9" using assms(2) by (simp add: x_def)
  have "fl (of_int raw) = (of_int raw :: rat)" using assms by (intro fl_int) simp
  then have a: "usdcToNumber raw = a" by (simp add: usdcToNumber_def USDC_DECIMALS_def a_def x_def)
  have ax: "\<bar>a - x\<bar> \<le> x / 2 ^ 53" using fl_near [of x] x0 by (simp add: a_def)
  have a0: "0 \<le> a" using fl_nonneg [OF x0] by (simp add: a_def)
  have u: "(0::rat) < 10 ^ d" "(10::rat) ^ (6 - d) * 10 ^ d = 1000000"
    using assms(3) by (simp_all flip: power_add)
  have split: "1 / 10 ^ (6 - d) = 10 ^ d / (1000000::rat)" using u by (simp add: field_simps)
  have "\<bar>fl (a * 10 ^ d) - a * 10 ^ d\<bar> \<le> a * 10 ^ d / 2 ^ 53"
    using fl_near [of "a * 10 ^ d"] a0 u by (simp add: abs_mult)
  moreover have "\<bar>a * 10 ^ d - x * 10 ^ d\<bar> \<le> x / 2 ^ 53 * 10 ^ d"
    using mult_right_mono [OF ax, of "10 ^ d"] u by (simp add: abs_mult flip: left_diff_distrib)
  ultimately have "\<bar>fl (a * 10 ^ d) - x * 10 ^ d\<bar> \<le> (a + x) / 2 ^ 53 * 10 ^ d"
    unfolding abs_le_iff add_divide_distrib distrib_right by (simp only: times_divide_eq_left) linarith
  also have "(a + x) / 2 ^ 53 * 10 ^ d < 1 / 1000000 * 10 ^ d"
  proof -
    have "a - x \<le> x / 2 ^ 53" using ax by (rule abs_le_D1)
    also have "\<dots> \<le> x" using x0 by simp
    finally have "(a + x) / 2 ^ 53 < 1 / 1000000" using xb by simp
    then show ?thesis using u(1) by (rule mult_strict_right_mono)
  qed
  finally have "\<bar>fl (a * 10 ^ d) - x * 10 ^ d\<bar> < 10 ^ d / 1000000" by simp
  moreover have "of_int raw / 10 ^ (6 - d) = x * (10::rat) ^ d" using u by (simp add: raw field_simps)
  ultimately show ?thesis by (simp only: a split)
qed

lemma floor_near:
  fixes b :: rat and k m u :: int
  assumes u: "0 < u" and m: "0 \<le> m" "m < u" and b0: "0 \<le> b"
    and near: "\<bar>b - (of_int k + of_int m / of_int u)\<bar> < 1 / of_int u"
  shows "\<lfloor>b\<rfloor> \<le> k \<and> k \<le> \<lfloor>b\<rfloor> + 1 \<and> (m = 0 \<or> \<lfloor>b\<rfloor> = k) \<and> 0 \<le> \<lfloor>b\<rfloor>"
proof -
  define s t :: rat where "s = of_int m / of_int u" and "t = 1 / of_int u"
  have uq: "(0::rat) < of_int u" using u by simp
  have "(of_int m + 1 :: rat) \<le> of_int u" using m(2) by (metis of_int_1 of_int_add of_int_le_iff zless_imp_add1_zle)
  then have st: "s + t \<le> 1" using uq by (simp add: s_def t_def flip: add_divide_distrib)
  have s0: "0 \<le> s" "0 < t" "t \<le> 1" using m(1) u uq by (simp_all add: s_def t_def)
  have ts: "t \<le> s" if "m \<noteq> 0"
    using that m(1) uq unfolding s_def t_def by (intro divide_right_mono) auto
  have "b < of_int k + s + t" "of_int k + s - t < b"
    using near unfolding s_def [symmetric] t_def [symmetric] by linarith+
  then have "b < of_int k + 1" "of_int k - 1 < b" and "m \<noteq> 0 \<Longrightarrow> of_int k < b"
    using st s0 ts by linarith+
  then show ?thesis using b0 by linarith
qed

lemma shown_units:
  assumes "0 \<le> raw" "raw \<le> 10 ^ 15" "d \<le> 6"
  shows "shownUnits d raw \<le> raw div 10 ^ (6 - d) \<and> raw div 10 ^ (6 - d) \<le> shownUnits d raw + 1
    \<and> (raw mod 10 ^ (6 - d) = 0 \<or> shownUnits d raw = raw div 10 ^ (6 - d)) \<and> 0 \<le> shownUnits d raw"
proof -
  let ?u = "10 ^ (6 - d) :: int" and ?b = "fl (usdcToNumber raw * 10 ^ d)"
  have u: "0 < ?u" by simp
  have "of_int raw = of_int (raw div ?u) * of_int ?u + (of_int (raw mod ?u) :: rat)"
    by (metis div_mult_mod_eq of_int_add of_int_mult)
  then have q: "of_int raw / of_int ?u = of_int (raw div ?u) + of_int (raw mod ?u) / (of_int ?u :: rat)"
    using u by (simp add: field_simps)
  have "\<bar>?b - of_int raw / of_int ?u\<bar> < 1 / of_int ?u" using shown_near [OF assms] by simp
  then have near: "\<bar>?b - (of_int (raw div ?u) + of_int (raw mod ?u) / of_int ?u)\<bar> < 1 / of_int ?u"
    by (simp only: q)
  have "0 \<le> ?b" using assms(1) by (simp add: usdcToNumber_def USDC_DECIMALS_def fl_nonneg)
  then show ?thesis unfolding shownUnits_def
    by (rule floor_near [OF u pos_mod_sign [OF u] pos_mod_bound [OF u] _ near])
qed

lemma shown_text:
  assumes "0 \<le> c" "c < 2 ^ 50"
  shows "localeFixed d (fl (of_int c / 10 ^ d)) = groupDigits (c div 10 ^ d) @ decimals d c"
proof -
  let ?v = "fl (of_int c / 10 ^ d)"
  have v0: "0 \<le> ?v" using assms(1) by (simp add: fl_nonneg)
  have "\<bar>?v - of_int c / 10 ^ d\<bar> \<le> of_int c / 10 ^ d / 2 ^ 53"
    using fl_near [of "of_int c / 10 ^ d"] assms(1) by simp
  then have "\<bar>?v - of_int c / 10 ^ d\<bar> * 10 ^ d \<le> of_int c / 10 ^ d / 2 ^ 53 * 10 ^ d"
    by (rule mult_right_mono) simp
  then have "\<bar>?v * 10 ^ d - of_int c\<bar> \<le> of_int c / 2 ^ 53"
    by (simp add: left_diff_distrib abs_mult_pos)
  also have "of_int c / (2 ^ 53 :: rat) < 1 / 2"
  proof -
    have "(of_int c :: rat) < of_int (2 ^ 50)" using assms(2) by (simp only: of_int_less_iff)
    then show ?thesis by simp
  qed
  finally have "\<lfloor>?v * 10 ^ d + 1 / 2\<rfloor> = c" unfolding floor_eq_iff by linarith
  then show ?thesis using v0 by (simp add: localeFixed_def nearestUp_def Let_def)
qed

lemma shown_whole:
  assumes "0 \<le> raw" "raw \<le> 10 ^ 15"
  shows "shownUnits 0 raw = raw div 10 ^ 6"
proof (cases "raw mod 10 ^ 6 = 0")
  case True
  then obtain k where k: "raw = 10 ^ 6 * k" by auto
  have "fl (of_int raw) = (of_int raw :: rat)" using assms by (intro fl_int) simp
  moreover have "fl (of_int k) = (of_int k :: rat)" using assms k by (intro fl_int) simp
  ultimately have "usdcToNumber raw = of_int k" by (simp add: usdcToNumber_def USDC_DECIMALS_def k)
  then show ?thesis using \<open>fl (of_int k) = of_int k\<close> by (simp add: shownUnits_def k)
qed (use shown_units [OF assms, of 0] in simp)

text \<open>
  C38: the text of an amount from zero to a thousand million dollars, with up to six digits after the
  point (two by default, none for the jackpot), never shows more than there is and falls short by less
  than two units of its last digit. It shows the amount cut to its digits exactly, without digits
  after the point always, and otherwise unless the amount is a whole number of the last digit, where
  double rounding can lose one (1.15 is shown as 1.14, and the comment asks for exact truncation).
\<close>
theorem usdc_display:
  assumes "0 \<le> raw" "raw \<le> 10 ^ 15" "d \<le> 6"
  shows "formatUsdc d False raw = ''$'' @ groupDigits (shownUnits d raw div 10 ^ d) @ decimals d (shownUnits d raw)
    \<and> shownUnits d raw \<le> raw div 10 ^ (6 - d) \<and> raw < (shownUnits d raw + 2) * 10 ^ (6 - d)
    \<and> (d = 0 \<or> raw mod 10 ^ (6 - d) \<noteq> 0 \<longrightarrow> shownUnits d raw = raw div 10 ^ (6 - d))"
proof -
  have su: "shownUnits d raw \<le> raw div 10 ^ (6 - d)" "0 \<le> shownUnits d raw"
    "raw div 10 ^ (6 - d) < shownUnits d raw + 2" using shown_units [OF assms] by auto
  have "raw mod 10 ^ (6 - d) < 10 ^ (6 - d)" by (rule pos_mod_bound) simp
  with div_mult_mod_eq [of raw "10 ^ (6 - d)"] have "raw < raw div 10 ^ (6 - d) * 10 ^ (6 - d) + 10 ^ (6 - d)"
    by linarith
  then have "raw < (raw div 10 ^ (6 - d) + 1) * 10 ^ (6 - d)" by (simp only: distrib_right mult_1)
  also have "\<dots> \<le> (shownUnits d raw + 2) * 10 ^ (6 - d)" using su(3) by (intro mult_right_mono) simp_all
  finally have short: "raw < (shownUnits d raw + 2) * 10 ^ (6 - d)" .
  have "raw div 10 ^ (6 - d) \<le> raw" using assms(1) by (metis div_by_1 zdiv_mono2 one_le_numeral one_le_power zero_less_one)
  then have "shownUnits d raw < 2 ^ 50" using su(1) assms(2) by simp
  then have shownText: "formatUsdc d False raw = ''$'' @ groupDigits (shownUnits d raw div 10 ^ d) @ decimals d (shownUnits d raw)"
    using shown_text [OF su(2)] by (simp add: formatUsdc_def Let_def)
  have "shownUnits d raw = raw div 10 ^ (6 - d)" if "d = 0 \<or> raw mod 10 ^ (6 - d) \<noteq> 0"
    using that shown_units [OF assms] shown_whole [OF assms(1,2)] by auto
  then show ?thesis using shownText su(1) short by blast
qed

theorem usdc_display_witness:
  "formatUsdc 2 False 1150000 = ''$'' @ groupDigits (shownUnits 2 1150000 div 10 ^ 2) @ decimals 2 (shownUnits 2 1150000)
   \<and> formatUsdc 2 False 1150000 = ''$1.14''"
proof -
  have "formatUsdc 2 False 1150000 = ''$1.14''" by code_simp
  then show ?thesis using usdc_display [of 1150000 2] by simp
qed

lemma shown_sample: "formatUsdc 2 False 1234567895000 = ''$1,234,567.89''"
  by code_simp

end
