(* ===== verification/TicketsPage.thy ===== *)
theory TicketsPage
  imports View Money
begin

text \<open>
  The \<open>My Tickets\<close> page (\<open>pages/Tickets/Tickets.tsx\<close>) as a function from the answers of the API,
  the revealed-epochs store and the page's own state to a tree of elements, and the steps a user takes
  on it. A page that reads a missing field throws, which is \<open>None\<close>. Dates and times of day come out in
  the browser's own time zone, so their texts are parameters; the countdown is as of the last tick of
  its timer, which is the \<open>peNow\<close> of the environment.
\<close>

section \<open>Texts\<close>

record pageEnv =
  peNow :: int
  peDate :: "int \<Rightarrow> string"
  peShortDate :: "int \<Rightarrow> string"
  peTime :: "int \<Rightarrow> string"
  peNumber :: "int \<Rightarrow> string"

definition lowerChar :: "char \<Rightarrow> char" where
  "lowerChar c = (let k = of_char c :: nat in if 65 \<le> k \<and> k \<le> 90 then char_of (k + 32) else c)"

definition formatDateTime :: "pageEnv \<Rightarrow> int \<Rightarrow> string" where
  "formatDateTime env t = peDate env t @ '' - '' @ map lowerChar (peTime env t)"

text \<open>An amount of the API is the text of a whole number.\<close>

definition usdcText :: "nat \<Rightarrow> string \<Rightarrow> string" where
  "usdcText d s = (case bigIntOf s of Some n \<Rightarrow> formatUsdc d False n | None \<Rightarrow> ''$NaN'')"

definition statusLabel :: "ticketView \<Rightarrow> string" where
  "statusLabel t = (case tvStatus t of DRAW_PENDING \<Rightarrow> ''Awaiting Draw'' | LOST \<Rightarrow> ''No Win''
     | WON_FREE_TICKET \<Rightarrow> ''Free Ticket'' | WON_UNCLAIMED \<Rightarrow> usdcText 2 (tvAmount t)
     | CLAIMED_ON_BASE \<Rightarrow> usdcText 2 (tvAmount t) | PAID_OUT_ON_SOLANA \<Rightarrow> usdcText 2 (tvAmount t))"

definition countText :: "nat \<Rightarrow> string \<Rightarrow> string" where
  "countText n what = bigIntToString (int n) @ '' '' @ what @ plural (int n)"

section \<open>The page's state\<close>

datatype ticketsEvent =
    OpenGroup int
  | Back
  | CheckResults
  | ToggleHistory
  | ToggleOrder string
  | GoPlay
  | GoWinnings
  | ConnectWallet

text \<open>
  The state of the detail lives as long as its body stays mounted: \<open>tsBody\<close> is the body it belongs to,
  and a body of another kind starts afresh.
\<close>

record ticketsState =
  tsSelected :: "int option"
  tsBody :: "groupBody option"
  tsRevealing :: bool
  tsPopped :: nat
  tsTxOpen :: bool
  tsOpenOrders :: "string list"

definition freshTickets :: ticketsState where
  "freshTickets = \<lparr> tsSelected = None, tsBody = None, tsRevealing = False, tsPopped = 0, tsTxOpen = False, tsOpenOrders = [] \<rparr>"

definition localOf :: "groupBody \<Rightarrow> ticketsState \<Rightarrow> ticketsState" where
  "localOf k st = (if tsBody st = Some k then st else freshTickets\<lparr>tsSelected := tsSelected st, tsBody := Some k\<rparr>)"

record ticketsData =
  tdTickets :: "ticketView list option"
  tdLoading :: bool
  tdEpochId :: "int option"
  tdNextDraw :: "int option"
  tdConnected :: bool
  tdWallet :: string
  tdRevealed :: "string list"

section \<open>Cards\<close>

definition miniTicketStub :: "int list \<Rightarrow> int \<Rightarrow> 'e html" where
  "miniTicketStub ns b = box ''stub'' [box ''stubBalls'' (plainBalls ''sm'' ns b), label ''stubMark'' ''LORDSPOT'']"

definition plainTicketRow :: "int list \<Rightarrow> int \<Rightarrow> 'e html" where
  "plainTicketRow ns b = box ''plainRow'' (plainBalls ''sm'' ns b)"

definition groupStub :: "ticketGroup \<Rightarrow> 'e html" where
  "groupStub g = miniTicketStub (tvNormals (hd (tgTickets g))) (tvBonus (hd (tgTickets g)))"

definition groupTarget :: "ticketsData \<Rightarrow> ticketGroup \<Rightarrow> int option" where
  "groupTarget d g = resolveCountdownTarget (tgEpoch g) (tdEpochId d) (tdNextDraw d) (tgAnchor g)"

definition upcomingCard :: "pageEnv \<Rightarrow> ticketsData \<Rightarrow> ticketGroup \<Rightarrow> ticketsEvent html" where
  "upcomingCard env d g =
     (let target = groupTarget d g; expired = countdownExpired (peNow env) target in
      El ''button'' [Attr ''type'' ''button'', Cls [''card''], Click (OpenGroup (tgEpoch g))]
        [(if isGroupProcessing (tgTickets g)
          then box ''cardProcessing'' [El ''span'' [Cls [''cardProcessingDot'']] [], Txt ''Processing...'']
          else if expired then box ''cardReveal'' [El ''span'' [Cls [''cardRevealDot'']] [], Txt ''Reveal'']
          else box ''cardCountdownWrap'' [countdownBadge (peNow env) target []]),
         groupStub g,
         para ''cardCount'' (countText (length (tgTickets g)) ''Ticket''),
         para ''cardDate'' (if expired then ''Ready to reveal'' else case target of Some t \<Rightarrow> peShortDate env t | None \<Rightarrow> ''-'')])"

definition freeTicketCount :: "ticketView list \<Rightarrow> nat" where
  "freeTicketCount ts = length (filter tvFree ts)"

definition previousCard :: "pageEnv \<Rightarrow> ticketsData \<Rightarrow> ticketGroup \<Rightarrow> ticketsEvent html" where
  "previousCard env d g =
     (let grading = isGrading (tgTickets g); free = list_ex tvFree (tgTickets g); total = groupWinAmount (tgTickets g);
          opened = isRevealed (tdWallet d) (tgEpoch g) (tdRevealed d);
          badges = (opened \<and> \<not> grading \<and> (free \<or> total > 0)) in
      El ''button'' [Attr ''type'' ''button'', Cls [''card''], Click (OpenGroup (tgEpoch g))]
        (onlyIf badges
           [box ''cardBadges''
              (onlyIf (total > 0) [label ''winBadge'' (''Win '' @ formatUsdc 2 False total)]
               @ onlyIf free [label ''freeBadge'' (bigIntToString (int (freeTicketCount (tgTickets g))))])]
         @ [groupStub g,
            para ''cardCount'' (countText (length (tgTickets g)) ''Ticket''),
            para ''cardDate'' (case tgSettledAt g of Some t \<Rightarrow> peShortDate env t | None \<Rightarrow> [])]
         @ onlyIf grading [para ''cardHint'' ''Finalizing...'']
         @ onlyIf (\<not> grading \<and> \<not> opened) [para ''cardHint'' ''Tap to reveal'']
         @ onlyIf (\<not> grading \<and> opened \<and> \<not> badges) [para ''cardHint'' ''No win this time'']))"

section \<open>Proofs of purchase\<close>

definition txLink :: "string list \<Rightarrow> string \<Rightarrow> 'e attr list \<Rightarrow> 'e html list \<Rightarrow> string \<Rightarrow> 'e html" where
  "txLink cs href role chain hash =
     El ''a'' ([Cls (''txProof'' # cs), Attr ''href'' href, Attr ''target'' ''_blank'', Attr ''rel'' ''noopener noreferrer''] @ role)
       [El ''span'' [Cls [''txProofChain'']] chain, label ''txProofHash'' (shortenAddress hash 6), label ''txProofIcon'' ''^'']"

definition baseBatchCard :: "bool \<Rightarrow> string option \<times> nat \<Rightarrow> 'e html" where
  "baseBatchCard multi b =
     (let role = onlyIf multi [Attr ''role'' ''listitem''];
          chain = Txt ''Base'' # onlyIf multi [label ''txBatchCount'' (countText (snd b) ''ticket'')] in
      if noTx (fst b)
      then El ''div'' (Cls [''txProof'', ''txProofBase'', ''txProofPending''] # role)
             [El ''span'' [Cls [''txProofChain'']] chain, label ''txProofPendingLabel'' ''Processing...'']
      else txLink [''txProofBase''] (''https://sepolia.basescan.org/tx/'' @ the (fst b)) role chain (the (fst b)))"

definition txProofRow :: "pageEnv \<Rightarrow> string list \<Rightarrow> orderProof \<Rightarrow> ticketsEvent html" where
  "txProofRow env openOrders p =
     (let isOpen = (opHash p \<in> set openOrders); multi = (length (opBatches p) > 1);
          pending = length (filter (\<lambda>b. noTx (fst b)) (opBatches p)) in
      box ''txRow''
        ([box ''txMeta'' [label ''txCount'' (countText (opCount p) ''ticket''),
            label ''txDate'' (formatDateTime env (opPurchasedAt p))],
          txLink [''txProofSolana''] (''https://explorer.solana.com/tx/'' @ opSignature p @ ''?cluster=devnet'') [] [Txt ''Solana'']
            (opSignature p)]
         @ (if \<not> multi then [baseBatchCard False (hd (opBatches p))]
            else El ''button'' [Attr ''type'' ''button'', Cls [''txBatchToggle''], Click (ToggleOrder (opHash p))]
                   [El ''span'' [Cls [''txBatchToggleLabel'']]
                      (Txt (''Relayed to Base in '' @ bigIntToString (int (length (opBatches p))) @ '' batches'')
                       # onlyIf (pending > 0) [label ''txBatchPendingDot'' (bigIntToString (int pending) @ '' pending'')]),
                    El ''span'' [classes [''txBatchChevron'', if isOpen then ''txBatchChevronOpen'' else []]] [Txt ''v'']]
                 # onlyIf isOpen [El ''div'' [Cls [''txBatches''], Attr ''role'' ''list''] (map (baseBatchCard True) (opBatches p))])))"

definition txHistoryView :: "pageEnv \<Rightarrow> ticketsState \<Rightarrow> ticketView list \<Rightarrow> ticketsEvent html" where
  "txHistoryView env st ts =
     box ''txSection''
       ([El ''button'' [Attr ''type'' ''button'', Cls [''txHeader''], Click ToggleHistory]
          [El ''span'' [] [Txt (''Transaction History ('' @ bigIntToString (int (length (txHistory ts))) @ '')'')],
           El ''span'' [] [Txt (if tsTxOpen st then ''-'' else ''+'')]]]
        @ onlyIf (tsTxOpen st) [box ''txList'' (map (txProofRow env (tsOpenOrders st)) (txHistory ts))])"

section \<open>Lists of tickets\<close>

definition purchasedHeader :: "ticketGroup \<Rightarrow> 'e html" where
  "purchasedHeader g = box ''purchasedHeader''
     [El ''h3'' [Cls [''purchasedTitle'']] [Txt ''Purchased''],
      label ''purchasedCount'' (countText (length (tgTickets g)) ''Ticket'')]"

definition ticketOutcomeList :: "ticketGroup \<Rightarrow> 'e html list" where
  "ticketOutcomeList g =
     [purchasedHeader g,
      box ''groupList'' (map (\<lambda>t. ticketRow (tvNormals t) (tvBonus t) (statusLabel t) (statusFor t)
        (tgWinningNormals g) (tgWinningBonus g)) (tgTickets g))]"

definition ticketOutcomeListPlain :: "ticketGroup \<Rightarrow> 'e html list" where
  "ticketOutcomeListPlain g =
     [purchasedHeader g, box ''plainList'' (map (\<lambda>t. plainTicketRow (tvNormals t) (tvBonus t)) (tgTickets g))]"

definition drawnNumbers :: "ticketGroup \<Rightarrow> (int list \<times> int) option" where
  "drawnNumbers g = (case (tgWinningNormals g, tgWinningBonus g) of (Some ns, Some b) \<Rightarrow> Some (sort ns, b) | _ \<Rightarrow> None)"

definition winningNumbersRow :: "ticketGroup \<Rightarrow> 'e html option" where
  "winningNumbersRow g = map_option (\<lambda>p. box ''winningRow'' (plainBalls ''md'' (fst p) (snd p))) (drawnNumbers g)"

section \<open>The detail of a group\<close>

definition upcomingDetail :: "pageEnv \<Rightarrow> ticketsData \<Rightarrow> ticketsState \<Rightarrow> ticketGroup \<Rightarrow> ticketsEvent html list" where
  "upcomingDetail env d st g =
     (let target = groupTarget d g; expired = countdownExpired (peNow env) target in
      [box ''upcomingHero'' (groupStub g
         # (if isGroupProcessing (tgTickets g)
            then [para ''heroHeadline'' ''Processing Purchase'',
                  box ''gradingNotice'' [El ''span'' [] [Txt ''Confirming your ticket on-chain - this can take a minute'']]]
            else if expired
            then [para ''heroHeadline'' ''Ready to Reveal'',
                  box ''heroRevealBadge'' [El ''span'' [Cls [''cardRevealDot'']] [], Txt ''Results are landing now'']]
            else [para ''heroHeadline'' ''Good Luck'', countdownBadge (peNow env) target [],
                  para ''heroSub'' (case target of Some t \<Rightarrow> ''Drawing '' @ formatDateTime env t | None \<Rightarrow> ''Draw time to be confirmed'')]))]
      @ ticketOutcomeListPlain g @ [txHistoryView env st (tgTickets g)])"

definition placeholderRow :: "'e html" where
  "placeholderRow = box ''placeholderRow'' (map (\<lambda>i. El ''div'' [Cls [''dot'']] []) [0..<5] @ [El ''div'' [Cls [''dotBonus'']] []])"

definition gradingDetail :: "pageEnv \<Rightarrow> ticketsState \<Rightarrow> ticketGroup \<Rightarrow> ticketsEvent html list" where
  "gradingDetail env st g =
     [box ''neutralHero'' [groupStub g, El ''h2'' [Cls [''resultsHeadline'']] [Txt ''Results''], placeholderRow,
        box ''gradingNotice'' [El ''span'' [] [Txt ''Finalizing results - check back shortly'']]]]
     @ ticketOutcomeListPlain g @ [txHistoryView env st (tgTickets g)]"

definition notRevealedDetail :: "pageEnv \<Rightarrow> ticketsState \<Rightarrow> ticketGroup \<Rightarrow> ticketsEvent html list option" where
  "notRevealedDetail env st g =
     map_option (\<lambda>reveal.
       [box ''neutralHero''
          ([groupStub g, El ''h2'' [Cls [''resultsHeadline'']] [Txt ''Results''], reveal]
           @ onlyIf (\<not> tsRevealing st)
               [El ''button'' [Attr ''type'' ''button'', Cls [''checkButton''], Click CheckResults] [Txt ''Check Results'']])]
       @ ticketOutcomeListPlain g @ [txHistoryView env st (tgTickets g)])
     (if tsRevealing st then map_option (\<lambda>p. ballReveal (fst p) (snd p) (tsPopped st)) (drawnNumbers g) else Some placeholderRow)"

definition statBlock :: "string \<Rightarrow> string \<Rightarrow> string \<Rightarrow> 'e html" where
  "statBlock name c v = box ''statBlock'' [label ''statLabel'' name, label c v]"

definition wonDetail :: "pageEnv \<Rightarrow> ticketsState \<Rightarrow> ticketGroup \<Rightarrow> ticketsEvent html list option" where
  "wonDetail env st g =
     map_option (\<lambda>drawn.
       [box ''wonHero''
          [groupStub g, El ''h2'' [Cls [''wonHeadline'']] [Txt ''You Won''], para ''winningLabel'' ''Winning numbers'', drawn,
           para ''wonDate'' (''Drawn '' @ (case tgSettledAt g of Some t \<Rightarrow> formatDateTime env t | None \<Rightarrow> [])),
           box ''statGrid''
             [statBlock ''Winnings'' ''statValue'' (formatUsdc 2 False (groupWinAmount (tgTickets g))),
              statBlock ''Free Tickets'' ''statValue'' (bigIntToString (int (freeTicketCount (tgTickets g)))),
              statBlock ''Points'' ''statValueMuted'' ''Coming soon''],
           El ''button'' [Attr ''type'' ''button'', Cls [''claimButton''], Click GoWinnings] [Txt ''Claim Rewards'']]]
       @ ticketOutcomeList g @ [txHistoryView env st (tgTickets g)])
     (winningNumbersRow g)"

definition lostDetail :: "pageEnv \<Rightarrow> ticketsState \<Rightarrow> ticketGroup \<Rightarrow> ticketsEvent html list option" where
  "lostDetail env st g =
     map_option (\<lambda>drawn.
       [box ''neutralHero''
          [groupStub g, El ''h2'' [Cls [''resultsHeadline'']] [Txt ''No Win This Time''], para ''winningLabel'' ''Winning numbers'',
           drawn, para ''wonDate'' (''Drawn '' @ (case tgSettledAt g of Some t \<Rightarrow> formatDateTime env t | None \<Rightarrow> []))]]
       @ ticketOutcomeList g @ [txHistoryView env st (tgTickets g)])
     (winningNumbersRow g)"

definition headerDate :: "pageEnv \<Rightarrow> ticketsData \<Rightarrow> ticketGroup \<Rightarrow> string" where
  "headerDate env d g =
     (case tgSettledAt g of Some t \<Rightarrow> peDate env t
      | None \<Rightarrow> (let target = groupTarget d g in
          if countdownExpired (peNow env) target then ''Ready to Reveal''
          else case target of Some t \<Rightarrow> peDate env t | None \<Rightarrow> ''Upcoming''))"

definition groupBodyOf :: "ticketsData \<Rightarrow> ticketGroup \<Rightarrow> groupBody" where
  "groupBodyOf d g = groupDetail (tdRevealed d) (tdWallet d) g"

definition ticketGroupDetail :: "pageEnv \<Rightarrow> ticketsData \<Rightarrow> ticketsState \<Rightarrow> ticketGroup \<Rightarrow> ticketsEvent html option" where
  "ticketGroupDetail env d st0 g =
     (let st = localOf (groupBodyOf d g) st0 in
      map_option (\<lambda>body.
        box ''page''
          (box ''detailHeader''
             [El ''button'' [Attr ''type'' ''button'', Cls [''backButton''], Click Back] [Txt ''<-''],
              El ''h2'' [Cls [''detailTitle'']] [Txt (headerDate env d g)]]
           # body))
      (case groupBodyOf d g of UpcomingBody \<Rightarrow> Some (upcomingDetail env d st g) | GradingBody \<Rightarrow> Some (gradingDetail env st g)
         | NotRevealedBody \<Rightarrow> notRevealedDetail env st g | WonBody \<Rightarrow> wonDetail env st g | LostBody \<Rightarrow> lostDetail env st g))"

section \<open>The page\<close>

definition pageGroups :: "ticketsData \<Rightarrow> ticketGroup list" where
  "pageGroups d = (case tdTickets d of None \<Rightarrow> [] | Some ts \<Rightarrow> ticketGroups ts)"

definition cardSection :: "string \<Rightarrow> 'e html list \<Rightarrow> 'e html list" where
  "cardSection title cards = onlyIf (cards \<noteq> [])
     [El ''section'' [Cls [''section'']] [El ''h3'' [Cls [''sectionTitle'']] [Txt title], box ''cardList'' cards]]"

definition ticketsList :: "pageEnv \<Rightarrow> ticketsData \<Rightarrow> ticketGroup list \<Rightarrow> ticketsEvent html" where
  "ticketsList env d gs =
     box ''page'' (El ''h2'' [Cls [''title'']] [Txt ''My Tickets'']
       # walletGate (tdConnected d) ''Connect to view your tickets''
           ''Your ticket history lives on-chain - connect the wallet you bought with.'' ConnectWallet
           (onlyIf (tdLoading d) [box ''loading'' [coinLoader ''sm'' []]]
            @ onlyIf (\<not> tdLoading d \<and> gs = [])
                [emptyState ''ticket'' ''No tickets yet''
                   ''You haven't bought a ticket this epoch. Head to Play and stage your first one.'' (Some (''Buy a ticket'', GoPlay))]
            @ cardSection ''Upcoming'' (map (upcomingCard env d) (filter (\<lambda>g. tgSettledAt g = None) gs))
            @ cardSection ''Previous'' (map (previousCard env d) (filter (\<lambda>g. tgSettledAt g \<noteq> None) gs))))"

definition ticketsPageView :: "pageEnv \<Rightarrow> ticketsData \<Rightarrow> ticketsState \<Rightarrow> ticketsEvent html option" where
  "ticketsPageView env d st =
     (case find (\<lambda>g. Some (tgEpoch g) = tsSelected st) (pageGroups d) of
        Some g \<Rightarrow> ticketGroupDetail env d st g
      | None \<Rightarrow> Some (ticketsList env d (pageGroups d)))"

section \<open>What the user does\<close>

definition selectedGroup :: "ticketsData \<Rightarrow> ticketsState \<Rightarrow> ticketGroup option" where
  "selectedGroup d st = find (\<lambda>g. Some (tgEpoch g) = tsSelected st) (pageGroups d)"

text \<open>A page that is left takes its state along; the list of transactions forgets its rows when it closes.\<close>

definition ticketsStep :: "ticketsData \<Rightarrow> ticketsEvent \<Rightarrow> ticketsState \<Rightarrow> ticketsState" where
  "ticketsStep d e st =
     (let here = (case selectedGroup d st of None \<Rightarrow> st | Some g \<Rightarrow> localOf (groupBodyOf d g) st) in
      case e of
        OpenGroup i \<Rightarrow> freshTickets\<lparr>tsSelected := Some i\<rparr>
      | Back \<Rightarrow> freshTickets
      | CheckResults \<Rightarrow> here\<lparr>tsRevealing := True, tsPopped := 0\<rparr>
      | ToggleHistory \<Rightarrow> here\<lparr>tsTxOpen := \<not> tsTxOpen here, tsOpenOrders := []\<rparr>
      | ToggleOrder h \<Rightarrow> here\<lparr>tsOpenOrders := (if h \<in> set (tsOpenOrders here) then filter (\<lambda>x. x \<noteq> h) (tsOpenOrders here)
            else h # tsOpenOrders here)\<rparr>
      | GoPlay \<Rightarrow> freshTickets | GoWinnings \<Rightarrow> freshTickets | ConnectWallet \<Rightarrow> st)"

text \<open>A timer of the animation; the last one opens the epoch for good, and plays the chime for a win.\<close>

definition revealTick :: "revealStep \<Rightarrow> ticketGroup \<Rightarrow> ticketsData \<times> ticketsState \<Rightarrow> (ticketsData \<times> ticketsState) \<times> bool" where
  "revealTick s g p =
     (case s of Complete \<Rightarrow> (((fst p)\<lparr>tdRevealed := reveal (tdWallet (fst p)) (tgEpoch g) (tdRevealed (fst p))\<rparr>, snd p),
          hasWon (tgTickets g))
      | _ \<Rightarrow> ((fst p, (snd p)\<lparr>tsPopped := Suc (tsPopped (snd p))\<rparr>), False))"

section \<open>The page on what the API sends\<close>

text \<open>
  A ticket of the API that names a draw time also names the drawn numbers, and then every body of
  the page finds what it reads.
\<close>

definition drawnTogether :: "ticketView \<Rightarrow> bool" where
  "drawnTogether t = (tvSettledAt t = None \<or> tvWinningNormals t \<noteq> None \<and> tvWinningBonus t \<noteq> None)"

lemma viewTicket_together: "drawnTogether (viewTicket env w p)"
  by (auto simp: drawnTogether_def viewTicket_def Let_def split: option.splits if_splits)

definition groupSound :: "ticketGroup \<Rightarrow> bool" where
  "groupSound g = (tgSettledAt g = None \<or> drawnNumbers g \<noteq> None)"

definition groupsOk :: "(ticketView \<Rightarrow> bool) \<Rightarrow> (int \<times> ticketView list) list \<Rightarrow> bool" where
  "groupsOk P m = list_all (\<lambda>p. snd p \<noteq> [] \<and> list_all (\<lambda>x. P x \<and> ticketEpoch x = fst p) (snd p)) m"

lemma pushEpoch_all: "groupsOk P m \<Longrightarrow> P t \<Longrightarrow> groupsOk P (pushEpoch t m)"
  by (induction t m rule: pushEpoch.induct) (auto simp: groupsOk_def)

lemma byEpoch_all: "\<forall>t \<in> set ts. P t \<Longrightarrow> groupsOk P (byEpoch ts)"
proof -
  assume P: "\<forall>t \<in> set ts. P t"
  have "groupsOk P (fold pushEpoch us m)" if "\<forall>t \<in> set us. P t" "groupsOk P m" for us m
    using that by (induction us arbitrary: m) (simp_all add: pushEpoch_all)
  then show ?thesis using P by (simp add: byEpoch_def groupsOk_def)
qed

lemma ticketGroups_all:
  assumes "\<forall>t \<in> set ts. P t" "g \<in> set (ticketGroups ts)"
  shows "tgTickets g \<noteq> [] \<and> (\<forall>x \<in> set (tgTickets g). P x \<and> ticketEpoch x = tgEpoch g)"
  using byEpoch_all [OF assms(1)] assms(2) by (auto simp: ticketGroups_def mkGroup_def groupsOk_def list_all_iff)

lemma groups_sound:
  assumes "\<forall>t \<in> set ts. drawnTogether t" "g \<in> set (ticketGroups ts)"
  shows "groupSound g"
proof -
  obtain p where p: "p \<in> set (byEpoch ts)" "g = mkGroup p" using assms(2) by (auto simp: ticketGroups_def)
  have "drawnTogether (hd (snd p))" using byEpoch_all [OF assms(1)] p(1) by (auto simp: groupsOk_def list_all_iff)
  then show ?thesis by (auto simp: groupSound_def drawnTogether_def mkGroup_def p(2) drawnNumbers_def)
qed

lemma detail_shown:
  assumes "groupSound g"
  shows "ticketGroupDetail env d st g \<noteq> None"
proof (cases "tgSettledAt g")
  case None
  then show ?thesis by (simp add: ticketGroupDetail_def groupBodyOf_def groupDetail_def Let_def)
next
  case (Some t)
  then obtain dn where "drawnNumbers g = Some dn" using assms by (auto simp: groupSound_def)
  then show ?thesis
    by (auto simp: ticketGroupDetail_def Let_def notRevealedDetail_def wonDetail_def lostDetail_def winningNumbersRow_def
        split: groupBody.splits)
qed

lemma find_mem: "find P xs = Some x \<Longrightarrow> x \<in> set xs"
  by (induction xs) (auto split: if_splits)

text \<open>
  C37: the tickets page never breaks on what the API sends: for every answer of the tickets route,
  whatever the database, the store and the state of the page, it draws; in particular the numbers it
  reads for a settled group are there.
\<close>
theorem tickets_page_draws:
  assumes "ticketsRoute env walletQ limitQ offsetQ w = Ok page" "tdTickets d = Some (tpTickets page)"
  shows "ticketsPageView digitsEnv d st \<noteq> None"
proof -
  have "\<forall>t \<in> set (tpTickets page). drawnTogether t"
    using assms(1) viewTicket_together
    by (auto simp: ticketsRoute_def Let_def split: option.splits if_splits)
  then have "groupSound g" if "g \<in> set (pageGroups d)" for g
    using that assms(2) by (simp add: pageGroups_def groups_sound)
  then show ?thesis
    using detail_shown find_mem [of _ "pageGroups d"] by (fastforce simp: ticketsPageView_def split: option.splits)
qed

definition digitsEnv :: pageEnv where
  "digitsEnv = \<lparr> peNow = 99, peDate = bigIntToString, peShortDate = bigIntToString, peTime = bigIntToString,
     peNumber = bigIntToString \<rparr>"

theorem tickets_page_draws_witness:
  "ticketsPageView digitsEnv \<lparr> tdTickets = Some (map (viewTicket (protoSample 99) (beforeReveal WON_UNCLAIMED 7))
       (walletTickets ''alice'' (beforeReveal WON_UNCLAIMED 7))), tdLoading = False, tdEpochId = Some 8, tdNextDraw = None,
     tdConnected = True, tdWallet = ''alice'', tdRevealed = [] \<rparr> freshTickets \<noteq> None"
proof -
  have "ticketsRoute (protoSample 99) (Some (JStr ''alice'')) None None (beforeReveal WON_UNCLAIMED 7)
    = Ok \<lparr> tpTotal = 1, tpLimit = 500, tpOffset = 0, tpHasMore = False,
        tpTickets = map (viewTicket (protoSample 99) (beforeReveal WON_UNCLAIMED 7)) (walletTickets ''alice'' (beforeReveal WON_UNCLAIMED 7)) \<rparr>"
    by (simp add: ticketsRoute_def queryWallet_def protoSample_def beforeReveal_def walletTickets_def waitingOrder_def
        orderOf_def emptyWorld_def newTicket_def jsSort_def prismaTake_def wholeNum_def orElse_def List.map_filter_def)
  from tickets_page_draws [OF this] show ?thesis by simp
qed

section \<open>The page keeps an unopened result to itself\<close>

definition maskView :: "ticketView \<Rightarrow> ticketView" where
  "maskView t = t\<lparr>tvStatus := DRAW_PENDING, tvAmount := ''0'', tvFree := False, tvWinningNormals := None, tvWinningBonus := None\<rparr>"

definition ticketAlike :: "ticketsData \<Rightarrow> ticketView \<Rightarrow> ticketView \<Rightarrow> bool" where
  "ticketAlike d t t' = (t' = t \<or> \<not> isRevealed (tdWallet d) (ticketEpoch t) (tdRevealed d) \<and> maskView t' = maskView t
     \<and> (tvStatus t' = DRAW_PENDING \<longleftrightarrow> tvStatus t = DRAW_PENDING))"

definition maskGroup :: "ticketGroup \<Rightarrow> ticketGroup" where
  "maskGroup g = g\<lparr>tgTickets := map maskView (tgTickets g), tgWinningNormals := None, tgWinningBonus := None\<rparr>"

definition groupAlike :: "ticketsData \<Rightarrow> ticketGroup \<Rightarrow> ticketGroup \<Rightarrow> bool" where
  "groupAlike d g g' \<longleftrightarrow> g' = g \<or> \<not> isRevealed (tdWallet d) (tgEpoch g) (tdRevealed d) \<and> tgTickets g \<noteq> [] \<and> tgTickets g' \<noteq> []
     \<and> maskGroup g' = maskGroup g \<and> isGrading (tgTickets g') = isGrading (tgTickets g)"

lemma maskView_sel [simp]:
  "tvNormals (maskView t) = tvNormals t" "tvBonus (maskView t) = tvBonus t" "tvOrderStatus (maskView t) = tvOrderStatus t"
  "tvOrderHash (maskView t) = tvOrderHash t" "tvBaseTx (maskView t) = tvBaseTx t" "tvPurchasedAt (maskView t) = tvPurchasedAt t"
  "tvSignature (maskView t) = tvSignature t" "tvSettledAt (maskView t) = tvSettledAt t" "tvEndedAt (maskView t) = tvEndedAt t"
  "ticketEpoch (maskView t) = ticketEpoch t"
  by (simp_all add: maskView_def ticketEpoch_def split: option.splits)

lemma maskGroup_sel [simp]:
  "tgEpoch (maskGroup g) = tgEpoch g" "tgSettledAt (maskGroup g) = tgSettledAt g" "tgAnchor (maskGroup g) = tgAnchor g"
  "tgTickets (maskGroup g) = map maskView (tgTickets g)"
  by (simp_all add: maskGroup_def)

lemma addProof_mask [simp]: "addProof (maskView t) ps = addProof t ps"
  by (induction t ps rule: addProof.induct) simp_all

lemma addProof_masks [simp]: "(\<lambda>t. addProof (maskView t)) = addProof"
  by (simp add: fun_eq_iff)

lemma txHistory_mask [simp]: "txHistory (map maskView ts) = txHistory ts"
  by (simp add: txHistory_def fold_map comp_def)

text \<open>Everything the page draws before the user asks is drawn from the masked group.\<close>

lemma mask_views:
  assumes "tgTickets g \<noteq> []"
  shows "groupStub (maskGroup g) = groupStub g" "upcomingCard env d (maskGroup g) = upcomingCard env d g"
    "ticketOutcomeListPlain (maskGroup g) = ticketOutcomeListPlain g"
    "txHistoryView env st (map maskView ts) = txHistoryView env st ts"
    "upcomingDetail env d st (maskGroup g) = upcomingDetail env d st g"
    "gradingDetail env st (maskGroup g) = gradingDetail env st g"
    "\<not> tsRevealing st \<Longrightarrow> notRevealedDetail env st (maskGroup g) = notRevealedDetail env st g"
    "headerDate env d (maskGroup g) = headerDate env d g"
proof -
  have hd: "hd (map maskView (tgTickets g)) = maskView (hd (tgTickets g))" using assms by (rule hd_map)
  show stub: "groupStub (maskGroup g) = groupStub g" by (simp add: groupStub_def hd)
  have tgt: "groupTarget d (maskGroup g) = groupTarget d g" by (simp add: groupTarget_def)
  have proc: "isGroupProcessing (map maskView (tgTickets g)) = isGroupProcessing (tgTickets g)"
    by (simp add: isGroupProcessing_def list_ex_iff)
  show "upcomingCard env d (maskGroup g) = upcomingCard env d g"
    by (simp only: upcomingCard_def stub tgt proc maskGroup_sel length_map)
  show plain: "ticketOutcomeListPlain (maskGroup g) = ticketOutcomeListPlain g"
    by (simp add: ticketOutcomeListPlain_def purchasedHeader_def comp_def)
  show hist: "txHistoryView env st (map maskView ts) = txHistoryView env st ts" for env st ts
    by (simp add: txHistoryView_def)
  show "upcomingDetail env d st (maskGroup g) = upcomingDetail env d st g"
    by (simp only: upcomingDetail_def stub tgt proc plain hist maskGroup_sel)
  show "gradingDetail env st (maskGroup g) = gradingDetail env st g"
    by (simp only: gradingDetail_def stub plain hist maskGroup_sel)
  show "notRevealedDetail env st (maskGroup g) = notRevealedDetail env st g" if "\<not> tsRevealing st"
    using that by (simp only: notRevealedDetail_def stub plain hist maskGroup_sel if_False)
  show "headerDate env d (maskGroup g) = headerDate env d g"
    by (simp only: headerDate_def tgt maskGroup_sel)
qed

text \<open>A card of a settled group that is not opened shows no result.\<close>

lemma previousCard_unopened:
  assumes "tgTickets g \<noteq> []" "\<not> isRevealed (tdWallet d) (tgEpoch g) (tdRevealed d)"
  shows "previousCard env d g =
    El ''button'' [Attr ''type'' ''button'', Cls [''card''], Click (OpenGroup (tgEpoch g))]
      ([groupStub g, para ''cardCount'' (countText (length (tgTickets g)) ''Ticket''),
        para ''cardDate'' (case tgSettledAt g of Some t \<Rightarrow> peShortDate env t | None \<Rightarrow> [])]
       @ onlyIf (isGrading (tgTickets g)) [para ''cardHint'' ''Finalizing...'']
       @ onlyIf (\<not> isGrading (tgTickets g)) [para ''cardHint'' ''Tap to reveal''])"
  using assms(2) by (simp add: previousCard_def Let_def onlyIf_def)

lemma alike_views:
  assumes "groupAlike d g g'"
  shows "tgEpoch g' = tgEpoch g \<and> tgSettledAt g' = tgSettledAt g \<and> upcomingCard env d g' = upcomingCard env d g
    \<and> previousCard env d g' = previousCard env d g
    \<and> (\<not> tsRevealing st \<longrightarrow> ticketGroupDetail env d st g' = ticketGroupDetail env d st g)"
proof (cases "g' = g")
  case False
  then have a: "\<not> isRevealed (tdWallet d) (tgEpoch g) (tdRevealed d)" "tgTickets g \<noteq> []" "tgTickets g' \<noteq> []"
    "maskGroup g' = maskGroup g" "isGrading (tgTickets g') = isGrading (tgTickets g)"
    using assms by (auto simp: groupAlike_def)
  have e: "tgEpoch g' = tgEpoch g" "tgSettledAt g' = tgSettledAt g" using a(4) by (metis maskGroup_sel)+
  have n: "length (tgTickets g') = length (tgTickets g)" using a(4) by (metis maskGroup_sel(4) length_map)
  note v = mask_views [OF a(2)] and v' = mask_views [OF a(3)]
  have stub: "groupStub g' = groupStub g" using v(1) v'(1) a(4) by metis
  have up: "upcomingCard env d g' = upcomingCard env d g" using v(2) v'(2) a(4) by metis
  have prev: "previousCard env d g' = previousCard env d g"
    using previousCard_unopened [OF a(2,1), of env] previousCard_unopened [OF a(3), of d env] a(1) e n stub a(5) by simp
  have kind: "groupBodyOf d g' = groupBodyOf d g" "groupBodyOf d g \<noteq> WonBody" "groupBodyOf d g \<noteq> LostBody"
    using a(1,5) e by (auto simp: groupBodyOf_def groupDetail_def)
  have body: "headerDate env d g' = headerDate env d g" "upcomingDetail env d st g' = upcomingDetail env d st g"
    "gradingDetail env st g' = gradingDetail env st g"
    "\<not> tsRevealing st \<Longrightarrow> notRevealedDetail env st g' = notRevealedDetail env st g" for st
    using v v' a(4) by metis+
  have "\<not> tsRevealing (localOf k st)" if "\<not> tsRevealing st" for k
    using that by (simp add: localOf_def freshTickets_def)
  then have "\<not> tsRevealing st \<longrightarrow> ticketGroupDetail env d st g' = ticketGroupDetail env d st g"
    using kind body by (cases "groupBodyOf d g") (simp_all add: ticketGroupDetail_def Let_def)
  then show ?thesis using e up prev by blast
qed simp

definition bucketAlike :: "ticketsData \<Rightarrow> int \<times> ticketView list \<Rightarrow> int \<times> ticketView list \<Rightarrow> bool" where
  "bucketAlike d p p' \<longleftrightarrow> fst p' = fst p \<and> snd p \<noteq> []
     \<and> list_all2 (\<lambda>t t'. ticketAlike d t t' \<and> ticketEpoch t = fst p) (snd p) (snd p')"

lemma ticketAlike_epoch: "ticketAlike d t t' \<Longrightarrow> ticketEpoch t' = ticketEpoch t"
  by (auto simp: ticketAlike_def dest!: arg_cong [of _ _ ticketEpoch])

lemma pushEpoch_alike:
  "list_all2 (bucketAlike d) m m' \<Longrightarrow> ticketAlike d t t' \<Longrightarrow> list_all2 (bucketAlike d) (pushEpoch t m) (pushEpoch t' m')"
proof (induction m m' rule: list_all2_induct)
  case Nil
  then show ?case using ticketAlike_epoch [OF Nil] by (simp add: bucketAlike_def)
next
  case (Cons p m p' m')
  obtain e ts e' ts' where p: "p = (e, ts)" "p' = (e', ts')" by fastforce
  then show ?case
    using Cons ticketAlike_epoch [OF Cons.prems] by (auto simp: bucketAlike_def intro!: list_all2_appendI)
qed

lemma byEpoch_alike: "list_all2 (ticketAlike d) ts ts' \<Longrightarrow> list_all2 (bucketAlike d) (byEpoch ts) (byEpoch ts')"
proof -
  assume ts: "list_all2 (ticketAlike d) ts ts'"
  have "list_all2 (bucketAlike d) (fold pushEpoch us m) (fold pushEpoch us' m')"
    if "list_all2 (ticketAlike d) us us'" "list_all2 (bucketAlike d) m m'" for us us' m m'
    using that by (induction us us' arbitrary: m m' rule: list_all2_induct) (simp_all add: pushEpoch_alike)
  then show ?thesis using ts by (simp add: byEpoch_def)
qed

lemma mkGroup_alike: assumes "bucketAlike d p p'" shows "groupAlike d (mkGroup p) (mkGroup p')"
proof -
  have all: "list_all2 (\<lambda>t t'. ticketAlike d t t' \<and> ticketEpoch t = fst p) (snd p) (snd p')"
    using assms by (simp add: bucketAlike_def)
  show ?thesis
proof (cases "isRevealed (tdWallet d) (fst p) (tdRevealed d)")
  case True
  have "t = t'" if "ticketAlike d t t' \<and> ticketEpoch t = fst p" for t t'
    using that True unfolding ticketAlike_def by metis
  then have "list_all2 (=) (snd p) (snd p')" by (rule list_all2_mono [OF all])
  then show ?thesis using assms by (simp add: groupAlike_def mkGroup_def bucketAlike_def flip: list_all2_eq)
next
  case False
  have l: "list_all2 (\<lambda>t t'. maskView t' = maskView t \<and> (tvStatus t' = DRAW_PENDING) = (tvStatus t = DRAW_PENDING)) (snd p) (snd p')"
    using all unfolding ticketAlike_def by (rule list_all2_mono) metis
  then have m: "map maskView (snd p') = map maskView (snd p)" and g: "isGrading (snd p') = isGrading (snd p)"
    unfolding isGrading_def by (induction rule: list_all2_induct) simp_all
  have ne: "snd p \<noteq> []" "snd p' \<noteq> []" using assms by (auto simp: bucketAlike_def)
  then have h: "maskView (hd (snd p')) = maskView (hd (snd p))" using m by (metis hd_map)
  have "tvSettledAt (hd (snd p')) = tvSettledAt (hd (snd p))" "tvEndedAt (hd (snd p')) = tvEndedAt (hd (snd p))"
    using h by (metis maskView_sel)+
  then show ?thesis
    using False assms ne m g by (simp add: groupAlike_def mkGroup_def maskGroup_def bucketAlike_def)
qed
qed

lemma groups_alike: "list_all2 (ticketAlike d) ts ts' \<Longrightarrow> list_all2 (groupAlike d) (ticketGroups ts) (ticketGroups ts')"
  unfolding ticketGroups_def
proof (rule jsSort_rel)
  assume "list_all2 (ticketAlike d) ts ts'"
  then have "list_all2 (bucketAlike d) (byEpoch ts) (byEpoch ts')" by (rule byEpoch_alike)
  then show "list_all2 (groupAlike d) (map mkGroup (byEpoch ts)) (map mkGroup (byEpoch ts'))"
    by (simp add: list.rel_map list_all2_mono mkGroup_alike)
next
  show "tgEpoch b - tgEpoch a = tgEpoch b' - tgEpoch a'" if "groupAlike d a a'" "groupAlike d b b'" for a a' b b'
    using alike_views [OF that(1)] alike_views [OF that(2)] by simp
qed

lemma target_ignores_list [simp]: "groupTarget (d\<lparr>tdTickets := x\<rparr>) g = groupTarget d g"
  by (simp add: groupTarget_def)

lemma parts_ignore_list [simp]:
  "upcomingCard env (d\<lparr>tdTickets := x\<rparr>) = upcomingCard env d" "previousCard env (d\<lparr>tdTickets := x\<rparr>) = previousCard env d"
  "groupBodyOf (d\<lparr>tdTickets := x\<rparr>) g = groupBodyOf d g" "headerDate env (d\<lparr>tdTickets := x\<rparr>) g = headerDate env d g"
  "upcomingDetail env (d\<lparr>tdTickets := x\<rparr>) st g = upcomingDetail env d st g"
  "tdConnected (d\<lparr>tdTickets := x\<rparr>) = tdConnected d" "tdLoading (d\<lparr>tdTickets := x\<rparr>) = tdLoading d"
proof -
  show "headerDate env (d\<lparr>tdTickets := x\<rparr>) g = headerDate env d g" by (cases "tgSettledAt g") (simp_all add: headerDate_def)
  show "upcomingCard env (d\<lparr>tdTickets := x\<rparr>) = upcomingCard env d" by (rule ext) (simp add: upcomingCard_def)
  show "previousCard env (d\<lparr>tdTickets := x\<rparr>) = previousCard env d" by (rule ext) (simp add: previousCard_def)
qed (simp_all add: groupBodyOf_def upcomingDetail_def)

lemma views_ignore_list [simp]:
  "ticketGroupDetail env (d\<lparr>tdTickets := x\<rparr>) st g = ticketGroupDetail env d st g"
  "ticketsList env (d\<lparr>tdTickets := x\<rparr>) gs = ticketsList env d gs"
  by (simp_all only: ticketGroupDetail_def ticketsList_def parts_ignore_list)

lemma cards_alike:
  assumes "list_all2 (groupAlike d) gs gs'"
  shows "map (upcomingCard env d) (filter (\<lambda>g. tgSettledAt g = None) gs') = map (upcomingCard env d) (filter (\<lambda>g. tgSettledAt g = None) gs)"
    "map (previousCard env d) (filter (\<lambda>g. tgSettledAt g \<noteq> None) gs') = map (previousCard env d) (filter (\<lambda>g. tgSettledAt g \<noteq> None) gs)"
  using assms by (induction rule: list_all2_induct) (auto simp: alike_views)

text \<open>
  C36: the tickets page keeps an unopened result to itself: as long as the user has not pressed
  Check Results for an epoch, what the page draws does not depend on whether its tickets won, on the
  amounts or on the drawn numbers; two answers of the API that differ only there give the same page.
\<close>
theorem page_hides_unopened:
  assumes "list_all2 (ticketAlike d) ts ts'" "\<not> tsRevealing st"
  shows "ticketsPageView env (d\<lparr>tdTickets := Some ts'\<rparr>) st = ticketsPageView env (d\<lparr>tdTickets := Some ts\<rparr>) st"
proof -
  let ?P = "\<lambda>g. Some (tgEpoch g) = tsSelected st"
  have gs: "list_all2 (groupAlike d) (ticketGroups ts) (ticketGroups ts')" by (rule groups_alike [OF assms(1)])
  then have e: "(ticketGroups ts' = []) = (ticketGroups ts = [])" by (auto simp: list_all2_Nil list_all2_Nil2)
  have list: "ticketsList env d (ticketGroups ts') = ticketsList env d (ticketGroups ts)"
    by (simp only: ticketsList_def cards_alike [OF gs] e)
  have same: "ticketGroupDetail env d st g' = ticketGroupDetail env d st g" "?P g' = ?P g" if "groupAlike d g g'" for g g'
    using alike_views [OF that, of env st] assms(2) by auto
  have "map_option (ticketGroupDetail env d st) (find ?P (ticketGroups ts')) = map_option (ticketGroupDetail env d st) (find ?P (ticketGroups ts))"
    using gs by (induction rule: list_all2_induct) (simp_all add: same)
  then show ?thesis
    by (cases "find ?P (ticketGroups ts)"; cases "find ?P (ticketGroups ts')")
      (simp_all add: ticketsPageView_def pageGroups_def list)
qed

definition bobData :: ticketsData where
  "bobData = \<lparr> tdTickets = None, tdLoading = False, tdEpochId = Some 9, tdNextDraw = Some 50, tdConnected = True,
     tdWallet = ''bob'', tdRevealed = [''alice:7''] \<rparr>"

theorem page_hides_unopened_witness:
  "ticketsPageView digitsEnv (bobData\<lparr>tdTickets := Some [drawnTicket\<lparr>tvStatus := LOST, tvAmount := ''0''\<rparr>]\<rparr>) (freshTickets\<lparr>tsSelected := Some 7\<rparr>)
   = ticketsPageView digitsEnv (bobData\<lparr>tdTickets := Some [drawnTicket]\<rparr>) (freshTickets\<lparr>tsSelected := Some 7\<rparr>)"
proof -
  have k: "\<not> isRevealed ''bob'' 7 [''alice:7'']" by code_simp
  have "list_all2 (ticketAlike bobData) [drawnTicket] [drawnTicket\<lparr>tvStatus := LOST, tvAmount := ''0''\<rparr>]"
    using k by (simp add: ticketAlike_def bobData_def drawnTicket_def maskView_def ticketEpoch_def)
  then show ?thesis by (rule page_hides_unopened) (simp add: freshTickets_def)
qed

text \<open>Once opened, the page does show the result.\<close>

lemma opened_differs:
  "groupBodyOf (bobData\<lparr>tdRevealed := reveal ''bob'' 7 []\<rparr>) (mkGroup (7, [drawnTicket])) = WonBody
   \<and> groupBodyOf bobData (mkGroup (7, [drawnTicket])) = NotRevealedBody"
  by code_simp

end
