(* ===== verification/ResultsPage.thy ===== *)
theory ResultsPage
  imports TicketsPage
begin

text \<open>
  The results page (\<open>pages/Results/Results.tsx\<close>): the list of past draws, the detail of one draw with
  its winners and prize tiers, and the tickets of one winner, as functions from the answers of the API
  and the page's state to a tree of elements. \<open>prizeTiers\<close> reaches the browser as JSON; the page
  reads it as an array of tiers, and \<open>None\<close> stands for a page that meets anything else.
\<close>

section \<open>State and data\<close>

datatype resultsTab = WinnersTab | TiersTab

datatype resultsEvent =
    SelectEpoch int
  | BackToList
  | LoadMoreDraws
  | ShowTab resultsTab
  | SelectWinner string
  | CloseWinner
  | LoadMoreWinners

text \<open>The tab and the winner are state of the detail: they start afresh with it.\<close>

record resultsState =
  rsSelected :: "int option"
  rsTab :: resultsTab
  rsWinner :: "string option"

definition freshResults :: resultsState where
  "freshResults = \<lparr> rsSelected = None, rsTab = WinnersTab, rsWinner = None \<rparr>"

definition resultsStep :: "resultsEvent \<Rightarrow> resultsState \<Rightarrow> resultsState" where
  "resultsStep e st = (case e of SelectEpoch i \<Rightarrow> freshResults\<lparr>rsSelected := Some i\<rparr> | BackToList \<Rightarrow> freshResults
     | LoadMoreDraws \<Rightarrow> st | ShowTab t \<Rightarrow> st\<lparr>rsTab := t\<rparr> | SelectWinner b \<Rightarrow> st\<lparr>rsWinner := Some b\<rparr>
     | CloseWinner \<Rightarrow> st\<lparr>rsWinner := None\<rparr> | LoadMoreWinners \<Rightarrow> st)"

text \<open>A paged query: its pages so far, and whether there is another one.\<close>

record 'a paged =
  pgPages :: "'a list list option"
  pgLoading :: bool
  pgHasNext :: bool
  pgFetching :: bool

definition pagedRows :: "'a paged \<Rightarrow> 'a list" where
  "pagedRows q = (case pgPages q of None \<Rightarrow> [] | Some ps \<Rightarrow> concat ps)"

record resultsData =
  rdEpochs :: "epochView paged"
  rdStats :: "(int \<times> string) option"
  rdWinners :: "winnerRow paged"
  rdTickets :: "winnerTicket list option"
  rdTicketsLoading :: bool

section \<open>Tiers\<close>

definition wholeJson :: "json option \<Rightarrow> int option" where
  "wholeJson v = (case v of Some (JNum r) \<Rightarrow> (if of_int \<lfloor>r\<rfloor> = r then Some \<lfloor>r\<rfloor> else None) | _ \<Rightarrow> None)"

definition readTier :: "json \<Rightarrow> formattedTier option" where
  "readTier v = (case (wholeJson (getProp ''tierId'' v), getProp ''amount'' v, wholeJson (getProp ''ticketCount'' v)) of
     (Some i, Some (JStr a), Some n) \<Rightarrow> Some \<lparr> ftTierId = i, ftAmount = a, ftTicketCount = n \<rparr> | _ \<Rightarrow> None)"

fun readAll :: "json list \<Rightarrow> formattedTier list option" where
  "readAll [] = Some []"
| "readAll (v # vs) = (case (readTier v, readAll vs) of (Some t, Some ts) \<Rightarrow> Some (t # ts) | _ \<Rightarrow> None)"

definition readTiers :: "json \<Rightarrow> formattedTier list option" where
  "readTiers v = (case v of JArr vs \<Rightarrow> readAll vs | _ \<Rightarrow> None)"

definition tierRow :: "pageEnv \<Rightarrow> formattedTier \<Rightarrow> 'e html" where
  "tierRow env t =
     (let matches = ftTierId t div 2; bonus = (ftTierId t mod 2 \<noteq> 0); free = (ftTierId t \<in> set FREE_TICKET_TIER_IDS) in
      box ''tierRow''
        [box ''tierLeft''
           [box ''tierBalls''
              (map (\<lambda>i. El ''span'' [Cls [if int i < matches then ''tierDotFilled'' else ''tierDot'']] []) [0..<5]
               @ [El ''span'' [Cls [if bonus then ''tierDotBonus'' else ''tierDotBonusDim'']] []]),
            label ''tierText'' (tierLabel (ftTierId t))],
         box ''tierRight''
           [label (if free then ''tierAmountFree'' else ''tierAmount'') (if free then ''Free ticket'' else usdcText 2 (ftAmount t)),
            label ''tierWinners'' (if ftTicketCount t > 0
              then peNumber env (ftTicketCount t) @ '' winning ticket'' @ plural (ftTicketCount t) else ''No winning tickets'')]])"

definition ballRangeBlock :: "bool \<Rightarrow> int \<Rightarrow> string \<Rightarrow> 'e html" where
  "ballRangeBlock bonus hi name =
     box ''ballRangeBlock''
       [box ''ballRangeRow''
          [numberBall 1 ((plainBall ''sm'')\<lparr>blBonus := bonus\<rparr>) None, label ''ballRangeArrow'' ''->'',
           numberBall hi ((plainBall ''sm'')\<lparr>blBonus := bonus\<rparr>) None],
        label ''ballRangeLabel'' name]"

section \<open>A winner's tickets\<close>

definition winnerTicketStatus :: "winnerTicket \<Rightarrow> string \<times> string" where
  "winnerTicketStatus t = (case wtStatus t of WON_FREE_TICKET \<Rightarrow> (''Free Ticket'', ''free'') | LOST \<Rightarrow> (''No Win'', ''loss'')
     | _ \<Rightarrow> (''Win '' @ usdcText 2 (wtAmount t), ''win''))"

definition modalTicketRow :: "int list \<Rightarrow> int \<Rightarrow> winnerTicket \<Rightarrow> 'e html" where
  "modalTicketRow wn wb t =
     box ''modalTicketRow''
       [box ''modalTicketBalls''
          (map (\<lambda>n. numberBall n ((plainBall ''sm'')\<lparr>blWinning := n \<in> set wn\<rparr>) None) (wtNormals t)
           @ [numberBall (wtBonus t) ((bonusLook ''sm'')\<lparr>blWinning := wtBonus t = wb\<rparr>) None]),
        El ''span'' [Cls [''modalTicketPill'', ''modalPill_'' @ snd (winnerTicketStatus t)]] [Txt (fst (winnerTicketStatus t))]]"

definition winnerDetailModal :: "resultsData \<Rightarrow> string \<Rightarrow> int list \<Rightarrow> int \<Rightarrow> resultsEvent html" where
  "winnerDetailModal d b wn wb =
     El ''div'' [Cls [''modalBackdrop''], Click CloseWinner]
       [box ''modalCard''
          [box ''modalHeader''
             [El ''h3'' [Cls [''modalTitle'']] [Txt ''Recent Winner''],
              El ''button'' [Attr ''type'' ''button'', Cls [''modalClose''], Click CloseWinner] [Txt ''x'']],
           box ''modalWinner'' [box ''avatar'' [], label ''winnerAddress'' (shortenAddress b 4)],
           box ''purchasedHeader''
             (El ''h4'' [Cls [''purchasedTitle'']] [Txt ''Purchased'']
              # (case rdTickets d of None \<Rightarrow> [] | Some ts \<Rightarrow> [label ''purchasedCount'' (countText (length ts) ''Ticket'')])),
           box ''modalScrollList''
             (onlyIf (rdTicketsLoading d) [box ''loading'' [coinLoader ''sm'' []]]
              @ (case rdTickets d of None \<Rightarrow> [] | Some ts \<Rightarrow> map (modalTicketRow wn wb) ts))]]"

section \<open>The detail of a draw\<close>

definition ticketStub :: "string \<Rightarrow> int list \<Rightarrow> int \<Rightarrow> 'e html" where
  "ticketStub sz ns b =
     El ''div'' [classes [''stub'', if sz = ''lg'' then ''stubLg'' else []]]
       [box ''stubNotchLeft'' [], box ''stubNotchRight'' [],
        box ''stubBalls'' (plainBalls (if sz = ''lg'' then ''md'' else ''sm'') ns b), label ''stubMark'' ''LORDSPOT'']"

definition tabButton :: "resultsTab \<Rightarrow> resultsTab \<Rightarrow> string \<Rightarrow> resultsEvent html" where
  "tabButton current t name =
     El ''button'' [classes [''tab'', if current = t then ''tabActive'' else []], Click (ShowTab t)] [Txt name]"

definition winnerRowView :: "winnerRow \<Rightarrow> resultsEvent html" where
  "winnerRowView w =
     El ''button'' [Attr ''type'' ''button'', Cls [''winnerRow''], Click (SelectWinner (wrBuyer w))]
       [box ''winnerLeft''
          [box ''avatar'' [],
           El ''div'' [] [para ''winnerAddress'' (shortenAddress (wrBuyer w) 4),
                          para ''winnerTickets'' (countText (wrCount w) ''winning ticket'')]],
        label ''winnerAmount'' (usdcText 2 (wrTotal w))]"

definition loadMore :: "'a paged \<Rightarrow> resultsEvent \<Rightarrow> string \<Rightarrow> resultsEvent html list" where
  "loadMore q e name = onlyIf (pgHasNext q)
     [box ''loadMoreWrap'' [El ''button'' [Cls [''loadMoreButton''], Click e, Disabled (pgFetching q)]
        [Txt (if pgFetching q then ''Loading...'' else name)]]]"

definition winnersTab :: "resultsData \<Rightarrow> resultsEvent html list" where
  "winnersTab d =
     box ''winnersList''
       (onlyIf (pgLoading (rdWinners d)) [coinLoader ''sm'' ''Loading winners'']
        @ onlyIf (\<not> pgLoading (rdWinners d) \<and> pagedRows (rdWinners d) = []) [emptyState [] ''No winning tickets this round'' [] None]
        @ map winnerRowView (pagedRows (rdWinners d)))
     # loadMore (rdWinners d) LoadMoreWinners ''Load More Winners''"

definition tiersTab :: "pageEnv \<Rightarrow> epochView \<Rightarrow> formattedTier list \<Rightarrow> resultsEvent html list" where
  "tiersTab env e ts =
     box ''tiersList'' (map (tierRow env) (shownTiers ts))
     # (case (evNormalMax e, evBonusMax e) of
          (Some nm, Some bm) \<Rightarrow> [box ''ballRange'' [ballRangeBlock False nm ''normal balls'', ballRangeBlock True bm ''bonus balls'']]
        | _ \<Rightarrow> [])"

definition epochDetail :: "pageEnv \<Rightarrow> resultsData \<Rightarrow> resultsState \<Rightarrow> epochView \<Rightarrow> resultsEvent html option" where
  "epochDetail env d st e =
     map_option (\<lambda>ts.
       box ''page''
         ([box ''detailHeader''
             [El ''button'' [Cls [''backButton''], Click BackToList] [Txt ''<-''],
              El ''h2'' [Cls [''detailTitle'']] [Txt (peDate env (evSettledAt e))]],
           box ''detailCard''
             [ticketStub ''lg'' (evNormals e) (evBonusBall e),
              box ''statsGrid''
                [statBlock ''Jackpot'' ''statValueLg'' (usdcText 0 (evJackpot e)),
                 statBlock ''Prize Winners'' ''statValueLg'' (peNumber env (evTotalWinners e))]],
           box ''roundStatsHeader''
             [El ''h3'' [Cls [''roundStatsTitle'']] [Txt ''Round Stats''],
              El ''a'' [Cls [''verifyLink''], Attr ''href'' (''https://megapot.io/results/'' @ bigIntToString (evId e)),
                 Attr ''target'' ''_blank'', Attr ''rel'' ''noopener noreferrer''] [Txt ''Verify'']],
           box ''roundStats''
             [box ''roundStatBlock'' [label ''statLabel'' ''Prizes paid'', label ''roundStatValue'' (usdcText 2 (evTotalPaid e))],
              box ''roundStatBlock'' [label ''statLabel'' ''Tickets played'', label ''roundStatValue'' (peNumber env (evTotalTicketCount e))]],
           box ''tabs'' [tabButton (rsTab st) WinnersTab ''Winners'', tabButton (rsTab st) TiersTab ''Prize Tiers'']]
          @ onlyIf (rsTab st = WinnersTab) (winnersTab d)
          @ (case rsWinner st of None \<Rightarrow> [] | Some b \<Rightarrow> onlyIf (b \<noteq> []) [winnerDetailModal d b (evNormals e) (evBonusBall e)])
          @ onlyIf (rsTab st = TiersTab) (tiersTab env e ts)))
     (readTiers (evPrizeTiers e))"

section \<open>The list of draws\<close>

definition drawCard :: "pageEnv \<Rightarrow> epochView \<Rightarrow> resultsEvent html" where
  "drawCard env e =
     box ''card''
       [box ''cardDate'' [Txt (peDate env (evSettledAt e))], ticketStub ''md'' (evNormals e) (evBonusBall e),
        box ''statsRow''
          [box ''stat'' [label ''statLabel'' ''Jackpot'', label ''statValue'' (usdcText 0 (evJackpot e))],
           box ''stat'' [label ''statLabel'' ''Prize Winners'', label ''statValue'' (bigIntToString (evTotalWinners e))]],
        El ''button'' [Cls [''detailsButton''], Click (SelectEpoch (evId e))] [Txt ''Round details'']]"

definition statsStrip :: "pageEnv \<Rightarrow> int \<times> string \<Rightarrow> 'e html" where
  "statsStrip env s =
     box ''statsStrip''
       [box ''statsBlock'' [label ''statsLabel'' ''Jackpots won'', label ''statsValue'' (peNumber env (fst s))],
        box ''statsDivider'' [],
        box ''statsBlock'' [label ''statsLabel'' ''Prizes paid'',
          label ''statsValue'' (case bigIntOf (snd s) of Some n \<Rightarrow> formatDollarAmount n | None \<Rightarrow> ''$NaN'')]]"

definition resultsPage :: "pageEnv \<Rightarrow> resultsData \<Rightarrow> resultsState \<Rightarrow> resultsEvent html option" where
  "resultsPage env d st =
     (let es = pagedRows (rdEpochs d) in
      case find (\<lambda>e. Some (evId e) = rsSelected st) es of
        Some e \<Rightarrow> epochDetail env d st e
      | None \<Rightarrow> Some (box ''page''
          (El ''h1'' [Cls [''headline'']] [Txt ''Real Winners Everyday'']
           # (case rdStats d of None \<Rightarrow> [] | Some s \<Rightarrow> [statsStrip env s])
           @ [El ''h2'' [Cls [''sectionTitle'']] [Txt ''Past Draws'']]
           @ onlyIf (pgLoading (rdEpochs d)) [box ''loading'' [coinLoader ''sm'' []]]
           @ onlyIf (\<not> pgLoading (rdEpochs d) \<and> es = [])
               [emptyState ''clock'' ''No settled draws yet'' ''Results appear here once the first drawing concludes.'' None]
           @ [box ''list'' (map (drawCard env) es)]
           @ loadMore (rdEpochs d) LoadMoreDraws ''Load More Draws'')))"

section \<open>What the page shows\<close>

lemma whole_num [simp]: "wholeJson (Some (JNum (of_int i))) = Some i"
  by (simp add: wholeJson_def)

text \<open>The page reads the tiers as the service stored them.\<close>

lemma readTier_tierJson [simp]: "readTier (tierJson t) = Some t"
  by (simp add: readTier_def tierJson_def)

lemma readTiers_tiersJson [simp]: "readTiers (tiersJson ts) = Some ts"
proof -
  have "readAll (map tierJson ts) = Some ts" by (induction ts) simp_all
  then show ?thesis by (simp add: readTiers_def tiersJson_def)
qed

lemma modal_winning:
  "marked ''winning'' (modalTicketRow w wb t) =
     map bigIntToString (filter (\<lambda>n. n \<in> set w) (wtNormals t)) @ (if wtBonus t = wb then [bigIntToString (wtBonus t)] else [])"
  by (simp add: modalTicketRow_def comp_def plainBall_def bonusLook_def concat_if)

text \<open>The tier table: the tiers that pay or are a free ticket, the largest prize first.\<close>

definition tierAmount :: "formattedTier \<Rightarrow> int" where
  "tierAmount t = (case bigIntOf (ftAmount t) of Some n \<Rightarrow> n | None \<Rightarrow> 0)"

lemma shownTiers_sorted:
  assumes "\<forall>t \<in> set ts. bigIntOf (ftAmount t) \<noteq> None"
  shows "mset (shownTiers ts) = mset (filter (\<lambda>t. ftAmount t \<noteq> ''0'' \<or> ftTierId t \<in> set FREE_TICKET_TIER_IDS) ts)
    \<and> sorted_wrt (\<lambda>a b. tierAmount b \<le> tierAmount a) (shownTiers ts)"
proof -
  let ?c = "\<lambda>a b. case (bigIntOf (ftAmount a), bigIntOf (ftAmount b)) of
       (Some x, Some y) \<Rightarrow> (if y > x then 1 else -1 :: int) | _ \<Rightarrow> 0"
  let ?c' = "\<lambda>a b. if tierAmount b > tierAmount a then 1 else -1 :: int"
  let ?ts = "filter (\<lambda>t. ftAmount t \<noteq> ''0'' \<or> ftTierId t \<in> set FREE_TICKET_TIER_IDS) ts"
  let ?R = "\<lambda>a b. a = b \<and> bigIntOf (ftAmount a) \<noteq> None"
  have all: "list_all2 ?R ?ts ?ts" using assms by (simp add: list_all2_same)
  have same: "?c a b = ?c' a b" if "bigIntOf (ftAmount a) \<noteq> None" "bigIntOf (ftAmount b) \<noteq> None" for a b
    using that by (auto simp: tierAmount_def)
  have "fold (insertCmp ?c) us vs = fold (insertCmp ?c') us vs"
    if "\<forall>t \<in> set us \<union> set vs. bigIntOf (ftAmount t) \<noteq> None" for us vs
    using that
  proof (induction us arbitrary: vs)
    case (Cons u us)
    have ins: "insertCmp ?c u ws = insertCmp ?c' u ws" if "\<forall>t \<in> set ws. bigIntOf (ftAmount t) \<noteq> None" for ws
      using that Cons.prems same by (induction ws) (auto simp del: split_paired_Ex)
    have "set (insertCmp ?c' u vs) = insert u (set vs)"
      using mset_insertCmp [of ?c' u vs] by (metis set_mset_add_mset_insert set_mset_mset)
    then show ?case using Cons ins [of vs] by simp
  qed simp
  then have "shownTiers ts = jsSort ?c' ?ts" using assms by (simp add: shownTiers_def jsSort_def)
  moreover have "sorted_wrt (\<lambda>a b. tierAmount b \<le> tierAmount a) (jsSort ?c' ?ts)"
    by (rule jsSort_sorted) (auto split: if_splits)
  ultimately show ?thesis by simp
qed

end
