(* ===== verification/HomePage.thy ===== *)
theory HomePage
  imports ResultsPage Claims
begin

text \<open>
  The buy page (\<open>pages/Home/Home.tsx\<close>, with \<open>AnimatedPrizePool\<close>) and the winnings page
  (\<open>pages/Winnings/Winnings.tsx\<close>): what they draw, what a click, a typed count or a finished request does,
  and the states of the buy page a user can reach. The dollar amounts are doubles, rounded after each
  operation. A purchase holds the tickets that were staged at the click until the wallet answers.
\<close>

section \<open>State and data\<close>

datatype homeEvent =
    SetCount int
  | TypeCount string
  | BlurCount
  | ClearBasket
  | OpenEditorOn nat
  | ToggleEditor
  | Edit editorEvent
  | Buy
  | HomeConnect
  | Seed
  | BuyReturned "(string, string list) result"
  | OverlayDone

record homeState =
  hBasket :: basket
  hEditorOpen :: bool
  hExpanded :: "nat option"
  hTx :: txState
  hError :: string
  hCountText :: string
  hSeeded :: bool
  hPending :: "stagedTicket list option"

definition freshHome :: homeState where
  "freshHome = \<lparr> hBasket = \<lparr> staged = [], rndPos = 0 \<rparr>, hEditorOpen = False, hExpanded = None, hTx = TxIdle, hError = [],
     hCountText = ''0'', hSeeded = False, hPending = None \<rparr>"

text \<open>\<open>hdProgram\<close>: the wallet adapter is there, so the program object is not null and there is a public key.\<close>

record homeData =
  hdOnChain :: "onChainView option"
  hdApi :: "(bool \<times> int option \<times> int) option"
  hdBalance :: "int option"
  hdConnected :: bool
  hdProgram :: bool

definition apiPaused :: "homeData \<Rightarrow> bool option" where "apiPaused d = map_option fst (hdApi d)"

definition homePaused :: "homeData \<Rightarrow> bool" where "homePaused d = pagePaused (hdOnChain d) (apiPaused d)"

definition QUICK_COUNTS :: "int list" where "QUICK_COUNTS = [5, 10, 50, 100, 150, 200]"

section \<open>Dollars\<close>

definition ticketPrice :: "homeData \<Rightarrow> rat" where
  "ticketPrice d = (case hdOnChain d of Some v \<Rightarrow> usdcToNumber (ocTicketPrice v) | None \<Rightarrow> 1)"

definition ticketSubtotal :: "homeData \<Rightarrow> nat \<Rightarrow> rat" where
  "ticketSubtotal d n = fl (of_nat n * ticketPrice d)"

definition relayFee :: "nat \<Rightarrow> rat" where "relayFee n = usdcToNumber (calculateRelayFee (int n))"

definition totalCost :: "homeData \<Rightarrow> nat \<Rightarrow> rat" where "totalCost d n = fl (ticketSubtotal d n + relayFee n)"

definition dollars :: "nat \<Rightarrow> rat \<Rightarrow> string" where "dollars k x = ''$'' @ toFixed k x"

definition balanceText :: "homeData \<Rightarrow> string" where
  "balanceText d = dollars 2 (usdcToNumber (case_option 0 id (hdBalance d)))"

section \<open>Parts of the page\<close>

text \<open>The prize pool counts up to its value; this is where it comes to rest.\<close>

definition animatedPrizePool :: "int \<Rightarrow> 'e html" where
  "animatedPrizePool v =
     (let formatted = ''$'' @ groupDigits v in
      box ''wrap''
        [box ''labelRow'' [El ''span'' [Cls [''line'']] [], label ''label'' ''UP FOR GRABS'', El ''span'' [Cls [''line'']] []],
         El ''h1'' [Cls [''valueContainer'']] [label ''valueShadow'' formatted, label ''valueGradient'' formatted]])"

definition countStepper :: "homeState \<Rightarrow> homeEvent html list" where
  "countStepper st =
     (let n = length (staged (hBasket st)); atCap = (n \<ge> MAX_STAGED_TICKETS) in
      [box ''stepperRow''
         [label ''stepperLabel'' ''Ticket count'',
          box ''chips'' (map (\<lambda>k. El ''button'' [classes [''chip'', if int n = k then ''chipActive'' else []],
             Click (SetCount k), Disabled (k > int MAX_STAGED_TICKETS)] [Txt (bigIntToString k)]) QUICK_COUNTS)],
       box ''stepper''
         [El ''button'' [Click (SetCount (int n - 1)), Disabled (n = 0)] [Txt ''-''],
          El ''input'' [Attr ''type'' ''text'', Attr ''inputmode'' ''numeric'', Attr ''value'' (hCountText st),
             Change TypeCount, Blur BlurCount] [],
          El ''button'' [Click (SetCount (int n + 1)), Disabled atCap] [Txt ''+'']],
       para ''stepperHint''
         (if n = 0 then ''Set a count to auto-stage random tickets - edit any of them below.''
          else if atCap then ''Max '' @ bigIntToString (int MAX_STAGED_TICKETS) @ '' tickets per purchase.''
          else bigIntToString (int n) @ '' staged - adjust the count or edit numbers below.'')])"

definition stagedRow :: "homeData \<Rightarrow> nat \<times> stagedTicket \<Rightarrow> homeEvent html" where
  "stagedRow d p =
     box ''stagedRow''
       [box ''stagedBalls''
          (map (\<lambda>n. numberBall n (plainBall ''xs'') None) (stNormals (snd p))
           @ (case stBonus (snd p) of None \<Rightarrow> [] | Some b \<Rightarrow> [numberBall b (bonusLook ''xs'') None])
           @ onlyIf (\<not> isTicketComplete (snd p) (pageNormalMax (hdOnChain d)) (pageBonusMax (hdOnChain d)))
               [label ''incompleteTag'' ''Incomplete'']),
        El ''button'' [Cls [''editTicketButton''], Click (OpenEditorOn (fst p)), Attr ''aria-label'' ''Choose numbers for this ticket'']
          [El ''svg'' [] []]]"

definition stagedPanel :: "homeData \<Rightarrow> homeState \<Rightarrow> homeEvent html list" where
  "stagedPanel d st =
     (let ts = staged (hBasket st) in
      onlyIf (ts \<noteq> [])
        [box ''staged''
           ([box ''stagedHeader''
               [El ''span'' [] [Txt (''Staged tickets ('' @ bigIntToString (int (length ts)) @ ''/''
                   @ bigIntToString (int MAX_STAGED_TICKETS) @ '')'')],
                El ''button'' [Cls [''clearAll''], Click ClearBasket] [Txt ''Clear all'']]]
            @ onlyIf (\<not> hEditorOpen st) [box ''stagedList'' (map (stagedRow d) (enumerate 0 ts))]
            @ [El ''button'' [Cls [''editorToggle''], Click ToggleEditor]
                 [Txt (if hEditorOpen st then ''Hide editor'' else ''Choose numbers'')]]
            @ onlyIf (hEditorOpen st)
                [map_html Edit (ticketEditor ts (pageNormalMax (hdOnChain d)) (pageBonusMax (hdOnChain d)) (hExpanded st))])])"

definition costRow :: "string list \<Rightarrow> string \<Rightarrow> 'e html \<Rightarrow> 'e html" where
  "costRow cs name v = El ''div'' [Cls (''costRow'' # cs)] [El ''span'' [] [Txt name], v]"

definition costBreakdown :: "homeData \<Rightarrow> homeState \<Rightarrow> 'e html list" where
  "costBreakdown d st =
     (let n = length (staged (hBasket st)); fee = relayFee n in
      onlyIf (n > 0 \<and> allComplete (hdOnChain d) (hBasket st))
        [box ''costBreakdown''
           ([costRow [] (''Tickets ('' @ bigIntToString (int n) @ '' x '' @ dollars 2 (ticketPrice d) @ '')'')
               (El ''span'' [] [Txt (dollars 2 (ticketSubtotal d n))]),
             costRow [] ''Relay fee'' (if fee = 0 then label ''freeBadge'' ''FREE'' else El ''span'' [] [Txt (dollars 3 fee)]),
             costRow [''costTotal''] ''Total'' (El ''span'' [] [Txt (dollars 2 (totalCost d n))])]
            @ onlyIf (cannotAfford (hdOnChain d) (hdBalance d) (hBasket st))
                [box ''costShortfall'' [Txt (''Not enough USDC - you have '' @ balanceText d @ '', need '' @ dollars 2 (totalCost d n) @ ''.'')]]
            @ [para ''costHint'' (if fee = 0
                 then ''No relay fee, no bridging fee - you pay the ticket price and nothing else.''
                 else ''~ '' @ dollars 3 (fl (fee / of_nat n)) @ ''/ticket relay cost at this count - stage more tickets in one purchase to spread it thinner.'')])])"

definition buyDisabled :: "homeData \<Rightarrow> homeState \<Rightarrow> bool" where
  "buyDisabled d st = (\<not> allComplete (hdOnChain d) (hBasket st) \<or> hTx st \<noteq> TxIdle \<or> homePaused d \<or> \<not> hdProgram d
     \<or> (case hdOnChain d of None \<Rightarrow> True | Some v \<Rightarrow> ocAdmin v = []) \<or> cannotAfford (hdOnChain d) (hdBalance d) (hBasket st))"

definition buyText :: "homeData \<Rightarrow> homeState \<Rightarrow> string" where
  "buyText d st =
     (let n = length (staged (hBasket st)) in
      if n = 0 then ''Set a count to buy''
      else if \<not> allComplete (hdOnChain d) (hBasket st) then ''Finish selecting numbers''
      else if cannotAfford (hdOnChain d) (hdBalance d) (hBasket st)
        then ''Need '' @ dollars 2 (totalCost d n) @ '' - you have '' @ balanceText d
      else ''Buy '' @ countText n ''Ticket'' @ '' - '' @ dollars 2 (totalCost d n))"

definition homePage :: "pageEnv \<Rightarrow> homeData \<Rightarrow> homeState \<Rightarrow> homeEvent html" where
  "homePage env d st =
     box ''page''
       (transactionOverlay (hTx st) ''TICKETS SECURED'' (if hError st = [] then ''PURCHASE FAILED'' else hError st)
        @ onlyIf (homePaused d) [box ''pausedBanner'' [Txt ''Epoch is rolling over - ticket sales resume in moments.'']]
        @ [El ''section'' [Cls [''hero'']]
             [box ''badges'' [countdownBadge (peNow env) (Option.bind (hdApi d) (fst \<circ> snd)) ''Next draw''],
              animatedPrizePool (case hdApi d of Some (_, _, pool) \<Rightarrow> \<lfloor>usdcToNumber pool\<rfloor> | None \<Rightarrow> 0)],
           El ''section'' [Cls [''buyCard'']]
             (walletGate (hdConnected d) ''Connect to play''
                ''Connect a Solana wallet to buy tickets - LordsPot never touches your keys.'' HomeConnect
                (countStepper st @ stagedPanel d st @ costBreakdown d st
                 @ [El ''button'' [Cls [''buyButton''], Disabled (buyDisabled d st), Click Buy] [Txt (buyText d st)]]))])"

section \<open>Steps\<close>

definition closeEditor :: "homeState \<Rightarrow> homeState" where
  "closeEditor st = st\<lparr>hEditorOpen := False, hExpanded := None\<rparr>"

text \<open>The effect on a changed count: the box shows it.\<close>

definition withBasket :: "homeState \<Rightarrow> basket \<Rightarrow> homeState" where
  "withBasket st b =
     (if length (staged b) = length (staged (hBasket st)) then st\<lparr>hBasket := b\<rparr>
      else st\<lparr>hBasket := b, hCountText := bigIntToString (int (length (staged b)))\<rparr>)"

definition editBasket :: "nat \<Rightarrow> (nat \<Rightarrow> rat) \<Rightarrow> onChainView option \<Rightarrow> editorEvent \<Rightarrow> basket \<Rightarrow> basket option" where
  "editBasket fuel rnd oc e b =
     (case e of ToggleNormal i n \<Rightarrow> Some (toggleTicketNormal (int i) n b) | ToggleBonus i n \<Rightarrow> Some (toggleTicketBonus (int i) n b)
      | ShuffleTicket i \<Rightarrow> shuffleTicket fuel rnd (int i) (pageNormalMax oc) (pageBonusMax oc) b
      | ClearTicket i \<Rightarrow> Some (clearTicketBalls (int i) b) | RemoveTicket i \<Rightarrow> Some (removeTicket (int i) b)
      | ShuffleAll \<Rightarrow> shuffleAllTickets fuel rnd (pageNormalMax oc) (pageBonusMax oc) b
      | ClearAll \<Rightarrow> Some (clearAllTicketBalls b) | _ \<Rightarrow> Some b)"

definition editView :: "editorEvent \<Rightarrow> homeState \<Rightarrow> homeState" where
  "editView e st = (case e of Expand x \<Rightarrow> st\<lparr>hExpanded := x\<rparr> | CloseEditor \<Rightarrow> closeEditor st | _ \<Rightarrow> st)"

definition buyGuard :: "homeData \<Rightarrow> homeState \<Rightarrow> bool" where
  "buyGuard d st \<longleftrightarrow> hdProgram d \<and> (case hdOnChain d of None \<Rightarrow> False | Some v \<Rightarrow> ocAdmin v \<noteq> [])
     \<and> allComplete (hdOnChain d) (hBasket st) \<and> length (staged (hBasket st)) \<le> MAX_STAGED_TICKETS \<and> \<not> homePaused d"

definition homeStep :: "nat \<Rightarrow> (nat \<Rightarrow> rat) \<Rightarrow> homeData \<Rightarrow> homeEvent \<Rightarrow> homeState \<Rightarrow> homeState option" where
  "homeStep fuel rnd d e st =
     (let oc = hdOnChain d; b = hBasket st in
      case e of
        SetCount n \<Rightarrow> map_option (withBasket st) (setCount fuel rnd oc n b)
      | TypeCount s \<Rightarrow>
          (let (t, n) = countInput s; st' = st\<lparr>hCountText := t\<rparr> in
           case n of None \<Rightarrow> Some st' | Some k \<Rightarrow> map_option (withBasket st') (setCount fuel rnd oc k b))
      | BlurCount \<Rightarrow> Some (st\<lparr>hCountText := bigIntToString (int (length (staged b)))\<rparr>)
      | ClearBasket \<Rightarrow> Some (closeEditor (withBasket st (clearTickets b)))
      | OpenEditorOn i \<Rightarrow> Some (st\<lparr>hEditorOpen := True, hExpanded := Some i\<rparr>)
      | ToggleEditor \<Rightarrow> Some (if hEditorOpen st then closeEditor st else st\<lparr>hEditorOpen := True\<rparr>)
      | Edit ev \<Rightarrow> map_option (\<lambda>b'. editView ev (withBasket st b')) (editBasket fuel rnd oc ev b)
      | Buy \<Rightarrow> Some (if buyGuard d st then st\<lparr>hTx := TxLoading, hPending := Some (staged b)\<rparr> else st)
      | HomeConnect \<Rightarrow> Some st
      | Seed \<Rightarrow> map_option (\<lambda>p. (withBasket st (snd p))\<lparr>hSeeded := fst p\<rparr>) (seedBasket fuel rnd oc (hSeeded st) b)
      | BuyReturned r \<Rightarrow>
          Some (case r of Inl msg \<Rightarrow> st\<lparr>hTx := TxError, hError := msg, hPending := None\<rparr>
                | Inr sigs \<Rightarrow> (closeEditor (withBasket st (clearTickets b)))\<lparr>hTx := TxSuccess, hPending := None\<rparr>)
      | OverlayDone \<Rightarrow> Some (st\<lparr>hTx := TxIdle\<rparr>))"

section \<open>Reachable states\<close>

text \<open>
  A user clicks what the page offers and types into the count box while it is there; the rest are
  effects: seeding, the answer to a purchase in flight, and the timer that takes the overlay away.
\<close>

definition homeAllowed :: "pageEnv \<Rightarrow> homeData \<Rightarrow> homeEvent \<Rightarrow> homeState \<Rightarrow> bool" where
  "homeAllowed env d e st =
     (case e of TypeCount s \<Rightarrow> hdConnected d | BlurCount \<Rightarrow> hdConnected d | Seed \<Rightarrow> True | BuyReturned r \<Rightarrow> hPending st \<noteq> None
      | OverlayDone \<Rightarrow> hTx st = TxSuccess \<or> hTx st = TxError | _ \<Rightarrow> e \<in> set (clicks (homePage env d st)))"

inductive homeReach :: "(nat \<Rightarrow> rat) \<Rightarrow> homeState \<Rightarrow> bool" for rnd where
  h_fresh: "homeReach rnd freshHome"
| h_step: "homeReach rnd st \<Longrightarrow> homeAllowed env d e st \<Longrightarrow> homeStep fuel rnd d e st = Some st' \<Longrightarrow> homeReach rnd st'"

lemma isDisabled_map [simp]: "isDisabled (map (map_attr f) as) = isDisabled as"
proof -
  have "(case map_attr f a of Disabled d \<Rightarrow> d | _ \<Rightarrow> False) = (case a of Disabled d \<Rightarrow> d | _ \<Rightarrow> False)" for a
    by (cases a) auto
  then show ?thesis by (simp add: isDisabled_def list_ex_iff)
qed

lemma attrClick_map: "List.map_filter attrClick (map (map_attr f) as) = map f (List.map_filter attrClick as)"
proof (induction as)
  case (Cons a as)
  then show ?case by (cases a) simp_all
qed simp

lemma clicks_map_html [simp]: "clicks (map_html f h) = map f (clicks h)"
proof (induction h rule: clicks.induct)
  case (2 t as hs)
  then have "concat (map clicks (map (map_html f) hs)) = map f (concat (map clicks hs))"
    by (induction hs) simp_all
  then show ?case by (simp add: attrClick_map del: map_concat)
qed simp

lemma set_clicks_onlyIf [simp]: "set (concat (map clicks (onlyIf b hs))) = (if b then set (concat (map clicks hs)) else {})"
  by (simp add: onlyIf_def)

lemma overlay_clicks [simp]: "concat (map clicks (transactionOverlay st s e)) = []"
  by (cases st) (simp_all add: transactionOverlay_def overlayCard_def coinLoader_def onlyIf_def)

lemma static_clicks [simp]:
  "clicks (countdownBadge n t s) = []" "clicks (animatedPrizePool v) = []" "concat (map clicks (costBreakdown d st)) = []"
  by (auto simp: countdownBadge_def animatedPrizePool_def costBreakdown_def costRow_def onlyIf_def Let_def)

lemma stepper_clicks: "e \<in> set (concat (map clicks (countStepper st))) \<Longrightarrow> \<exists>n. e = SetCount n"
  by (auto simp: countStepper_def Let_def classes_def split: if_splits)

lemma stagedRow_clicks [simp]: "clicks (stagedRow d p) = [OpenEditorOn (fst p)]"
  by (auto simp: stagedRow_def onlyIf_def split: option.splits)

lemma panel_clicks:
  "e \<in> set (concat (map clicks (stagedPanel d st))) \<Longrightarrow>
   e \<in> {ClearBasket, ToggleEditor} \<or> (\<exists>i < length (staged (hBasket st)). e = OpenEditorOn i) \<or> (\<exists>x. e = Edit x)"
  by (auto simp: stagedPanel_def Let_def onlyIf_def in_set_enumerate_eq split: if_splits)

lemma buy_offered: "Buy \<in> set (clicks (homePage env d st)) \<longleftrightarrow> hdConnected d \<and> \<not> buyDisabled d st"
proof -
  have "Buy \<notin> set (concat (map clicks (countStepper st)))" using stepper_clicks by blast
  moreover have "Buy \<notin> set (concat (map clicks (stagedPanel d st)))" using panel_clicks by blast
  moreover have "clicks x = []" if "x \<in> set (costBreakdown d st)" for x :: "homeEvent html"
    using static_clicks(3) [of d st] that by (metis concat_eq_Nil_conv image_eqI list.set_map)
  ultimately show ?thesis by (auto simp: homePage_def walletGate_def split: if_splits)
qed

definition homeInv :: "(nat \<Rightarrow> rat) \<Rightarrow> homeState \<Rightarrow> bool" where
  "homeInv rnd st \<longleftrightarrow> basketReach rnd (hBasket st) \<and> (hPending st \<noteq> None \<longleftrightarrow> hTx st = TxLoading)"

lemma withBasket_sel [simp]:
  "hBasket (withBasket st b) = b" "hPending (withBasket st b) = hPending st" "hTx (withBasket st b) = hTx st"
  "hBasket (closeEditor st) = hBasket st" "hPending (closeEditor st) = hPending st" "hTx (closeEditor st) = hTx st"
  "hBasket (editView e st) = hBasket st" "hPending (editView e st) = hPending st" "hTx (editView e st) = hTx st"
  by (simp_all add: withBasket_def closeEditor_def editView_def split: editorEvent.splits)

lemma setCount_reach: "basketReach rnd b \<Longrightarrow> setCount fuel rnd oc n b = Some b' \<Longrightarrow> basketReach rnd b'"
  unfolding setCount_def by (rule b_sync)

lemma editBasket_reach: "basketReach rnd b \<Longrightarrow> editBasket fuel rnd oc e b = Some b' \<Longrightarrow> basketReach rnd b'"
  by (cases e) (auto simp: editBasket_def intro: basketReach.intros)

lemma seedBasket_reach: "basketReach rnd b \<Longrightarrow> seedBasket fuel rnd oc s b = Some p \<Longrightarrow> basketReach rnd (snd p)"
  by (auto simp: seedBasket_def split: if_splits intro: b_sync)

lemma homeStep_inv:
  assumes "homeInv rnd st" "homeAllowed env d e st" "homeStep fuel rnd d e st = Some st'"
  shows "homeInv rnd st'"
proof -
  have r: "basketReach rnd (hBasket st)" and p: "hPending st \<noteq> None \<longleftrightarrow> hTx st = TxLoading"
    using assms(1) by (auto simp: homeInv_def)
  note step = assms(3)
  show ?thesis
  proof (cases e)
    case (SetCount n)
    then show ?thesis using step r p setCount_reach by (auto simp: homeInv_def homeStep_def Let_def)
  next
    case (TypeCount s)
    obtain t n where "countInput s = (t, n)" by fastforce
    then show ?thesis using TypeCount step r p setCount_reach
      by (cases n) (auto simp: homeInv_def homeStep_def Let_def)
  next
    case (Edit x)
    then show ?thesis using step r p editBasket_reach by (auto simp: homeInv_def homeStep_def Let_def)
  next
    case Buy
    then have "hTx st = TxIdle" using assms(2) by (simp add: homeAllowed_def buy_offered buyDisabled_def)
    then show ?thesis using step r p Buy by (auto simp: homeInv_def homeStep_def split: if_splits)
  next
    case Seed
    then show ?thesis using step r p seedBasket_reach by (auto simp: homeInv_def homeStep_def Let_def)
  next
    case (BuyReturned x)
    then show ?thesis using step r p by (cases x) (auto simp: homeInv_def homeStep_def intro: b_clear)
  next
    case OverlayDone
    then have "hTx st \<noteq> TxLoading" using assms(2) by (auto simp: homeAllowed_def)
    then show ?thesis using step r p OverlayDone by (auto simp: homeInv_def homeStep_def)
  next
    case ClearBasket
    then show ?thesis using step r p by (auto simp: homeInv_def homeStep_def intro: b_clear)
  next
    case ToggleEditor
    then show ?thesis using step r p by (cases "hEditorOpen st") (auto simp: homeInv_def homeStep_def)
  qed (use step r p in \<open>auto simp: homeInv_def homeStep_def\<close>)
qed

lemma homeReach_inv: "homeReach rnd st \<Longrightarrow> homeInv rnd st"
proof (induction rule: homeReach.induct)
  case h_fresh
  then show ?case by (simp add: homeInv_def freshHome_def b_empty)
qed (blast intro: homeStep_inv)

text \<open>
  The total is a double, rounded three times on its way from the price on chain, and printed with two
  digits: the cents printed are the cost in units of the token, rounded to the nearest cent.
\<close>

definition centsText :: "int \<Rightarrow> string" where
  "centsText c = ''$'' @ bigIntToString (c div 100) @ decimals 2 c"

lemma cents_near:
  fixes x :: rat and u :: int
  assumes "0 \<le> x" "\<bar>x * 1000000 - of_int u\<bar> < 1"
  shows "\<bar>10000 * nearestUp (\<bar>x\<bar> * 10 ^ 2) - u\<bar> \<le> 5000"
proof -
  define c where "c = nearestUp (\<bar>x\<bar> * 10 ^ 2)"
  have "of_int c \<le> x * 100 + 1 / 2" "x * 100 + 1 / 2 < of_int c + 1"
    unfolding c_def nearestUp_def using assms(1) floor_correct [of "x * 100 + 1 / 2"] by simp_all
  then have "of_int (10000 * c) \<le> x * 1000000 + 5000" "x * 1000000 + 5000 < of_int (10000 * c) + 10000" by simp_all
  then have "of_int (10000 * c) < (of_int (u + 5001) :: rat)" "(of_int (u - 5001) :: rat) < of_int (10000 * c)"
    using assms(2) by (simp_all add: abs_less_iff)
  then have "10000 * c < u + 5001" "u - 5001 < 10000 * c" by (simp_all only: of_int_less_iff)
  then show ?thesis unfolding c_def by linarith
qed

lemma total_near:
  assumes "0 \<le> p" "0 < n" "int n * p \<le> 10 ^ 15" "hdOnChain d = Some oc" "ocTicketPrice oc = p"
  shows "0 \<le> totalCost d n \<and> \<bar>totalCost d n * 1000000 - of_int (int n * p)\<bar> < 1"
proof -
  have "p * 1 \<le> p * int n" using assms(1,2) by (intro mult_left_mono) simp_all
  then have pb: "p \<le> 10 ^ 15" using assms(3) by (simp add: mult.commute)
  define t a b v :: rat where "t = of_int p / 1000000" and "a = fl t" and "b = fl (of_nat n * a)" and "v = of_nat n * t"
  have "fl (of_int p) = (of_int p :: rat)" using assms(1) pb by (intro fl_int) simp
  then have tp: "ticketPrice d = a" using assms(4,5) by (simp add: ticketPrice_def usdcToNumber_def USDC_DECIMALS_def a_def t_def)
  have "relayFee n = 0" by (simp add: relayFee_def usdcToNumber_def fl_def)
  then have x: "totalCost d n = fl b" by (simp add: totalCost_def ticketSubtotal_def tp b_def)
  have nn: "0 \<le> t" "0 \<le> a" "0 \<le> b" "0 \<le> fl b" using assms(1) by (simp_all add: t_def a_def b_def fl_nonneg)
  have vu: "v * 1000000 = of_int (int n * p)" by (simp add: v_def t_def)
  have "of_int (int n * p) \<le> (of_int (10 ^ 15) :: rat)" using assms(3) by (simp only: of_int_le_iff)
  then have "v * 1000000 \<le> 10 ^ 15" by (simp only: vu) simp
  then have vb: "v \<le> 10 ^ 9" by simp
  have v0: "0 \<le> v" using nn(1) by (simp add: v_def)
  have 1: "\<bar>of_nat n * a - v\<bar> \<le> v / 2 ^ 53"
  proof -
    have "\<bar>a - t\<bar> \<le> t / 2 ^ 53" using fl_near [of t] nn(1) by (simp add: a_def)
    then have "of_nat n * \<bar>a - t\<bar> \<le> of_nat n * (t / 2 ^ 53)" by (rule mult_left_mono) simp
    then show ?thesis by (simp add: v_def abs_mult flip: right_diff_distrib)
  qed
  have 2: "\<bar>b - of_nat n * a\<bar> \<le> of_nat n * a / 2 ^ 53"
    using fl_near [of "of_nat n * a"] nn(2) by (simp add: b_def)
  have 3: "\<bar>fl b - b\<bar> \<le> b / 2 ^ 53" using fl_near [of b] nn(3) by simp
  have "v / 2 ^ 53 \<le> v" using v0 by simp
  then have na: "of_nat n * a \<le> 2 * v" using abs_le_D1 [OF 1] by linarith
  have "of_nat n * a / 2 ^ 53 \<le> of_nat n * a" using nn(2) by simp
  then have bb: "b \<le> 4 * v" using na abs_le_D1 [OF 2] by linarith
  have 4: "of_nat n * a / 2 ^ 53 \<le> 2 * v / 2 ^ 53" by (rule divide_right_mono [OF na]) simp
  have 5: "b / 2 ^ 53 \<le> 4 * v / 2 ^ 53" by (rule divide_right_mono [OF bb]) simp
  have "\<bar>fl b - v\<bar> \<le> v / 2 ^ 53 + 2 * v / 2 ^ 53 + 4 * v / 2 ^ 53" using 1 2 3 4 5 by linarith
  also have "\<dots> \<le> 7 * 10 ^ 9 / 2 ^ 53" using vb by simp
  also have "\<dots> < 1 / 1000000" by simp
  finally have "fl b - v < 1 / 1000000" "v - fl b < 1 / 1000000" by (simp_all only: abs_less_iff minus_diff_eq)
  then have "\<bar>fl b * 1000000 - v * 1000000\<bar> < 1" unfolding abs_less_iff by linarith
  then show ?thesis using nn(4) unfolding x vu by blast
qed

lemma shown_total:
  assumes "0 \<le> ocTicketPrice oc" "0 < n" "int n * ocTicketPrice oc \<le> 10 ^ 15" "hdOnChain d = Some oc"
  shows "\<exists>c. dollars 2 (totalCost d n) = centsText c \<and> \<bar>10000 * c - int n * ocTicketPrice oc\<bar> \<le> 5000"
proof -
  note near = total_near [OF assms refl]
  have "dollars 2 (totalCost d n) = centsText (nearestUp (\<bar>totalCost d n\<bar> * 10 ^ 2))"
    using near by (simp add: dollars_def toFixed_def centsText_def Let_def)
  then show ?thesis using cents_near [OF conjunct1 [OF near] conjunct2 [OF near]] by blast
qed

text \<open>The price a page with an affordable, complete basket shows, in the cost box and on the button.\<close>

definition showsTotal :: "homeData \<Rightarrow> homeState \<Rightarrow> string \<Rightarrow> bool" where
  "showsTotal d st price \<longleftrightarrow>
     buyText d st = ''Buy '' @ countText (length (staged (hBasket st))) ''Ticket'' @ '' - '' @ price
     \<and> (\<exists>rows. (costBreakdown d st :: homeEvent html list) = [box ''costBreakdown'' rows]
          \<and> costRow [''costTotal''] ''Total'' (El ''span'' [] [Txt price]) \<in> set rows)"

lemma buy_shows:
  assumes "\<not> buyDisabled d st"
  shows "staged (hBasket st) \<noteq> [] \<and> showsTotal d st (dollars 2 (totalCost d (length (staged (hBasket st)))))"
proof -
  have c: "allComplete (hdOnChain d) (hBasket st)" "\<not> cannotAfford (hdOnChain d) (hdBalance d) (hBasket st)"
    using assms by (auto simp: buyDisabled_def)
  then have "staged (hBasket st) \<noteq> []" by (simp add: allComplete_def)
  then show ?thesis using c by (simp add: showsTotal_def buyText_def costBreakdown_def onlyIf_def Let_def box_def)
qed

lemma buy_button:
  assumes "homeReach rnd st" "Buy \<in> set (clicks (homePage env d st))" "hdOnChain d = Some oc" "ocNormalMax oc \<le> 255"
  shows "hPending st = None
    \<and> homeStep fuel rnd d Buy st = Some (st\<lparr>hTx := TxLoading, hPending := Some (staged (hBasket st))\<rparr>)
    \<and> buyTickets sendAll (staged (hBasket st)) = sendAll (buildTransactions (staged (hBasket st)))
    \<and> concat (concat (buildTransactions (staged (hBasket st)))) = map formatTicket (staged (hBasket st))
    \<and> list_all (accepted (ocNormalMax oc) (ocBonusMax oc)) (map formatTicket (staged (hBasket st)))
    \<and> length (buildTransactions (staged (hBasket st))) \<le> 4
    \<and> (case hdBalance d of None \<Rightarrow> True | Some bal \<Rightarrow> totalCostUnits (Some oc) (hBasket st) \<le> bal)
    \<and> Buy \<notin> set (clicks (homePage env d' (st\<lparr>hTx := TxLoading, hPending := Some (staged (hBasket st))\<rparr>)))"
proof -
  let ?b = "hBasket st"
  have inv: "basketReach rnd ?b" "hPending st \<noteq> None \<longleftrightarrow> hTx st = TxLoading"
    using homeReach_inv [OF assms(1)] by (auto simp: homeInv_def)
  have b: "basketOk ?b" by (rule basketReach_ok [OF inv(1)])
  have go: "\<not> buyDisabled d st" using assms(2) by (simp add: buy_offered)
  then have c: "allComplete (Some oc) ?b" "hTx st = TxIdle" "\<not> homePaused d" "hdProgram d" "ocAdmin oc \<noteq> []"
    "\<not> cannotAfford (Some oc) (hdBalance d) ?b"
    using assms(3) by (auto simp: buyDisabled_def)
  have len: "length (staged ?b) \<le> MAX_STAGED_TICKETS" using b by (simp add: basketOk_def)
  have guard: "buyGuard d st" using c assms(3) len by (simp add: buyGuard_def)
  have "ticketOk t \<and> isTicketComplete t (ocNormalMax oc) (ocBonusMax oc)" if "t \<in> set (staged ?b)" for t
    using b c(1) that by (simp add: basketOk_def allComplete_def list_all_iff pageNormalMax_def pageBonusMax_def)
  then have full: "\<not> list_ex (\<lambda>t. length (stNormals t) \<noteq> NORMALS_PER_TICKET \<or> stBonus t = None) (staged ?b)"
    using complete_iff by (fastforce simp: list_ex_iff NORMALS_PER_TICKET_def)
  have send: "buyTickets (\<lambda>_. Inr []) (staged ?b) = Inr []" using full by (simp add: buyTickets_def)
  have "handleBuy (\<lambda>_. Inr []) True (Some oc) (apiPaused d) ?b = (Bought [], clearTickets ?b)"
    using c len assms(3) send by (simp add: handleBuy_def homePaused_def)
  note valid = purchase_valid [OF inv(1) this assms(4)]
  have cost: "case hdBalance d of None \<Rightarrow> True | Some bal \<Rightarrow> totalCostUnits (Some oc) ?b \<le> bal"
    using c(1,6) by (auto simp: cannotAfford_def allComplete_def not_less split: option.splits)
  have again: "Buy \<notin> set (clicks (homePage env d' (st\<lparr>hTx := TxLoading, hPending := Some (staged ?b)\<rparr>)))"
    by (simp add: buy_offered buyDisabled_def)
  show ?thesis
    using inv(2) c(2) guard full valid cost again by (simp add: homeStep_def buyTickets_def)
qed

text \<open>The total a clickable button shows, in cents, against the cost in units of the token.\<close>

lemma buy_price:
  assumes "Buy \<in> set (clicks (homePage env d st))" "hdOnChain d = Some oc"
    and "0 \<le> ocTicketPrice oc" "totalCostUnits (Some oc) (hBasket st) \<le> 10 ^ 15"
  shows "\<exists>c. showsTotal d st (centsText c) \<and> \<bar>10000 * c - totalCostUnits (Some oc) (hBasket st)\<bar> \<le> 5000"
proof -
  have go: "\<not> buyDisabled d st" using assms(1) by (simp add: buy_offered)
  have u: "totalCostUnits (Some oc) (hBasket st) = int (length (staged (hBasket st))) * ocTicketPrice oc"
    by (simp add: totalCostUnits_def)
  obtain c where c: "dollars 2 (totalCost d (length (staged (hBasket st)))) = centsText c"
    "\<bar>10000 * c - int (length (staged (hBasket st))) * ocTicketPrice oc\<bar> \<le> 5000"
    using shown_total [OF assms(3) _ _ assms(2), of "length (staged (hBasket st))"] assms(4) buy_shows [OF go]
    unfolding u by auto
  then show ?thesis unfolding u using buy_shows [OF go] by metis
qed

text \<open>
  C30: the buy button does what it shows: on every page a user can reach, when the button can be clicked,
  it and the cost box show the price on chain of the tickets staged, to the nearest cent (exactly, where
  the price is in whole cents). No purchase is in flight then and the click is not ignored; it sends exactly
  the tickets staged, in at most four transactions, each ticket with the five ascending numbers and the bonus
  in range that the program asks for; if the page knows the balance, they cost no more than it; and until
  the wallet has answered the button cannot be clicked again.
\<close>
theorem home_buys_what_it_shows:
  assumes "homeReach rnd st" "Buy \<in> set (clicks (homePage env d st))" "hdOnChain d = Some oc" "ocNormalMax oc \<le> 255"
    and "0 \<le> ocTicketPrice oc" "totalCostUnits (Some oc) (hBasket st) \<le> 10 ^ 15"
  shows "hPending st = None
    \<and> (\<exists>c. showsTotal d st (centsText c) \<and> \<bar>10000 * c - totalCostUnits (Some oc) (hBasket st)\<bar> \<le> 5000)
    \<and> homeStep fuel rnd d Buy st = Some (st\<lparr>hTx := TxLoading, hPending := Some (staged (hBasket st))\<rparr>)
    \<and> buyTickets sendAll (staged (hBasket st)) = sendAll (buildTransactions (staged (hBasket st)))
    \<and> concat (concat (buildTransactions (staged (hBasket st)))) = map formatTicket (staged (hBasket st))
    \<and> list_all (accepted (ocNormalMax oc) (ocBonusMax oc)) (map formatTicket (staged (hBasket st)))
    \<and> length (buildTransactions (staged (hBasket st))) \<le> 4
    \<and> (case hdBalance d of None \<Rightarrow> True | Some bal \<Rightarrow> totalCostUnits (Some oc) (hBasket st) \<le> bal)
    \<and> Buy \<notin> set (clicks (homePage env d' (st\<lparr>hTx := TxLoading, hPending := Some (staged (hBasket st))\<rparr>)))"
  using buy_button [OF assms(1-4)] buy_price [OF assms(2,3,5,6)] by simp

definition seededHome :: homeState where
  "seededHome = freshHome\<lparr>hBasket := oneTicket, hCountText := ''1'', hSeeded := True\<rparr>"

definition readyData :: homeData where
  "readyData = \<lparr> hdOnChain = Some chainView, hdApi = Some (False, Some 100, 1250000000), hdBalance = Some 1000000,
     hdConnected = True, hdProgram = True \<rparr>"

lemma seededHome_reach: "homeReach constRnd seededHome"
proof (rule h_step [OF h_fresh])
  show "homeAllowed env readyData Seed freshHome" for env by (simp add: homeAllowed_def)
  have "seedBasket 9 constRnd (hdOnChain readyData) False (hBasket freshHome) = Some (True, oneTicket)"
    using oneTicket_sync by (simp add: seedBasket_def readyData_def freshHome_def pageNormalMax_def pageBonusMax_def chainView_def)
  moreover have "bigIntToString 1 = ''1''" by code_simp
  ultimately show "homeStep 9 constRnd readyData Seed freshHome = Some seededHome"
    by (simp add: homeStep_def Let_def withBasket_def seededHome_def oneTicket_def freshHome_def)
qed

lemma seededHome_offers: "Buy \<in> set (clicks (homePage env readyData seededHome))"
proof -
  have "\<not> buyDisabled readyData seededHome" by code_simp
  then show ?thesis by (simp add: buy_offered readyData_def)
qed

theorem home_buys_what_it_shows_witness:
  "list_all (accepted 30 10) (map formatTicket (staged (hBasket seededHome)))
   \<and> (\<exists>c. showsTotal readyData seededHome (centsText c) \<and> \<bar>10000 * c - 1000000\<bar> \<le> 5000)
   \<and> homeStep 0 constRnd readyData Buy seededHome
     = Some (seededHome\<lparr>hTx := TxLoading, hPending := Some (staged (hBasket seededHome))\<rparr>)"
proof -
  have "totalCostUnits (Some chainView) (hBasket seededHome) = 1000000" by code_simp
  then show ?thesis
    using home_buys_what_it_shows [OF seededHome_reach seededHome_offers, of chainView]
    by (simp add: chainView_def readyData_def)
qed

lemma seeded_price: "buyText readyData seededHome = ''Buy 1 Ticket - '' @ centsText 100" "centsText 100 = ''$1.00''"
  by code_simp+

text \<open>
  The editor remembers the expanded row by its place: after a ticket above it is removed, another
  ticket is open for editing.
\<close>

lemma remove_shifts_expanded:
  assumes "hBasket st = \<lparr> staged = [a, b, c], rndPos = p \<rparr>" "hExpanded st = Some 1"
  shows "map_option (\<lambda>s. (staged (hBasket s) ! 1, hExpanded s)) (homeStep fuel rnd d (Edit (RemoveTicket 0)) st) = Some (c, Some 1)"
  using assms by (simp add: homeStep_def editBasket_def removeTicket_def editView_def withBasket_def)

section \<open>Winnings\<close>

datatype winningsEvent = Claim | WinningsConnect

record winningsState =
  wTx :: txState
  wMessage :: string

definition pendingNotice :: "(int \<times> int) option \<Rightarrow> 'e html list" where
  "pendingNotice v = (case v of None \<Rightarrow> [] | Some (amount, _) \<Rightarrow>
     [box ''pendingNotice'' [Txt (''A claim for '' @ formatUsdc 2 False amount @ '' is pending confirmation on-chain.'')]])"

definition winningsBody :: "claimSummary \<Rightarrow> winningsState \<Rightarrow> winningsEvent html list" where
  "winningsBody s st =
     (let amount = claimableUsdc s in
      [box ''availableCard''
         (box ''row''
            [El ''div'' [] [para ''label'' ''Winnings'', para ''value'' (formatUsdc 2 False amount)],
             El ''button'' [Cls [''claimButton''], Disabled (amount \<le> 0 \<or> wTx st \<noteq> TxIdle), Click Claim] [Txt ''Claim'']]
          # onlyIf (freeTickets s > 0)
              [box ''row''
                 [El ''div'' [] [para ''label'' ''Free tickets'', para ''valueSecondary'' (bigIntToString (int (freeTickets s)))],
                  El ''button'' [Cls [''playFreeButton''], Disabled True] [Txt ''Included in Claim'']]])]
      @ onlyIf (wMessage st \<noteq> [] \<and> wTx st = TxIdle) [para ''notice'' (wMessage st)]
      @ pendingNotice (pendingVoucher s)
      @ [box ''paidSection'' [para ''paidLabel'' ''Total claimed all-time'', para ''paidValue'' (formatUsdc 2 False (totalPaidOutUsdc s))]]
      @ onlyIf (amount \<le> 0 \<and> freeTickets s = 0)
          [emptyState ''money'' ''Nothing to claim yet''
             ''Winning tickets show up here once a drawing settles and your prize has been pulled into the payout vault.'' None])"

definition winningsPage :: "bool \<Rightarrow> claimSummary option \<Rightarrow> bool \<Rightarrow> winningsState \<Rightarrow> winningsEvent html" where
  "winningsPage isConnected summary isLoading st =
     box ''page''
       (transactionOverlay (wTx st) ''CLAIM SUBMITTED'' (if wMessage st = [] then ''CLAIM FAILED'' else wMessage st)
        @ [El ''h2'' [Cls [''title'']] [Txt ''Winnings'']]
        @ walletGate isConnected ''Connect to view winnings'' ''Check what's claimable and pull it straight to your wallet.''
            WinningsConnect
            (case summary of None \<Rightarrow> [] | Some s \<Rightarrow> onlyIf (\<not> isLoading) (winningsBody s st)))"

text \<open>A click on Claim: the overlay while it runs, then the outcome.\<close>

definition claimStart :: "winningsState \<Rightarrow> winningsState" where
  "claimStart st = st\<lparr>wTx := TxLoading, wMessage := []\<rparr>"

definition claimEnd :: "claimView \<Rightarrow> winningsState \<Rightarrow> winningsState" where
  "claimEnd v st = (case v of ClaimIdle m \<Rightarrow> st\<lparr>wMessage := m, wTx := TxIdle\<rparr> | ClaimSuccess \<Rightarrow> st\<lparr>wTx := TxSuccess\<rparr>
     | ClaimError m \<Rightarrow> st\<lparr>wMessage := m, wTx := TxError\<rparr>)"

text \<open>On the answer of the summary route the claim button is there exactly when the wallet has winnings to pay out.\<close>

lemma claim_offered:
  "Claim \<in> set (clicks (winningsPage c (Some (claimsSummary now wallet w)) l st)) \<longleftrightarrow>
     c \<and> \<not> l \<and> wTx st = TxIdle \<and> sumMany winAmount (filter (claimable now wallet w) (tickets w)) > 0"
  by (auto simp: winningsPage_def walletGate_def winningsBody_def onlyIf_def Let_def claimsSummary_def pendingNotice_def
      emptyState_def split: if_splits option.splits)

end
