(* ===== verification/Harvest.thy ===== *)
theory Harvest
  imports BaseRelay
begin

text \<open>
  \<open>workers/harvestWorker.ts\<close>: claiming the winnings of a graded epoch into the vault, one batch at a
  time. The rehearsal (\<open>estimateGas\<close>) and the broadcast of \<open>claimWinnings\<close> are parameters; the
  rehearsal before a broadcast is call 0, the one inside the submit call 1.
\<close>

section \<open>Constants and the packed ticket\<close>

definition CHUNK_SIZE :: nat where "CHUNK_SIZE = 50"

definition HARVEST_PENDING_TIMEOUT_MS :: int where "HARVEST_PENDING_TIMEOUT_MS = 2 * 60000"

definition HARVESTABLE :: "winStatus list" where "HARVESTABLE = [WON_UNCLAIMED, WON_FREE_TICKET]"

definition TEST_NORMAL_MAX :: int where "TEST_NORMAL_MAX = 30"

text \<open>\<open>1n << n\<close>; a negative shift of one is zero.\<close>

definition bigShl1 :: "int \<Rightarrow> int" where
  "bigShl1 n = (if n < 0 then 0 else push_bit (nat n) 1)"

definition packTicketForTest :: "int list \<Rightarrow> int \<Rightarrow> int" where
  "packTicketForTest ns bonus =
     or (fold (\<lambda>n packed. or packed (bigShl1 n)) ns 0) (bigShl1 (TEST_NORMAL_MAX + bonus))"

section \<open>Claims\<close>

record claimArgs =
  claimNfts :: "int list"
  claimPacked :: "int list"
  claimWinning :: int
  claimBallMax :: int
  claimTotal :: int

record harvestEnv =
  hBase :: baseEnv
  estimateClaim :: "nat \<Rightarrow> claimArgs \<Rightarrow> (ethError, int) result"
  sendClaim :: "claimArgs \<Rightarrow> int \<Rightarrow> int \<Rightarrow> (ethError, string) result"

text \<open>\<open>BigInt(t.megapotNftId!)\<close> throws on a value that is not a number.\<close>

definition nftOf :: "ticket \<Rightarrow> (ethError, int) result" where
  "nftOf t = (case Option.bind (megapotNftId t) bigIntOf of
      None \<Rightarrow> Inl (newError ''Cannot convert to a BigInt'') | Some n \<Rightarrow> Inr n)"

definition claimOf :: "int \<Rightarrow> ticket list \<Rightarrow> (ethError, claimArgs) result" where
  "claimOf winning ts =
     (case mapResult nftOf ts of Inl e \<Rightarrow> Inl e
      | Inr ids \<Rightarrow> Inr \<lparr> claimNfts = ids,
          claimPacked = map (\<lambda>t. packTicketForTest (normalBalls t) (bonusBall t)) ts,
          claimWinning = winning, claimBallMax = TEST_NORMAL_MAX,
          claimTotal = sumMany winAmount ts \<rparr>)"

definition rehearse :: "harvestEnv \<Rightarrow> int \<Rightarrow> ticket list \<Rightarrow> (ethError, int) result" where
  "rehearse env winning ts =
     (case claimOf winning ts of Inl e \<Rightarrow> Inl e | Inr a \<Rightarrow> estimateClaim env 0 a)"

definition submitClaim :: "harvestEnv \<Rightarrow> int \<Rightarrow> ticket list \<Rightarrow> world \<Rightarrow> (ethError, string) result \<times> world" where
  "submitClaim env winning ts w =
     (case claimOf winning ts of Inl e \<Rightarrow> (Inl e, w)
      | Inr a \<Rightarrow>
        (case submitClaimWinnings (estimateClaim env 1 a) (txCount (hBase env)) (sendClaim env a) w of
           (Inl e, w') \<Rightarrow> (Inl e, w') | (Inr (h, n), w') \<Rightarrow> (Inr h, w')))"

lemma bisect_halves:
  fixes n :: nat
  assumes "n \<noteq> 0" "n \<noteq> 1"
  shows "(n + 1) div 2 < n" "0 < (n + 1) div 2"
  using assms by linarith+

text \<open>Bisecting a failed rehearsal.\<close>

function bisectClaimable :: "harvestEnv \<Rightarrow> int \<Rightarrow> ticket list \<Rightarrow> ticket list \<times> ticket list" where
  "bisectClaimable env winning ts =
     (if ts = [] then ([], [])
      else case rehearse env winning ts of
          Inr _ \<Rightarrow> (ts, [])
        | Inl _ \<Rightarrow>
          (if length ts = 1 then ([], ts)
           else let mid = (length ts + 1) div 2;
                    l = bisectClaimable env winning (take mid ts);
                    r = bisectClaimable env winning (drop mid ts)
                in (fst l @ fst r, snd l @ snd r)))"
  by pat_completeness auto

termination
proof (relation "measure (\<lambda>(env, winning, ts). length ts)", goal_cases)
  case 1
  then show ?case by simp
next
  case (2 env winning ts e mid)
  then show ?case using bisect_halves [of "length ts"] by simp
next
  case (3 env winning ts e mid l)
  then show ?case using bisect_halves [of "length ts"] by simp
qed

declare bisectClaimable.simps [simp del]

section \<open>Batches\<close>

definition updHarvest :: "string \<Rightarrow> (harvestBatch \<Rightarrow> harvestBatch) \<Rightarrow> world \<Rightarrow> world" where
  "updHarvest b f w = w\<lparr>harvestBatches := updateMany (\<lambda>x. hbId x = b) f (harvestBatches w)\<rparr>"

definition batchWinners :: "string \<Rightarrow> ticket \<Rightarrow> bool" where
  "batchWinners b t = (harvestBatchId t = Some b \<and> winStatus t \<in> set HARVESTABLE)"

definition markClaimed :: "ticket \<Rightarrow> ticket" where
  "markClaimed t = t\<lparr>winStatus := CLAIMED_ON_BASE\<rparr>"

definition finalizeBatchSuccess :: "int \<Rightarrow> string \<Rightarrow> string \<Rightarrow> world \<Rightarrow> world" where
  "finalizeBatchSuccess now b txHash w =
     updHarvest b (\<lambda>x. x\<lparr>hbStatus := CONFIRMED, hbTxHash := Some txHash, hbConfirmedAt := Some now,
                        hbError := None\<rparr>)
       (updTickets (batchWinners b) markClaimed w)"

text \<open>The reconciliation alert of a finalised batch.\<close>

definition amountMismatch :: "int option \<Rightarrow> int \<Rightarrow> bool" where
  "amountMismatch onChain gross = (onChain \<noteq> None \<and> onChain \<noteq> Some gross)"

definition releaseBatch :: "string \<Rightarrow> string \<Rightarrow> world \<Rightarrow> world" where
  "releaseBatch b reason w =
     updHarvest b (\<lambda>x. x\<lparr>hbStatus := HV_FAILED, hbError := Some (take 2000 reason)\<rparr>)
       (updTickets (\<lambda>t. harvestBatchId t = Some b) (\<lambda>t. t\<lparr>harvestBatchId := None\<rparr>) w)"

definition winningPacked :: "world \<Rightarrow> int \<Rightarrow> (ethError, int) result" where
  "winningPacked w i =
     (case findEpoch w i of None \<Rightarrow> Inl (newError ''NotFoundError'')
      | Some e \<Rightarrow> Inr (packTicketForTest (winningNormals e) (winningBonusBall e)))"

text \<open>
  The batch in flight. The result is a thrown error, or whether the epoch is still busy.
\<close>

definition recoverLostBatch :: "harvestEnv \<Rightarrow> harvestBatch \<Rightarrow> world \<Rightarrow> (ethError, bool) result \<times> world" where
  "recoverLostBatch env b w =
     (let ts = filter (\<lambda>t. harvestBatchId t = Some (hbId b)) (tickets w);
          landed = (\<lambda>v. (Inr True, finalizeBatchSuccess (envNow (hBase env)) (hbId b)
                            ''UNKNOWN-recovered-see-alert'' v))
      in case winningPacked w (hbMegapotId b) of
           Inl e \<Rightarrow> (Inl e, w)
         | Inr winning \<Rightarrow>
           (case rehearse env winning ts of
              Inl _ \<Rightarrow> landed w
            | Inr _ \<Rightarrow>
              (case submitClaim env winning ts w of
                 (Inl _, w') \<Rightarrow> landed w'
               | (Inr h, w') \<Rightarrow> (Inr True, updHarvest (hbId b) (\<lambda>x. x\<lparr>hbTxHash := Some h\<rparr>) w'))))"

definition inFlight :: "world \<Rightarrow> int \<Rightarrow> harvestBatch option" where
  "inFlight w i = List.find (\<lambda>b. hbMegapotId b = i \<and> hbStatus b = SUBMITTED) (harvestBatches w)"

definition resolveInFlightBatch :: "harvestEnv \<Rightarrow> int \<Rightarrow> world \<Rightarrow> (ethError, bool) result \<times> world" where
  "resolveInFlightBatch env i w =
     (case inFlight w i of None \<Rightarrow> (Inr False, w)
      | Some b \<Rightarrow>
        (let age = envNow (hBase env) - hbCreatedAt b in
         if hbTxHash b = None \<or> hbTxHash b = Some [] then
           (if age < HARVEST_PENDING_TIMEOUT_MS then (Inr True, w) else recoverLostBatch env b w)
         else
           (let h = the (hbTxHash b) in
            case pollReceipt (hBase env) h 0 of
              Inl e \<Rightarrow> (Inl e, w)
            | Inr None \<Rightarrow>
                (if age < HARVEST_PENDING_TIMEOUT_MS then (Inr True, w)
                 else case getTransaction (hBase env) h of
                     Inl e \<Rightarrow> (Inl e, w)
                   | Inr (Some t) \<Rightarrow> (Inr True, w)
                   | Inr None \<Rightarrow> (Inr True, releaseBatch (hbId b)
                        ''Harvest tx dropped from mempool'' (resetNonceLane w)))
            | Inr (Some rc) \<Rightarrow>
                (if receiptStatus rc = 1 then
                   (Inr True, finalizeBatchSuccess (envNow (hBase env)) (hbId b) (receiptHash rc) w)
                 else (Inr True, releaseBatch (hbId b) (''Harvest tx '' @ h @ '' reverted on-chain'') w)))))"

section \<open>One step of an epoch\<close>

definition winningOf :: "world \<Rightarrow> int \<Rightarrow> ticket \<Rightarrow> bool" where
  "winningOf w i t =
     (winStatus t \<in> set HARVESTABLE \<and> harvestBatchId t = None
      \<and> orderWhere w (\<lambda>r. fulfillEpoch r = Some i \<and> orderStatus r = SUCCESS) t)"

definition findHarvestableTickets :: "world \<Rightarrow> int \<Rightarrow> ticket list" where
  "findHarvestableTickets w i =
     filter (\<lambda>t. ticketId t \<notin> set (quarantine w))
       (take (CHUNK_SIZE * 2) (filter (\<lambda>t. winningOf w i t \<and> megapotNftId t \<noteq> None) (tickets w)))"

definition bindable :: "ticket list \<Rightarrow> ticket \<Rightarrow> bool" where
  "bindable good t = (ticketId t \<in> ticketId ` set good \<and> harvestBatchId t = None)"

definition buildBatch :: "harvestEnv \<Rightarrow> int \<Rightarrow> int \<Rightarrow> ticket list \<Rightarrow> world \<Rightarrow> ethError option \<times> world" where
  "buildBatch env i winning good w =
     (let b = uuid (hBase env) (uuidNext w);
          gross = sumMany winAmount good;
          w1 = w\<lparr>harvestBatches := harvestBatches w @ [newHarvestBatch b i gross (envNow (hBase env))],
                 uuidNext := Suc (uuidNext w)\<rparr>
      in if countMany (bindable good) (tickets w1) = 0 then
           (None, w1\<lparr>harvestBatches := deleteMany (\<lambda>x. hbId x = b) (harvestBatches w1)\<rparr>)
         else (case submitClaim env winning good
                      (updTickets (bindable good) (\<lambda>t. t\<lparr>harvestBatchId := Some b\<rparr>) w1) of
             (Inl e, w2) \<Rightarrow> (Some e, w2)
           | (Inr h, w2) \<Rightarrow> (None, updHarvest b (\<lambda>x. x\<lparr>hbTxHash := Some h\<rparr>) w2)))"

definition harvestEpochStep :: "harvestEnv \<Rightarrow> int \<Rightarrow> world \<Rightarrow> ethError option \<times> world" where
  "harvestEpochStep env i w =
     (case resolveInFlightBatch env i w of
        (Inl e, w') \<Rightarrow> (Some e, w')
      | (Inr True, w') \<Rightarrow> (None, w')
      | (Inr False, w') \<Rightarrow>
        (case winningPacked w' i of Inl e \<Rightarrow> (Some e, w')
         | Inr winning \<Rightarrow>
           (let harvestable = findHarvestableTickets w' i in
            if harvestable = [] then
              (if filter (winningOf w' i) (tickets w') \<noteq> [] then (None, w')
               else (None, updEpochs (\<lambda>e. megapotId e = i)
                       (\<lambda>e. e\<lparr>ticketsHarvestedAt := Some (envNow (hBase env))\<rparr>) w'))
            else
              (let (good, bad) = bisectClaimable env winning (take CHUNK_SIZE harvestable);
                   w2 = w'\<lparr>quarantine := quarantine w' @ map ticketId bad\<rparr>
               in if good = [] then (None, w2) else buildBatch env i winning good w2))))"

fun harvestEpochs :: "harvestEnv \<Rightarrow> int list \<Rightarrow> world \<Rightarrow> world" where
  "harvestEpochs env [] w = w"
| "harvestEpochs env (i # is) w =
     (case harvestEpochStep env i w of (Some e, w') \<Rightarrow> w' | (None, w') \<Rightarrow> harvestEpochs env is w')"

text \<open>\<open>lockHeld\<close>: another process holds the Redis lock.\<close>

definition runHarvestTick :: "bool \<Rightarrow> harvestEnv \<Rightarrow> world \<Rightarrow> world" where
  "runHarvestTick lockHeld env w =
     (if lockHeld then w
      else harvestEpochs env
        (map megapotId (sort_key megapotId
           (filter (\<lambda>e. ticketsSettledAt e \<noteq> None \<and> ticketsHarvestedAt e = None) (epochs w)))) w)"

section \<open>The packed ticket is faithful\<close>

lemma bit_bigShl1: "bit (bigShl1 n) k \<longleftrightarrow> int k = n"
  by (auto simp: bigShl1_def bit_exp_iff)

lemma bit_packed: "bit (fold (\<lambda>n p. or p (bigShl1 n)) ns p) k \<longleftrightarrow> bit p k \<or> int k \<in> set ns"
  by (induction ns arbitrary: p) (auto simp: bit_or_iff bit_bigShl1)

lemma bit_packTicket: "bit (packTicketForTest ns b) k \<longleftrightarrow> int k \<in> set ns \<or> int k = 30 + b"
  by (simp add: packTicketForTest_def bit_or_iff bit_packed bit_bigShl1 TEST_NORMAL_MAX_def)

definition ballsFit :: "int list \<Rightarrow> int \<Rightarrow> bool" where
  "ballsFit ns b = (list_all (\<lambda>n. 0 \<le> n \<and> n \<le> 30) ns \<and> 1 \<le> b)"

text \<open>
  Packing loses nothing: two tickets with normal balls up to 30 and a bonus ball from 1 have
  the same packed value exactly when they hold the same set of normal balls and the same bonus.
\<close>
theorem packTicket_injective:
  assumes "ballsFit ns b" "ballsFit ms c"
  shows "packTicketForTest ns b = packTicketForTest ms c \<longleftrightarrow> set ns = set ms \<and> b = c"
proof
  assume eq: "packTicketForTest ns b = packTicketForTest ms c"
  have bits: "(int k \<in> set ns \<or> int k = 30 + b) \<longleftrightarrow> (int k \<in> set ms \<or> int k = 30 + c)" for k
    using eq bit_packTicket by metis
  have lo: "n \<le> 30 \<and> 0 \<le> n" if "n \<in> set ns \<union> set ms" for n
    using assms that by (auto simp: ballsFit_def list_all_iff)
  have "set ns = set ms"
  proof (rule set_eqI)
    fix n
    show "n \<in> set ns \<longleftrightarrow> n \<in> set ms"
      using bits [of "nat n"] lo [of n] assms by (auto simp: ballsFit_def)
  qed
  moreover have "b = c"
    using bits [of "nat (30 + b)"] lo [of "30 + b"] assms by (auto simp: ballsFit_def)
  ultimately show "set ns = set ms \<and> b = c" by simp
next
  assume "set ns = set ms \<and> b = c"
  then show "packTicketForTest ns b = packTicketForTest ms c"
    by (intro bit_eqI) (simp add: bit_packTicket)
qed

theorem packTicket_injective_witness:
  "packTicketForTest [5, 3] 2 = packTicketForTest [3, 5] 2 \<and> packTicketForTest [5, 3] 2 \<noteq> packTicketForTest [5, 3] 1"
  using packTicket_injective [of "[5, 3]" 2 "[3, 5]" 2] packTicket_injective [of "[5, 3]" 2 "[5, 3]" 1]
  by (auto simp: ballsFit_def)

section \<open>Bisection isolates the unclaimable tickets\<close>

text \<open>Megapot's loop is all or nothing: a rehearsal passes when every ticket in it is claimable.\<close>

definition allOrNothing :: "harvestEnv \<Rightarrow> int \<Rightarrow> (ticket \<Rightarrow> bool) \<Rightarrow> bool" where
  "allOrNothing env winning claimable \<longleftrightarrow>
     (\<forall>us. us \<noteq> [] \<longrightarrow> ((\<exists>g. rehearse env winning us = Inr g) \<longleftrightarrow> list_all claimable us))"

text \<open>
  C14: bisecting the rehearsal splits a chunk exactly into its claimable and its unclaimable
  tickets, each list in the chunk's order, so that no ticket is lost or submitted twice.
\<close>
theorem bisect_isolates:
  assumes "allOrNothing env winning claimable"
  shows "bisectClaimable env winning ts = (filter claimable ts, filter (\<lambda>t. \<not> claimable t) ts)"
  using assms
proof (induction env winning ts rule: bisectClaimable.induct)
  case (1 env winning ts)
  consider "ts = []" | (pass) g where "ts \<noteq> []" "rehearse env winning ts = Inr g"
    | (single) e where "rehearse env winning ts = Inl e" "length ts = 1"
    | (split) e where "rehearse env winning ts = Inl e" "ts \<noteq> []" "length ts \<noteq> 1"
    by (metis old.sum.exhaust list.size(3) zero_neq_one)
  then show ?case
  proof cases
    case pass
    then have "list_all claimable ts" using "1.prems" unfolding allOrNothing_def by blast
    then have "filter claimable ts = ts \<and> filter (\<lambda>t. \<not> claimable t) ts = []"
      by (auto simp: list_all_iff filter_id_conv filter_empty_conv)
    then show ?thesis using pass by (subst bisectClaimable.simps) simp
  next
    case single
    then obtain t where t: "ts = [t]" by (cases ts) auto
    then have "\<not> list_all claimable ts"
      using "1.prems" single(1) unfolding allOrNothing_def by (metis list.distinct(1) sum.distinct(1))
    then show ?thesis using single t by (subst bisectClaimable.simps) simp
  next
    case split
    let ?mid = "(length ts + 1) div 2"
    have "bisectClaimable env winning ts =
        (filter claimable (take ?mid ts) @ filter claimable (drop ?mid ts),
         filter (\<lambda>t. \<not> claimable t) (take ?mid ts) @ filter (\<lambda>t. \<not> claimable t) (drop ?mid ts))"
      using "1.IH" [OF split(2,1,3) refl] "1.prems" split
      by (subst bisectClaimable.simps) (simp add: Let_def)
    then show ?thesis by (simp only: filter_append [symmetric] append_take_drop_id)
  qed (simp add: bisectClaimable.simps)
qed

definition pickyEnv :: harvestEnv where
  "pickyEnv = \<lparr> hBase = quietEnv,
     estimateClaim = (\<lambda>_ a. if 13 \<in> set (claimNfts a) then Inl (newError ''not claimable'') else Inr 100000),
     sendClaim = (\<lambda>_ _ _. Inr ''0xc'') \<rparr>"

definition pickyOk :: "ticket \<Rightarrow> bool" where
  "pickyOk t = (case nftOf t of Inl _ \<Rightarrow> False | Inr n \<Rightarrow> n \<noteq> 13)"

lemma pickyEnv_allOrNothing: "allOrNothing pickyEnv winning pickyOk"
proof -
  have m: "(\<exists>ids. mapResult nftOf us = Inr ids \<and> 13 \<notin> set ids) \<longleftrightarrow> list_all pickyOk us" for us
  proof (induction us)
    case (Cons u us)
    have "(\<exists>ids. mapResult nftOf (u # us) = Inr ids \<and> 13 \<notin> set ids)
        \<longleftrightarrow> pickyOk u \<and> (\<exists>ids. mapResult nftOf us = Inr ids \<and> 13 \<notin> set ids)"
      by (cases "nftOf u"; cases "mapResult nftOf us") (auto simp: pickyOk_def)
    with Cons show ?case by simp
  qed simp
  have "(\<exists>g. rehearse pickyEnv winning us = Inr g) \<longleftrightarrow> (\<exists>ids. mapResult nftOf us = Inr ids \<and> 13 \<notin> set ids)"
    for us
    by (auto simp: rehearse_def claimOf_def pickyEnv_def split: sum.split)
  with m show ?thesis by (simp add: allOrNothing_def)
qed

definition wonTicket :: "string \<Rightarrow> string \<Rightarrow> ticket" where
  "wonTicket i nft = (newTicket i ''h'' 9 [1, 2, 3, 4, 5])
     \<lparr>winStatus := WON_UNCLAIMED, winAmount := 55, megapotNftId := Some nft\<rparr>"

theorem bisect_isolates_witness:
  "bisectClaimable pickyEnv 0 [wonTicket ''a'' ''12'', wonTicket ''b'' ''13'', wonTicket ''c'' ''14'']
   = ([wonTicket ''a'' ''12'', wonTicket ''c'' ''14''], [wonTicket ''b'' ''13''])"
proof -
  have "pickyOk (wonTicket ''a'' ''12'')" "\<not> pickyOk (wonTicket ''b'' ''13'')" "pickyOk (wonTicket ''c'' ''14'')"
    by code_simp+
  then show ?thesis using bisect_isolates [OF pickyEnv_allOrNothing] by simp
qed

section \<open>The watermark\<close>

lemma recoverLostBatch_busy: "fst (recoverLostBatch env b w) \<noteq> Inr False"
  by (auto simp: recoverLostBatch_def Let_def split: sum.split prod.split)

lemma resolve_idle:
  assumes "resolveInFlightBatch env i w = (Inr False, w')"
  shows "w' = w \<and> inFlight w i = None"
proof (cases "inFlight w i")
  case None
  then show ?thesis using assms by (simp add: resolveInFlightBatch_def)
next
  case (Some b)
  have "fst (resolveInFlightBatch env i w) \<noteq> Inr False"
    using recoverLostBatch_busy [of env b w]
    by (auto simp: resolveInFlightBatch_def Some Let_def split: sum.split option.split)
  then show ?thesis using assms by simp
qed

lemma harvest_sel [simp]:
  "epochs (updHarvest b f w) = epochs w" "tickets (updHarvest b f w) = tickets w"
  "orders (updHarvest b f w) = orders w"
  "epochs (finalizeBatchSuccess now b tx w) = epochs w"
  "epochs (releaseBatch b reason w) = epochs w"
  "tickets (finalizeBatchSuccess now b tx w) = updateMany (batchWinners b) markClaimed (tickets w)"
  "tickets (releaseBatch b reason w)
   = updateMany (\<lambda>t. harvestBatchId t = Some b) (\<lambda>t. t\<lparr>harvestBatchId := None\<rparr>) (tickets w)"
  by (simp_all add: updHarvest_def finalizeBatchSuccess_def releaseBatch_def)

lemma laneSubmit_rest:
  "laneSubmit p send w = (r, w') \<Longrightarrow> epochs w' = epochs w \<and> tickets w' = tickets w \<and> orders w' = orders w
     \<and> harvestBatches w' = harvestBatches w \<and> uuidNext w' = uuidNext w"
  by (auto simp: laneSubmit_def resetNonceLane_def split: option.splits sum.splits)

lemma submitClaim_rest:
  "submitClaim env winning ts w = (r, w') \<Longrightarrow> epochs w' = epochs w \<and> tickets w' = tickets w
     \<and> orders w' = orders w \<and> harvestBatches w' = harvestBatches w \<and> uuidNext w' = uuidNext w"
  by (auto simp: submitClaim_def submitClaimWinnings_def Let_def split: sum.splits prod.splits
      dest!: laneSubmit_rest)

lemma resetNonceLane_epochs [simp]: "epochs (resetNonceLane w) = epochs w"
  by (simp add: resetNonceLane_def)

lemma recoverLostBatch_epochs [simp]: "epochs (snd (recoverLostBatch env b w)) = epochs w"
  by (auto simp: recoverLostBatch_def Let_def split: sum.split prod.split dest!: submitClaim_rest)

lemma resolve_epochs [simp]: "epochs (snd (resolveInFlightBatch env i w)) = epochs w"
  by (simp add: resolveInFlightBatch_def Let_def split: sum.split option.split)

lemma buildBatch_epochs [simp]: "epochs (snd (buildBatch env i winning good w)) = epochs w"
  by (auto simp: buildBatch_def Let_def split: sum.split prod.split dest!: submitClaim_rest)

text \<open>
  C15: the harvest watermark is honest: a step that changes an epoch's row sets the watermark of the
  epoch it was called for, with no batch of it in flight and no winning ticket of its SUCCESS
  orders left without a batch, quarantined and unminted tickets included.
\<close>
theorem harvest_watermark_sound:
  assumes "harvestEpochStep env i w = (r, w')" and "e \<in> set (epochs w')" "e \<notin> set (epochs w)"
  shows "megapotId e = i \<and> inFlight w' i = None \<and> (\<forall>t \<in> set (tickets w'). \<not> winningOf w' i t)"
proof -
  have same: "False" if "epochs w' = epochs w" using assms(2,3) that by simp
  obtain x v where v: "resolveInFlightBatch env i w = (x, v)" by fastforce
  have ev: "epochs v = epochs w" using resolve_epochs [of env i w] v by simp
  have "x = Inr False"
    using assms(1) v ev same by (cases x) (auto simp: harvestEpochStep_def split: bool.splits)
  then have "v = w" "inFlight w i = None" using resolve_idle v by auto
  have bb: "epochs (snd (buildBatch env i winning good (w\<lparr>quarantine := q\<rparr>))) = epochs w" for winning good q
    by simp
  have "\<not> (\<exists>t \<in> set (tickets w). winningOf w i t)
      \<and> w' = updEpochs (\<lambda>e. megapotId e = i) (\<lambda>e. e\<lparr>ticketsHarvestedAt := Some (envNow (hBase env))\<rparr>) w"
    using assms(1) same bb unfolding harvestEpochStep_def v \<open>x = Inr False\<close> \<open>v = w\<close>
    by (auto simp: Let_def filter_empty_conv split: sum.splits if_splits prod.splits) (metis bb snd_conv)+
  then show ?thesis
    using assms(2,3) \<open>inFlight w i = None\<close>
    by (auto simp: set_updateMany inFlight_def updEpochs_def winningOf_def orderWhere_def orderOf_def
        split: if_splits)
qed

definition harvestWorld :: "ticket list \<Rightarrow> world" where
  "harvestWorld ts = emptyWorld\<lparr>orders := [(relayedOrder SUCCESS)\<lparr>fulfillEpoch := Some 7\<rparr>],
     epochs := [(blankEpoch 7)\<lparr>ticketsSettledAt := Some 1\<rparr>], tickets := ts\<rparr>"

lemma harvest_sample:
  "harvestEpochStep pickyEnv 7 (harvestWorld [])
   = (None, (harvestWorld [])\<lparr>epochs := [(blankEpoch 7)\<lparr>ticketsSettledAt := Some 1, ticketsHarvestedAt := Some 1000000\<rparr>]\<rparr>)"
  by code_simp

theorem harvest_watermark_sound_witness:
  "inFlight (snd (harvestEpochStep pickyEnv 7 (harvestWorld []))) 7 = None"
proof -
  let ?e = "(blankEpoch 7)\<lparr>ticketsSettledAt := Some 1, ticketsHarvestedAt := Some 1000000\<rparr>"
  have "?e \<notin> set (epochs (harvestWorld []))" by (simp add: harvestWorld_def blankEpoch_def)
  then show ?thesis
    using harvest_watermark_sound [OF harvest_sample, of ?e] unfolding harvest_sample by simp
qed

section \<open>What a recovery presumes\<close>

text \<open>
  A batch that has no transaction hash after two minutes is finalised as landed on any failure
  of the rehearsal, whatever the error is: a node that does not answer is enough to mark its
  tickets \<open>CLAIMED_ON_BASE\<close> although nothing was claimed.
\<close>
theorem harvest_recovery_presumes_landed:
  assumes "inFlight w i = Some b" and "hbTxHash b = None"
    and "HARVEST_PENDING_TIMEOUT_MS \<le> envNow (hBase env) - hbCreatedAt b"
    and "winningPacked w (hbMegapotId b) = Inr winning"
    and "rehearse env winning (filter (\<lambda>t. harvestBatchId t = Some (hbId b)) (tickets w)) = Inl anyError"
  shows "resolveInFlightBatch env i w =
     (Inr True, finalizeBatchSuccess (envNow (hBase env)) (hbId b) ''UNKNOWN-recovered-see-alert'' w)"
  using assms by (simp add: resolveInFlightBatch_def recoverLostBatch_def Let_def)

definition lostWorld :: world where
  "lostWorld = (harvestWorld [(wonTicket ''a'' ''12'')\<lparr>harvestBatchId := Some ''u''\<rparr>])
     \<lparr>harvestBatches := [newHarvestBatch ''u'' 7 55 0]\<rparr>"

definition deafEnv :: harvestEnv where
  "deafEnv = pickyEnv\<lparr>estimateClaim := \<lambda>_ _. Inl (newError ''ETIMEDOUT'')\<rparr>"

theorem harvest_recovery_presumes_landed_witness:
  "map winStatus (tickets (snd (resolveInFlightBatch deafEnv 7 lostWorld))) = [CLAIMED_ON_BASE]"
proof -
  have r: "rehearse deafEnv 0 [(wonTicket ''a'' ''12'')\<lparr>harvestBatchId := Some ''u''\<rparr>] = Inl (newError ''ETIMEDOUT'')"
    by code_simp
  have "rehearse deafEnv (packTicketForTest [] 0) [(wonTicket ''a'' ''12'')\<lparr>harvestBatchId := Some ''u''\<rparr>]
      = Inl (newError ''ETIMEDOUT'')"
    by code_simp
  then have "resolveInFlightBatch deafEnv 7 lostWorld =
     (Inr True, finalizeBatchSuccess (envNow (hBase deafEnv)) ''u'' ''UNKNOWN-recovered-see-alert'' lostWorld)"
    using harvest_recovery_presumes_landed [of lostWorld 7 "newHarvestBatch ''u'' 7 55 0" deafEnv
        "packTicketForTest [] 0" "newError ''ETIMEDOUT''"]
    by (simp add: lostWorld_def harvestWorld_def inFlight_def newHarvestBatch_def winningPacked_def findEpoch_def
        blankEpoch_def wonTicket_def newTicket_def deafEnv_def pickyEnv_def quietEnv_def HARVEST_PENDING_TIMEOUT_MS_def)
  then show ?thesis
    by (simp add: lostWorld_def harvestWorld_def batchWinners_def wonTicket_def newTicket_def HARVESTABLE_def markClaimed_def)
qed

text \<open>
  The page of a hundred winning tickets is cut before quarantined ones are removed: if all of
  the page is quarantined, an idle epoch makes no progress, however many claimable tickets follow.
\<close>
theorem harvest_starves_behind_quarantine:
  assumes "inFlight w i = None" and "winningPacked w i = Inr winning"
    and "ticketId ` set (take 100 (filter (\<lambda>t. winningOf w i t \<and> megapotNftId t \<noteq> None) (tickets w)))
          \<subseteq> set (quarantine w)"
    and "t \<in> set (tickets w)" "winningOf w i t"
  shows "harvestEpochStep env i w = (None, w)"
proof -
  have "findHarvestableTickets w i = []"
    using assms(3) by (force simp: findHarvestableTickets_def CHUNK_SIZE_def filter_empty_conv)
  moreover have "filter (winningOf w i) (tickets w) \<noteq> []"
    using assms(4,5) by (auto simp: filter_empty_conv)
  ultimately show ?thesis
    using assms(1,2) by (simp add: harvestEpochStep_def resolveInFlightBatch_def)
qed

definition stuckWorld :: world where
  "stuckWorld = (harvestWorld (replicate 100 (wonTicket ''q'' ''13'') @ [wonTicket ''a'' ''12'']))
     \<lparr>quarantine := [''q'']\<rparr>"

lemma stuck_winning:
  "winningOf stuckWorld 7 (wonTicket ''q'' ''13'')" "winningOf stuckWorld 7 (wonTicket ''a'' ''12'')"
  by (simp_all add: stuckWorld_def harvestWorld_def winningOf_def orderWhere_def orderOf_def wonTicket_def
      newTicket_def HARVESTABLE_def relayedOrder_def)

theorem harvest_starves_behind_quarantine_witness:
  "harvestEpochStep pickyEnv 7 stuckWorld = (None, stuckWorld)"
proof (rule harvest_starves_behind_quarantine [where winning = "packTicketForTest [] 0"
      and t = "wonTicket ''a'' ''12''"])
  have "filter (\<lambda>t. winningOf stuckWorld 7 t \<and> megapotNftId t \<noteq> None) (tickets stuckWorld)
      = replicate 100 (wonTicket ''q'' ''13'') @ [wonTicket ''a'' ''12'']"
    using stuck_winning by (simp add: stuckWorld_def harvestWorld_def filter_replicate wonTicket_def)
  then show "ticketId ` set (take 100 (filter (\<lambda>t. winningOf stuckWorld 7 t \<and> megapotNftId t \<noteq> None)
      (tickets stuckWorld))) \<subseteq> set (quarantine stuckWorld)"
    by (simp add: stuckWorld_def wonTicket_def newTicket_def)
qed (use stuck_winning in \<open>simp_all add: stuckWorld_def harvestWorld_def inFlight_def winningPacked_def
      findEpoch_def blankEpoch_def emptyWorld_def\<close>)

section \<open>A batch is worth the tickets bound to it\<close>






definition batchWorth :: "string \<Rightarrow> ticket list \<Rightarrow> int" where
  "batchWorth b ts = sumMany winAmount (filter (\<lambda>t. harvestBatchId t = Some b) ts)"

text \<open>
  The books of the harvest, for the ids \<open>u\<close> yet to be drawn: every batch that was not given up is
  worth the tickets bound to it.
\<close>

definition freshIds :: "(nat \<Rightarrow> string) \<Rightarrow> world \<Rightarrow> bool" where
  "freshIds u w \<longleftrightarrow> (\<forall>n \<ge> uuidNext w. (\<forall>t \<in> set (tickets w). harvestBatchId t \<noteq> Some (u n))
     \<and> (\<forall>b \<in> set (harvestBatches w). hbId b \<noteq> u n))"

definition harvestBooks :: "(nat \<Rightarrow> string) \<Rightarrow> world \<Rightarrow> bool" where
  "harvestBooks u w \<longleftrightarrow> distinct (map ticketId (tickets w)) \<and> distinct (map hbId (harvestBatches w)) \<and> freshIds u w
     \<and> (\<forall>b \<in> set (harvestBatches w). hbStatus b \<noteq> HV_FAILED \<longrightarrow> hbAmountGross b = batchWorth (hbId b) (tickets w))"







lemma books_cong:
  "tickets w' = tickets w \<Longrightarrow> harvestBatches w' = harvestBatches w \<Longrightarrow> uuidNext w' = uuidNext w \<Longrightarrow>
   harvestBooks u w' = harvestBooks u w"
  by (simp add: harvestBooks_def freshIds_def)


lemma books_lane [simp]: "harvestBooks u (resetNonceLane w) = harvestBooks u w"
  by (rule books_cong) (simp_all add: resetNonceLane_def)









section \<open>Harvesting keeps the ticket contract\<close>

lemma markClaimed_step: "batchWinners b t \<Longrightarrow> ticketStep t (markClaimed t)"
  by (auto simp: batchWinners_def HARVESTABLE_def ticketStep_def markClaimed_def winStatus_order)

lemma harvest_grow [simp]:
  "ticketsGrow (tickets w) (tickets (finalizeBatchSuccess now b tx w))"
  "ticketsGrow (tickets w) (tickets (releaseBatch b reason w))"
  by (simp_all add: ticketsGrow_updateMany markClaimed_step ticketStep_same)

lemma recoverLostBatch_grow: "ticketsGrow (tickets w) (tickets (snd (recoverLostBatch env b w)))"
  using ticketsGrow_updateMany [of "batchWinners (hbId b)" markClaimed] markClaimed_step
  by (auto simp: recoverLostBatch_def Let_def split: sum.split prod.split dest!: submitClaim_rest)

lemma resolve_grow: "ticketsGrow (tickets w) (tickets (snd (resolveInFlightBatch env i w)))"
  using recoverLostBatch_grow harvest_grow(2) [of "resetNonceLane w"]
  by (simp add: resolveInFlightBatch_def Let_def ticketsGrow_updateMany markClaimed_step ticketStep_same
      split: sum.split option.split)

lemma buildBatch_grow: "ticketsGrow (tickets w) (tickets (snd (buildBatch env i winning good w)))"
proof -
  have "ticketsGrow (tickets w) (updateMany (bindable good) (\<lambda>t. t\<lparr>harvestBatchId := Some b\<rparr>) (tickets w))" for b
    by (rule ticketsGrow_updateMany) (simp add: ticketStep_same)
  then show ?thesis
    by (auto simp: buildBatch_def Let_def split: sum.split prod.split dest!: submitClaim_rest)
qed

lemma harvestEpochStep_grow: "ticketsGrow (tickets w) (tickets (snd (harvestEpochStep env i w)))"
proof -
  obtain x v where v: "resolveInFlightBatch env i w = (x, v)" by fastforce
  have g: "ticketsGrow (tickets w) (tickets v)" using resolve_grow [of w env i] v by simp
  have b: "ticketsGrow (tickets w) (tickets (snd (buildBatch env i winning good (v\<lparr>quarantine := q\<rparr>))))"
    for winning good q
    using ticketsGrow_trans [OF g] buildBatch_grow [of "v\<lparr>quarantine := q\<rparr>"] by simp
  show ?thesis using g b
    by (auto simp: harvestEpochStep_def v Let_def split: sum.split bool.split prod.split)
qed

lemma harvestEpochs_grow: "ticketsGrow (tickets w) (tickets (harvestEpochs env is w))"
proof (induction env "is" w rule: harvestEpochs.induct)
  case (2 env i "is" w)
  obtain e w' where r: "harvestEpochStep env i w = (e, w')" by fastforce
  have "ticketsGrow (tickets w) (tickets w')" using harvestEpochStep_grow [of w env i] r by simp
  then show ?case using 2 r by (cases e) (auto intro: ticketsGrow_trans)
qed simp

definition harvestOp :: "bool \<times> harvestEnv \<Rightarrow> world \<Rightarrow> world" where
  "harvestOp i w = runHarvestTick (fst i) (snd i) w"

interpretation harvester: ticket_op harvestOp
  by unfold_locales (simp add: harvestOp_def runHarvestTick_def harvestEpochs_grow)

section \<open>A concrete batch\<close>





end
