(* ===== verification/PayoutConfirmer.thy ===== *)
theory PayoutConfirmer
  imports Claims SolanaService Harvest
begin

text \<open>
  \<open>workers/payoutConfirmer.ts\<close>: resolving claim vouchers from the chain alone. The sweep and the
  block height are fields of \<open>payoutEnv\<close>; \<open>pSweep\<close> is \<open>findLandedClaims\<close> of the Solana service. The
  section on the ledger follows the money through voucher requests and confirmer ticks.
\<close>

record payoutEnv =
  pNow :: int
  pSweep :: "int \<Rightarrow> (string, landedClaim list \<times> bool) result"
  pHeight :: "(string, int) result"

definition PAYOUT_POLL_MS :: int where "PAYOUT_POLL_MS = 10000"

definition PAYOUT_IDLE_POLL_MS :: int where "PAYOUT_IDLE_POLL_MS = 2 * 60000"

definition EXPIRY_BUFFER_BLOCKS :: int where "EXPIRY_BUFFER_BLOCKS = 150"

definition UNSIGNED_GRACE_MS :: int where "UNSIGNED_GRACE_MS = 2 * 60000"

definition CLOCK_SKEW_MS :: int where "CLOCK_SKEW_MS = 60000"

section \<open>The two transactions\<close>

definition updClaim :: "string \<Rightarrow> (payoutClaim \<Rightarrow> payoutClaim) \<Rightarrow> world \<Rightarrow> world" where
  "updClaim cid f w = w\<lparr>payoutClaims := updateMany (\<lambda>c. claimId c = cid) f (payoutClaims w)\<rparr>"

definition markPaid :: "ticket \<Rightarrow> ticket" where
  "markPaid t = t\<lparr>winStatus := PAID_OUT_ON_SOLANA\<rparr>"

definition markConfirmed :: "int \<Rightarrow> string \<Rightarrow> payoutClaim \<Rightarrow> payoutClaim" where
  "markConfirmed now sig c = c\<lparr>claimStatus := PAY_CONFIRMED, claimConfirmedAt := Some now,
     claimTxSignature := Some sig, claimError := None\<rparr>"

definition markReleased :: "payoutStatus \<Rightarrow> string \<Rightarrow> payoutClaim \<Rightarrow> payoutClaim" where
  "markReleased st reason c = c\<lparr>claimStatus := st, claimError := Some (take 2000 reason)\<rparr>"

text \<open>
  A transaction one of whose statements is refused (no such claim row, a signature another row
  already has) is rolled back; the tick's loop catches the error and goes on.
\<close>

definition hasClaim :: "string \<Rightarrow> world \<Rightarrow> bool" where
  "hasClaim cid w = list_ex (\<lambda>c. claimId c = cid) (payoutClaims w)"

definition signatureTaken :: "string \<Rightarrow> string \<Rightarrow> world \<Rightarrow> bool" where
  "signatureTaken cid sig w =
     list_ex (\<lambda>c. claimId c \<noteq> cid \<and> claimTxSignature c = Some sig) (payoutClaims w)"

definition confirmClaim :: "int \<Rightarrow> string \<Rightarrow> string \<Rightarrow> world \<Rightarrow> world" where
  "confirmClaim now cid sig w =
     (if \<not> hasClaim cid w \<or> signatureTaken cid sig w then w
      else updClaim cid (markConfirmed now sig)
        (updTickets (\<lambda>t. payoutClaimId t = Some cid \<and> winStatus t = CLAIMED_ON_BASE) markPaid w))"

definition releaseClaim :: "string \<Rightarrow> payoutStatus \<Rightarrow> string \<Rightarrow> world \<Rightarrow> world" where
  "releaseClaim cid st reason w =
     (if \<not> hasClaim cid w then w
      else updClaim cid (markReleased st reason) (unbindTickets cid w))"

section \<open>A tick\<close>

definition pendingClaims :: "world \<Rightarrow> payoutClaim list" where
  "pendingClaims w = sort_key claimCreatedAt (filter (\<lambda>c. claimStatus c = PENDING) (payoutClaims w))"

definition notBeforeUnixTime :: "payoutClaim \<Rightarrow> int" where
  "notBeforeUnixTime oldest = (claimCreatedAt oldest - CLOCK_SKEW_MS) div 1000"

definition byWallet :: "landedClaim list \<Rightarrow> string \<Rightarrow> landedClaim list" where
  "byWallet landed wallet = sort_key lcSlot (filter (\<lambda>c. lcWallet c = wallet) landed)"

definition usedSignatures :: "world \<Rightarrow> string list" where
  "usedSignatures w = List.map_filter claimTxSignature (payoutClaims w)"

definition isAfterIssuance :: "payoutClaim \<Rightarrow> landedClaim \<Rightarrow> bool" where
  "isAfterIssuance c lc =
     (case lcTime lc of None \<Rightarrow> True | Some t \<Rightarrow> t * 1000 \<ge> claimCreatedAt c - CLOCK_SKEW_MS)"

definition findHit :: "string list \<Rightarrow> landedClaim list \<Rightarrow> payoutClaim \<Rightarrow> landedClaim option" where
  "findHit used landed c =
     List.find (\<lambda>lc. lcSignature lc \<notin> set used \<and> isAfterIssuance c lc \<and> lcAmount lc = claimAmount c)
       (byWallet landed (claimWallet c))"

definition resolveOne ::
  "int \<Rightarrow> landedClaim list \<Rightarrow> bool \<Rightarrow> int \<Rightarrow> payoutClaim \<Rightarrow> string list \<times> world \<Rightarrow> string list \<times> world" where
  "resolveOne now landed sweptAll height c =
     (\<lambda>(used, w). case findHit used landed c of
        Some lc \<Rightarrow> (lcSignature lc # used,
          (if lcFailed lc
           then releaseClaim (claimId c) PAY_FAILED (''Claim tx errored on-chain: '' @ lcSignature lc) w
           else confirmClaim now (claimId c) (lcSignature lc) w))
      | None \<Rightarrow> (used,
          (case lastValidBlockHeight c of
             None \<Rightarrow> (if now - claimCreatedAt c > UNSIGNED_GRACE_MS
                then releaseClaim (claimId c) EXPIRED
                  ''Voucher issuance crashed before signing - nothing was handed out'' w
                else w)
           | Some lvbh \<Rightarrow> (if sweptAll \<and> height > lvbh + EXPIRY_BUFFER_BLOCKS
                then releaseClaim (claimId c) EXPIRED
                  ''Voucher expired unused (blockhash passed lastValidBlockHeight)'' w
                else w))))"

definition runPayoutConfirmerTick :: "payoutEnv \<Rightarrow> world \<Rightarrow> (string, nat) result \<times> world" where
  "runPayoutConfirmerTick env w =
     (case pendingClaims w of [] \<Rightarrow> (Inr 0, w)
      | oldest # rest \<Rightarrow>
        (case pSweep env (notBeforeUnixTime oldest) of
           Inl _ \<Rightarrow> (Inr (length (oldest # rest)), w)
         | Inr (landed, sweptAll) \<Rightarrow>
           (case pHeight env of Inl e \<Rightarrow> (Inl e, w)
            | Inr height \<Rightarrow> (Inr (length (oldest # rest)),
                snd (fold (resolveOne (pNow env) landed sweptAll height) (oldest # rest)
                  (usedSignatures w, w))))))"

definition payoutNextDelay :: "(string, nat) result \<Rightarrow> int" where
  "payoutNextDelay r = (case r of Inl _ \<Rightarrow> PAYOUT_IDLE_POLL_MS
     | Inr pending \<Rightarrow> (if pending > 0 then PAYOUT_POLL_MS else PAYOUT_IDLE_POLL_MS))"

section \<open>What one resolution does to the tables\<close>

lemma resolve_sel [simp]:
  "payoutClaims (updClaim cid f w) = updateMany (\<lambda>c. claimId c = cid) f (payoutClaims w)"
  "tickets (updClaim cid f w) = tickets w"
  "payoutClaims (unbindTickets cid w) = payoutClaims w"
  "tickets (unbindTickets cid w) =
     updateMany (\<lambda>t. payoutClaimId t = Some cid) (\<lambda>t. t\<lparr>payoutClaimId := None\<rparr>) (tickets w)"
  by (simp_all add: updClaim_def unbindTickets_def)

lemma mark_id [simp]: "claimId (markConfirmed now sig c) = claimId c"
  "claimId (markReleased st reason c) = claimId c"
  by (simp_all add: markConfirmed_def markReleased_def)

lemma findHit_Some:
  assumes "findHit used landed c = Some lc"
  shows "lc \<in> set landed" "lcWallet lc = claimWallet c" "lcAmount lc = claimAmount c"
    "isAfterIssuance c lc" "lcSignature lc \<notin> set used"
  using find_Some_iff_mem [OF assms [unfolded findHit_def]] by (auto simp: byWallet_def)

lemma findHit_None:
  assumes "findHit used landed c = None" "lc \<in> set landed" "lcWallet lc = claimWallet c"
    "lcAmount lc = claimAmount c" "isAfterIssuance c lc"
  shows "lcSignature lc \<in> set used"
  using assms find_None_not [OF assms(1) [unfolded findHit_def]] by (auto simp: byWallet_def)

text \<open>The verdicts: confirmed, released with a status, or left waiting.\<close>

lemma resolveOne_cases:
  obtains (confirmed) lc where "findHit used landed c = Some lc" "\<not> lcFailed lc"
      "resolveOne now landed sweptAll height c (used, w)
        = (lcSignature lc # used, confirmClaim now (claimId c) (lcSignature lc) w)"
    | (failed) lc reason where "findHit used landed c = Some lc" "lcFailed lc"
      "resolveOne now landed sweptAll height c (used, w)
        = (lcSignature lc # used, releaseClaim (claimId c) PAY_FAILED reason w)"
    | (expired) reason where "findHit used landed c = None"
      "(case lastValidBlockHeight c of None \<Rightarrow> now - claimCreatedAt c > UNSIGNED_GRACE_MS
        | Some lvbh \<Rightarrow> sweptAll \<and> height > lvbh + EXPIRY_BUFFER_BLOCKS)"
      "resolveOne now landed sweptAll height c (used, w) = (used, releaseClaim (claimId c) EXPIRED reason w)"
    | (waiting) "findHit used landed c = None"
      "resolveOne now landed sweptAll height c (used, w) = (used, w)"
proof (cases "findHit used landed c")
  case None
  show thesis
  proof (cases "case lastValidBlockHeight c of None \<Rightarrow> now - claimCreatedAt c > UNSIGNED_GRACE_MS
        | Some lvbh \<Rightarrow> sweptAll \<and> height > lvbh + EXPIRY_BUFFER_BLOCKS")
    case True
    then show thesis using None expired [OF None True]
      by (cases "lastValidBlockHeight c") (simp_all add: resolveOne_def)
  next
    case False
    then show thesis using None waiting [OF None]
      by (cases "lastValidBlockHeight c") (auto simp: resolveOne_def)
  qed
next
  case (Some lc)
  then show thesis
    using confirmed [OF Some] failed [OF Some] by (cases "lcFailed lc") (simp_all add: resolveOne_def)
qed

lemma resolveOne_ids:
  "map claimId (payoutClaims (snd (resolveOne now landed sweptAll height c (used, w))))
   = map claimId (payoutClaims w)"
  by (cases rule: resolveOne_cases [where used = used and landed = landed and c = c and now = now
        and sweptAll = sweptAll and height = height and w = w])
     (simp_all add: confirmClaim_def releaseClaim_def map_updateMany_key)

lemma resolveOne_others:
  assumes "x \<in> set (payoutClaims w)" "claimId x \<noteq> claimId c"
  shows "x \<in> set (payoutClaims (snd (resolveOne now landed sweptAll height c (used, w))))"
  by (cases rule: resolveOne_cases [where used = used and landed = landed and c = c and now = now
        and sweptAll = sweptAll and height = height and w = w])
     (use assms in \<open>auto simp: confirmClaim_def releaseClaim_def set_updateMany image_iff intro!: bexI [of _ x]\<close>)

section \<open>The ledger\<close>

text \<open>
  What the rows say about money. A ticket bound to a voucher is harvested while the voucher is
  pending and paid once it is confirmed, and never bound to a retired one; an unbound ticket is not
  paid. A voucher that was handed out, or confirmed, is for the sum of its tickets.
\<close>

definition boundSum :: "string \<Rightarrow> ticket list \<Rightarrow> int" where
  "boundSum i ts = sumMany winAmount (filter (\<lambda>t. payoutClaimId t = Some i) ts)"

definition ticketBooked :: "payoutClaim list \<Rightarrow> ticket \<Rightarrow> bool" where
  "ticketBooked cs t = (case payoutClaimId t of None \<Rightarrow> winStatus t \<noteq> PAID_OUT_ON_SOLANA
     | Some i \<Rightarrow> list_ex (\<lambda>c. claimId c = i
         \<and> (claimStatus c = PENDING \<and> winStatus t = CLAIMED_ON_BASE
            \<or> claimStatus c = PAY_CONFIRMED \<and> winStatus t = PAID_OUT_ON_SOLANA)) cs)"

definition claimBooked :: "ticket list \<Rightarrow> payoutClaim \<Rightarrow> bool" where
  "claimBooked ts c = (case claimStatus c of
       PENDING \<Rightarrow> claimTxSignature c = None
         \<and> claimAmount c = (if lastValidBlockHeight c = None then 0 else boundSum (claimId c) ts)
     | PAY_CONFIRMED \<Rightarrow> claimTxSignature c \<noteq> None \<and> claimAmount c = boundSum (claimId c) ts
     | _ \<Rightarrow> claimTxSignature c = None)"

definition ledgerOk :: "world \<Rightarrow> bool" where
  "ledgerOk w \<longleftrightarrow> distinct (map claimId (payoutClaims w)) \<and> distinct (usedSignatures w)
     \<and> list_all (ticketBooked (payoutClaims w)) (tickets w)
     \<and> list_all (claimBooked (tickets w)) (payoutClaims w)"

lemma update_split:
  assumes "distinct (map k rs)" "r \<in> set rs"
  obtains as bs where "rs = as @ r # bs" "updateMany (\<lambda>x. k x = k r) f rs = as @ f r # bs"
    "\<forall>x \<in> set as \<union> set bs. k x \<noteq> k r"
proof -
  from assms(2) obtain as bs where rs: "rs = as @ r # bs" by (auto simp: in_set_conv_decomp)
  have ne: "\<forall>x \<in> set as \<union> set bs. k x \<noteq> k r" using assms(1) unfolding rs by (auto simp: image_iff)
  have "updateMany (\<lambda>x. k x = k r) f as = as" "updateMany (\<lambda>x. k x = k r) f bs = bs"
    using ne by (auto intro!: updateMany_noop)
  then show thesis using that rs ne by simp
qed

lemma boundSum_simps [simp]:
  "boundSum i (updateMany sel markPaid ts) = boundSum i ts"
  "i \<noteq> j \<Longrightarrow> boundSum i (updateMany (\<lambda>t. payoutClaimId t = Some j) (\<lambda>t. t\<lparr>payoutClaimId := None\<rparr>) ts) = boundSum i ts"
  by (induction ts) (auto simp: boundSum_def markPaid_def)

lemma list_all_updateMany:
  "list_all P rs \<Longrightarrow> (\<And>r. P r \<Longrightarrow> Q (if sel r then upd r else r)) \<Longrightarrow> list_all Q (updateMany sel upd rs)"
  by (induction rs) (simp_all split del: if_split)

lemma booked_other:
  "ticketBooked (as @ c # bs) t \<Longrightarrow> payoutClaimId t \<noteq> Some (claimId c) \<Longrightarrow> claimId c' = claimId c \<Longrightarrow>
   ticketBooked (as @ c' # bs) t"
  by (auto simp: ticketBooked_def split: option.splits)

lemma confirm_ledger:
  assumes led: "ledgerOk w" and c: "c \<in> set (payoutClaims w)" "claimStatus c = PENDING"
    and "lastValidBlockHeight c \<noteq> None" and sig: "sig \<notin> set (usedSignatures w)"
  shows "ledgerOk (confirmClaim now (claimId c) sig w)"
    "set (usedSignatures (confirmClaim now (claimId c) sig w)) = insert sig (set (usedSignatures w))"
proof -
  have d: "distinct (map claimId (payoutClaims w))" using led by (simp add: ledgerOk_def)
  obtain as bs where s: "payoutClaims w = as @ c # bs"
    "updateMany (\<lambda>x. claimId x = claimId c) (markConfirmed now sig) (payoutClaims w) = as @ markConfirmed now sig c # bs"
    "\<forall>x \<in> set as \<union> set bs. claimId x \<noteq> claimId c"
    by (rule update_split [OF d c(1)])
  have "hasClaim (claimId c) w" using s(1) by (simp add: hasClaim_def)
  moreover have "\<not> signatureTaken (claimId c) sig w"
    using sig by (auto simp: signatureTaken_def usedSignatures_def List.map_filter_def list_ex_iff image_iff)
  ultimately have w': "payoutClaims (confirmClaim now (claimId c) sig w) = as @ markConfirmed now sig c # bs"
    "tickets (confirmClaim now (claimId c) sig w) =
       updateMany (\<lambda>t. payoutClaimId t = Some (claimId c) \<and> winStatus t = CLAIMED_ON_BASE) markPaid (tickets w)"
    by (simp_all add: confirmClaim_def s(2))
  have cb: "claimBooked (tickets w) c" "\<forall>x \<in> set as \<union> set bs. claimBooked (tickets w) x"
    using led s(1) by (simp_all add: ledgerOk_def list_all_iff)
  then have none: "claimTxSignature c = None" using c(2) by (simp add: claimBooked_def)
  show used: "set (usedSignatures (confirmClaim now (claimId c) sig w)) = insert sig (set (usedSignatures w))"
    unfolding usedSignatures_def w' s(1) using none
    by (simp add: map_filter_simps markConfirmed_def List.map_filter_def)
  have "distinct (usedSignatures (confirmClaim now (claimId c) sig w))"
    using led sig none unfolding ledgerOk_def usedSignatures_def w' s(1)
    by (auto simp: List.map_filter_def markConfirmed_def)
  moreover have T: "ticketBooked (payoutClaims w) t \<Longrightarrow> ticketBooked (as @ markConfirmed now sig c # bs)
      (if payoutClaimId t = Some (claimId c) \<and> winStatus t = CLAIMED_ON_BASE then markPaid t else t)" for t
    using booked_other [of as c bs t "markConfirmed now sig c"] s(1,3) c(2)
    by (cases "payoutClaimId t = Some (claimId c)")
       (auto simp: ticketBooked_def markPaid_def markConfirmed_def list_ex_iff)
  moreover have "list_all (ticketBooked (as @ markConfirmed now sig c # bs)) (tickets (confirmClaim now (claimId c) sig w))"
    unfolding w'(2) by (rule list_all_updateMany [of "ticketBooked (payoutClaims w)"]) (use led in \<open>simp add: ledgerOk_def\<close>, rule T)
  moreover have "list_all (claimBooked (tickets (confirmClaim now (claimId c) sig w))) (as @ markConfirmed now sig c # bs)"
    using cb assms(4) c(2) unfolding w'(2)
    by (auto simp: list_all_iff claimBooked_def markConfirmed_def split: payoutStatus.splits)
  ultimately show "ledgerOk (confirmClaim now (claimId c) sig w)"
    using d unfolding ledgerOk_def w'(1) s(1) by simp
qed

lemma release_ledger:
  assumes led: "ledgerOk w" and c: "c \<in> set (payoutClaims w)" "claimStatus c = PENDING"
    and st: "st = EXPIRED \<or> st = PAY_FAILED"
  shows "ledgerOk (releaseClaim (claimId c) st reason w)"
    "usedSignatures (releaseClaim (claimId c) st reason w) = usedSignatures w"
proof -
  have d: "distinct (map claimId (payoutClaims w))" using led by (simp add: ledgerOk_def)
  obtain as bs where s: "payoutClaims w = as @ c # bs"
    "updateMany (\<lambda>x. claimId x = claimId c) (markReleased st reason) (payoutClaims w) = as @ markReleased st reason c # bs"
    "\<forall>x \<in> set as \<union> set bs. claimId x \<noteq> claimId c"
    by (rule update_split [OF d c(1)])
  have "hasClaim (claimId c) w" using s(1) by (simp add: hasClaim_def)
  then have w': "payoutClaims (releaseClaim (claimId c) st reason w) = as @ markReleased st reason c # bs"
    "tickets (releaseClaim (claimId c) st reason w) =
       updateMany (\<lambda>t. payoutClaimId t = Some (claimId c)) (\<lambda>t. t\<lparr>payoutClaimId := None\<rparr>) (tickets w)"
    by (simp_all add: releaseClaim_def s(2))
  have cb: "claimBooked (tickets w) c" "\<forall>x \<in> set as \<union> set bs. claimBooked (tickets w) x"
    using led s(1) by (simp_all add: ledgerOk_def list_all_iff)
  then have none: "claimTxSignature c = None" using c(2) by (simp add: claimBooked_def)
  show used: "usedSignatures (releaseClaim (claimId c) st reason w) = usedSignatures w"
    unfolding usedSignatures_def w' s(1) by (simp add: List.map_filter_def markReleased_def)
  have t: "ticketBooked (payoutClaims w) t \<Longrightarrow> ticketBooked (as @ markReleased st reason c # bs)
      (if payoutClaimId t = Some (claimId c) then t\<lparr>payoutClaimId := None\<rparr> else t)" for t
    using booked_other [of as c bs t "markReleased st reason c"] s(1,3) c(2)
    by (cases "payoutClaimId t = Some (claimId c)") (auto simp: ticketBooked_def list_ex_iff)
  have o: "claimBooked (updateMany (\<lambda>t. payoutClaimId t = Some (claimId c)) (\<lambda>t. t\<lparr>payoutClaimId := None\<rparr>) (tickets w)) x"
    if "x \<in> set as \<union> set bs" for x
    using cb(2) s(3) that by (fastforce simp: claimBooked_def split: payoutStatus.splits)
  have "list_all (ticketBooked (as @ markReleased st reason c # bs)) (tickets (releaseClaim (claimId c) st reason w))"
    unfolding w'(2) by (rule list_all_updateMany [of "ticketBooked (payoutClaims w)"]) (use led in \<open>simp add: ledgerOk_def\<close>, rule t)
  moreover have "list_all (claimBooked (tickets (releaseClaim (claimId c) st reason w))) (as @ markReleased st reason c # bs)"
    using o st none unfolding w'(2) by (auto simp: list_all_iff claimBooked_def markReleased_def)
  ultimately show "ledgerOk (releaseClaim (claimId c) st reason w)"
    using led d unfolding ledgerOk_def used unfolding w'(1) s(1) by simp
qed

lemma resolve_ledger:
  assumes led: "ledgerOk w" and c: "c \<in> set (payoutClaims w)" "claimStatus c = PENDING"
    and used: "set (usedSignatures w) \<subseteq> set used" and pos: "\<forall>lc \<in> set landed. 0 < lcAmount lc"
    and r: "resolveOne now landed sweptAll height c (used, w) = (used', w')"
  shows "ledgerOk w' \<and> set (usedSignatures w') \<subseteq> set used'"
proof (cases rule: resolveOne_cases [of used landed c now sweptAll height w])
  case (confirmed lc)
  note hit = findHit_Some [OF confirmed(1)]
  have "claimBooked (tickets w) c" using led c by (simp add: ledgerOk_def list_all_iff)
  moreover have "0 < claimAmount c" using pos hit(1,3) by metis
  ultimately have "lastValidBlockHeight c \<noteq> None"
    using c(2) by (auto simp: claimBooked_def split: if_splits)
  moreover have "lcSignature lc \<notin> set (usedSignatures w)" using used hit(5) by blast
  ultimately show ?thesis using confirm_ledger [OF led c] confirmed(3) used r by auto
next
  case failed
  then show ?thesis using release_ledger [OF led c] used r by auto
next
  case expired
  then show ?thesis using release_ledger [OF led c] used r by auto
next
  case waiting
  then show ?thesis using led used r by auto
qed

lemma resolve_all_ledger:
  assumes "ledgerOk w" and "\<forall>c \<in> set cs. c \<in> set (payoutClaims w) \<and> claimStatus c = PENDING"
    and "distinct (map claimId cs)" and "set (usedSignatures w) \<subseteq> set used"
    and "\<forall>lc \<in> set landed. 0 < lcAmount lc"
  shows "ledgerOk (snd (fold (resolveOne now landed sweptAll height) cs (used, w)))"
  using assms
proof (induction cs arbitrary: used w)
  case (Cons c cs)
  obtain used' w' where r: "resolveOne now landed sweptAll height c (used, w) = (used', w')" by fastforce
  have "ledgerOk w' \<and> set (usedSignatures w') \<subseteq> set used'"
    using resolve_ledger [OF Cons.prems(1) _ _ Cons.prems(4,5) r] Cons.prems(2) by simp
  moreover have "\<forall>x \<in> set cs. x \<in> set (payoutClaims w') \<and> claimStatus x = PENDING"
    using Cons.prems(2,3) resolveOne_others [of _ w c now landed sweptAll height used] r
    by (auto simp: image_iff)
  ultimately show ?case using Cons.IH [of w' used'] Cons.prems(3,5) r by simp
qed simp

lemma pendingClaims_set:
  "c \<in> set (pendingClaims w) \<longleftrightarrow> c \<in> set (payoutClaims w) \<and> claimStatus c = PENDING"
  by (auto simp: pendingClaims_def)

lemma pendingClaims_distinct:
  "distinct (map claimId (payoutClaims w)) \<Longrightarrow> distinct (map claimId (pendingClaims w))"
proof -
  assume "distinct (map claimId (payoutClaims w))"
  then have d: "distinct (map claimId (filter (\<lambda>c. claimStatus c = PENDING) (payoutClaims w)))"
    by (rule distinct_map_filter)
  have "mset (map claimId (pendingClaims w))
      = mset (map claimId (filter (\<lambda>c. claimStatus c = PENDING) (payoutClaims w)))"
    by (simp add: pendingClaims_def)
  then show ?thesis using d by (metis mset_eq_imp_distinct_iff)
qed

lemma tick_ledger:
  assumes "ledgerOk w" and "\<And>nb landed sweptAll. pSweep env nb = Inr (landed, sweptAll) \<Longrightarrow> \<forall>lc \<in> set landed. 0 < lcAmount lc"
  shows "ledgerOk (snd (runPayoutConfirmerTick env w))"
proof -
  have "distinct (map claimId (pendingClaims w))"
    using assms(1) by (intro pendingClaims_distinct) (simp add: ledgerOk_def)
  then have "ledgerOk (snd (fold (resolveOne (pNow env) landed sweptAll height) (pendingClaims w) (usedSignatures w, w)))"
    if "\<forall>lc \<in> set landed. 0 < lcAmount lc" for landed sweptAll height
    using assms(1) that by (intro resolve_all_ledger) (auto simp: pendingClaims_set)
  then show ?thesis
    using assms unfolding runPayoutConfirmerTick_def
    by (auto split: list.split sum.split prod.split)
qed

lemma boundSum_other:
  "(\<And>t. sel t \<Longrightarrow> payoutClaimId t = None) \<Longrightarrow> i \<noteq> cid \<Longrightarrow>
   boundSum i (updateMany sel (\<lambda>t. t\<lparr>payoutClaimId := Some cid\<rparr>) ts) = boundSum i ts"
  by (induction ts) (auto simp: boundSum_def)

lemma claims_booked_cong:
  assumes "list_all (claimBooked ts) cs"
    and "\<And>c. c \<in> set cs \<Longrightarrow> boundSum (claimId c) ts' = boundSum (claimId c) ts"
  shows "list_all (claimBooked ts') cs"
  using assms unfolding list_all_iff claimBooked_def by (simp split: payoutStatus.splits)

lemma voucher_ledger:
  assumes led: "ledgerOk w" and fresh: "freshClaimId env w"
  shows "ledgerOk (snd (voucherRoute env raw w))"
proof -
  obtain resp w' where r: "voucherRoute env raw w = (resp, w')" by fastforce
  show ?thesis
  proof (cases "\<exists>cid amt tx lvbh. resp = Res201 cid amt tx lvbh")
    case False
    then have "tickets w' = tickets w" "payoutClaims w' = payoutClaims w"
      using voucher_issue_core [OF fresh r] by (cases resp; auto)+
    then show ?thesis using led r by (simp add: ledgerOk_def usedSignatures_def)
  next
    case True
    then obtain cid amt tx lvbh where res: "resp = Res201 cid amt tx lvbh" by blast
    obtain wallet where w: "cid = ceUuid env (uuidNext w)"
      "tickets w' = updateMany (claimable (ceNow env) wallet w) (\<lambda>t. t\<lparr>payoutClaimId := Some cid\<rparr>) (tickets w)"
      "payoutClaims w' = payoutClaims w @ [(newPayoutClaim cid wallet (ceNow env))
         \<lparr>claimAmount := amt, lastValidBlockHeight := Some lvbh\<rparr>]"
      "amt = sumMany winAmount (filter (\<lambda>t. payoutClaimId t = Some cid) (tickets w'))"
      using voucher_201 [OF fresh r [unfolded res]] by blast
    have ids: "\<forall>c \<in> set (payoutClaims w). claimId c \<noteq> cid" using fresh w(1) by (simp add: freshClaimId_def)
    have row: "ticketBooked (payoutClaims w')
        (if claimable (ceNow env) wallet w t then t\<lparr>payoutClaimId := Some cid\<rparr> else t)"
      if "ticketBooked (payoutClaims w) t" for t
    proof (cases "claimable (ceNow env) wallet w t")
      case True
      then have "winStatus t = CLAIMED_ON_BASE" by (simp add: claimable_def)
      with True show ?thesis by (simp add: ticketBooked_def w(3) newPayoutClaim_def)
    next
      case False
      with that show ?thesis
        by (cases "payoutClaimId t") (simp_all add: ticketBooked_def w(3))
    qed
    have "list_all (ticketBooked (payoutClaims w)) (tickets w)" using led by (simp add: ledgerOk_def)
    then have "list_all (ticketBooked (payoutClaims w')) (tickets w')"
      unfolding w(2) by (rule list_all_updateMany) (rule row)
    moreover have "boundSum i (tickets w') = boundSum i (tickets w)" if "i \<noteq> cid" for i
      unfolding w(2) using that by (intro boundSum_other) (simp_all add: claimable_def)
    then have "list_all (claimBooked (tickets w')) (payoutClaims w)"
      using led ids by - (rule claims_booked_cong [of "tickets w"], simp_all add: ledgerOk_def)
    then have "list_all (claimBooked (tickets w')) (payoutClaims w')"
      using w(4) unfolding w(3) by (simp add: claimBooked_def newPayoutClaim_def boundSum_def)
    moreover have "usedSignatures w' = usedSignatures w"
      by (simp add: usedSignatures_def w(3) List.map_filter_def newPayoutClaim_def)
    ultimately show ?thesis using led ids r w(3)
      by (auto simp: ledgerOk_def newPayoutClaim_def)
  qed
qed

text \<open>The harvester's finalisation, the write that makes tickets claimable, never touches a booked one.\<close>

lemma finalize_ledger:
  assumes "ledgerOk w"
  shows "ledgerOk (finalizeBatchSuccess now b txHash w)"
proof -
  have s: "tickets (finalizeBatchSuccess now b txHash w) = updateMany (batchWinners b) markClaimed (tickets w)"
    "payoutClaims (finalizeBatchSuccess now b txHash w) = payoutClaims w"
    by (simp_all add: finalizeBatchSuccess_def updHarvest_def)
  have row: "ticketBooked (payoutClaims w) (if batchWinners b t then markClaimed t else t)"
    if "ticketBooked (payoutClaims w) t" for t
  proof (cases "batchWinners b t")
    case True
    then have "winStatus t = WON_UNCLAIMED \<or> winStatus t = WON_FREE_TICKET"
      by (simp add: batchWinners_def HARVESTABLE_def)
    with that True show ?thesis
      by (cases "payoutClaimId t") (auto simp: ticketBooked_def markClaimed_def list_ex_iff)
  qed (use that in simp)
  have "list_all (ticketBooked (payoutClaims w)) (tickets w)" using assms by (simp add: ledgerOk_def)
  then have "list_all (ticketBooked (payoutClaims w)) (updateMany (batchWinners b) markClaimed (tickets w))"
    by (rule list_all_updateMany) (rule row)
  moreover have "boundSum i (updateMany (batchWinners b) markClaimed ts) = boundSum i ts" for i ts
    by (induction ts) (simp_all add: boundSum_def markClaimed_def)
  then have "list_all (claimBooked (updateMany (batchWinners b) markClaimed (tickets w))) (payoutClaims w)"
    using assms by - (rule claims_booked_cong [of "tickets w"], simp_all add: ledgerOk_def)
  ultimately show ?thesis using assms by (simp add: ledgerOk_def usedSignatures_def s)
qed

section \<open>Money\<close>

definition confirmedIn :: "payoutClaim list \<Rightarrow> payoutClaim set" where
  "confirmedIn cs = {c \<in> set cs. claimStatus c = PAY_CONFIRMED}"

lemma confirmed_share:
  assumes "distinct (map claimId cs)" "ticketBooked cs t"
  shows "(\<Sum>c \<in> confirmedIn cs. if payoutClaimId t = Some (claimId c) then x else 0)
    = (if winStatus t = PAID_OUT_ON_SOLANA then x else (0 :: int))"
proof (cases "winStatus t = PAID_OUT_ON_SOLANA")
  case True
  then obtain c where c: "payoutClaimId t = Some (claimId c)" "c \<in> confirmedIn cs"
    using assms(2) by (auto simp: ticketBooked_def confirmedIn_def list_ex_iff split: option.splits)
  have iff: "payoutClaimId t = Some (claimId d) \<longleftrightarrow> d = c" if "d \<in> confirmedIn cs" for d
  proof
    assume "payoutClaimId t = Some (claimId d)"
    then have "claimId d = claimId c" using c(1) by simp
    moreover have "d \<in> set cs" "c \<in> set cs" using that c(2) by (simp_all add: confirmedIn_def)
    ultimately show "d = c" using distinct_map_eq [OF assms(1)] by metis
  qed (use c(1) in simp)
  have "(\<Sum>d \<in> confirmedIn cs. if payoutClaimId t = Some (claimId d) then x else 0)
      = (\<Sum>d \<in> confirmedIn cs. if d = c then x else 0)"
    by (rule sum.cong [OF refl]) (simp only: iff)
  also have "\<dots> = x" using c(2) by (simp add: confirmedIn_def)
  finally show ?thesis using True by simp
next
  case False
  have ne: "payoutClaimId t \<noteq> Some (claimId d)" if "d \<in> confirmedIn cs" for d
  proof
    assume d: "payoutClaimId t = Some (claimId d)"
    then obtain c where "c \<in> set cs" "claimId c = claimId d" "claimStatus c = PENDING"
      using assms(2) False by (auto simp: ticketBooked_def list_ex_iff)
    then show False using distinct_map_eq [OF assms(1), of c d] that by (auto simp: confirmedIn_def)
  qed
  have "(\<Sum>d \<in> confirmedIn cs. if payoutClaimId t = Some (claimId d) then x else 0) = 0"
    by (rule sum.neutral) (simp add: ne)
  then show ?thesis using False by simp
qed

lemma paid_is_bound:
  assumes "distinct (map claimId cs)" "list_all (ticketBooked cs) ts"
  shows "sumMany winAmount (filter (\<lambda>t. winStatus t = PAID_OUT_ON_SOLANA) ts)
    = (\<Sum>c \<in> confirmedIn cs. boundSum (claimId c) ts)"
  using assms(2)
proof (induction ts)
  case Nil
  then show ?case by (simp add: boundSum_def)
next
  case (Cons t ts)
  have b: "boundSum (claimId c) (t # ts)
      = (if payoutClaimId t = Some (claimId c) then winAmount t else 0) + boundSum (claimId c) ts" for c
    by (simp add: boundSum_def)
  then show ?case using Cons confirmed_share [OF assms(1), of t "winAmount t"]
    by (simp add: b sum.distrib)
qed

definition paidOut :: "world \<Rightarrow> int" where
  "paidOut w = sumMany winAmount (filter (\<lambda>t. winStatus t = PAID_OUT_ON_SOLANA) (tickets w))"

definition confirmedTotal :: "world \<Rightarrow> int" where
  "confirmedTotal w = sumMany claimAmount (filter (\<lambda>c. claimStatus c = PAY_CONFIRMED) (payoutClaims w))"

lemma ledger_total: "ledgerOk w \<Longrightarrow> paidOut w = confirmedTotal w"
proof -
  assume led: "ledgerOk w"
  then have d: "distinct (map claimId (payoutClaims w))" by (simp add: ledgerOk_def)
  have "claimAmount c = boundSum (claimId c) (tickets w)" if "c \<in> confirmedIn (payoutClaims w)" for c
    using led that by (auto simp: ledgerOk_def list_all_iff claimBooked_def confirmedIn_def)
  moreover have "distinct (filter (\<lambda>c. claimStatus c = PAY_CONFIRMED) (payoutClaims w))"
    using d by (simp add: distinct_map)
  then have "confirmedTotal w = (\<Sum>c \<in> confirmedIn (payoutClaims w). claimAmount c)"
    by (simp add: confirmedTotal_def sumMany_def sum_list_distinct_conv_sum_set confirmedIn_def)
  ultimately show ?thesis
    using paid_is_bound [OF d, of "tickets w"] led by (simp add: paidOut_def ledgerOk_def)
qed

text \<open>
  Any interleaving of whole voucher requests, confirmer ticks and harvest finalisations. A request
  gets an unused row id; the program on Solana rejects a claim of amount zero.
\<close>

inductive payReach :: "world \<Rightarrow> world \<Rightarrow> bool" for w0 where
  start: "payReach w0 w0"
| request: "payReach w0 w \<Longrightarrow> freshClaimId env w \<Longrightarrow> payReach w0 (snd (voucherRoute env raw w))"
| tick: "payReach w0 w \<Longrightarrow>
    (\<And>nb landed sweptAll. pSweep penv nb = Inr (landed, sweptAll) \<Longrightarrow> \<forall>lc \<in> set landed. 0 < lcAmount lc) \<Longrightarrow>
    payReach w0 (snd (runPayoutConfirmerTick penv w))"
| harvested: "payReach w0 w \<Longrightarrow> payReach w0 (finalizeBatchSuccess now b txHash w)"

text \<open>
  C20: from a consistent ledger, every interleaving of whole voucher requests, confirmer ticks and
  harvest finalisations keeps it: a ticket is paid exactly when the voucher it is bound to is
  confirmed, no signature confirms two vouchers, and the total of the tickets marked paid is the
  total of the confirmed vouchers.
\<close>
theorem payout_ledger:
  assumes "payReach w0 w" and "ledgerOk w0"
  shows "ledgerOk w \<and> distinct (usedSignatures w) \<and> paidOut w = confirmedTotal w"
proof -
  from assms have "ledgerOk w"
  proof (induction rule: payReach.induct)
    case start
    then show ?case .
  next
    case request
    then show ?case by (intro voucher_ledger)
  next
    case (tick w penv)
    show ?case by (rule tick_ledger [OF tick.IH [OF tick.prems]]) (rule tick.hyps(2))
  next
    case harvested
    then show ?case by (intro finalize_ledger)
  qed
  then show ?thesis using ledger_total by (simp add: ledgerOk_def)
qed

section \<open>Verdicts\<close>

text \<open>What must have been seen for the row \<open>c\<close> to become \<open>c'\<close>.\<close>

definition couldBe :: "payoutClaim \<Rightarrow> landedClaim \<Rightarrow> bool" where
  "couldBe c lc \<longleftrightarrow> lcWallet lc = claimWallet c \<and> lcAmount lc = claimAmount c \<and> isAfterIssuance c lc"

text \<open>The transactions that are spoken for when the voucher \<open>c\<close> is looked at, by earlier rows or by
  another voucher of the same tick.\<close>

definition takenBy :: "landedClaim list \<Rightarrow> string list \<Rightarrow> payoutClaim list \<Rightarrow> string \<Rightarrow> bool" where
  "takenBy landed old ds sig \<longleftrightarrow>
     sig \<in> set old \<or> (\<exists>d \<in> set ds. \<exists>lc \<in> set landed. lcSignature lc = sig \<and> couldBe d lc)"

definition otherThan :: "payoutClaim \<Rightarrow> payoutClaim list \<Rightarrow> payoutClaim list" where
  "otherThan c ds = filter (\<lambda>d. claimId d \<noteq> claimId c) ds"

definition dead ::
  "int \<Rightarrow> landedClaim list \<Rightarrow> bool \<Rightarrow> int \<Rightarrow> string list \<Rightarrow> payoutClaim list \<Rightarrow> payoutClaim \<Rightarrow> bool" where
  "dead now landed sweptAll height old ds c \<longleftrightarrow>
     (case lastValidBlockHeight c of None \<Rightarrow> now - claimCreatedAt c > UNSIGNED_GRACE_MS
      | Some lvbh \<Rightarrow> sweptAll \<and> height > lvbh + EXPIRY_BUFFER_BLOCKS)
     \<and> (\<forall>lc \<in> set landed. couldBe c lc \<longrightarrow> takenBy landed old (otherThan c ds) (lcSignature lc))"

definition justified ::
  "int \<Rightarrow> landedClaim list \<Rightarrow> bool \<Rightarrow> int \<Rightarrow> string list \<Rightarrow> payoutClaim list \<Rightarrow> payoutClaim \<Rightarrow> payoutClaim \<Rightarrow> bool" where
  "justified now landed sweptAll height old ds c c' \<longleftrightarrow>
     (\<exists>lc \<in> set landed. couldBe c lc \<and> \<not> lcFailed lc \<and> c' = markConfirmed now (lcSignature lc) c)
     \<or> (\<exists>lc \<in> set landed. couldBe c lc \<and> lcFailed lc \<and> (\<exists>reason. c' = markReleased PAY_FAILED reason c))
     \<or> dead now landed sweptAll height old ds c \<and> (\<exists>reason. c' = markReleased EXPIRED reason c)"

lemma verdict_row:
  assumes "distinct (map claimId (payoutClaims w))" "c \<in> set (payoutClaims w)"
    and "c' \<in> set (updateMany (\<lambda>x. claimId x = claimId c) f (payoutClaims w))"
  shows "c' \<in> set (payoutClaims w) \<or> c' = f c"
proof -
  obtain as bs where "payoutClaims w = as @ c # bs"
    "updateMany (\<lambda>x. claimId x = claimId c) f (payoutClaims w) = as @ f c # bs"
    using update_split [OF assms(1,2)] by metis
  then show ?thesis using assms(3) by auto
qed

lemma resolveOne_verdict:
  assumes "distinct (map claimId (payoutClaims w))" "c \<in> set (payoutClaims w)"
    and used: "\<forall>s \<in> set used. takenBy landed old (otherThan c ds) s"
    and r: "resolveOne now landed sweptAll height c (used, w) = (used', w')"
  shows "c' \<in> set (payoutClaims w') \<Longrightarrow>
      c' \<in> set (payoutClaims w) \<or> justified now landed sweptAll height old ds c c'"
    and "s \<in> set used' \<Longrightarrow> s \<in> set used \<or> takenBy landed old [c] s"
proof -
  have "(\<forall>c' \<in> set (payoutClaims w'). c' \<in> set (payoutClaims w) \<or> justified now landed sweptAll height old ds c c')
    \<and> (\<forall>s \<in> set used'. s \<in> set used \<or> takenBy landed old [c] s)"
  proof (cases rule: resolveOne_cases [of used landed c now sweptAll height w])
    case (confirmed lc)
    have lc: "couldBe c lc" "lc \<in> set landed"
      using findHit_Some [OF confirmed(1)] by (simp_all add: couldBe_def)
    have j: "justified now landed sweptAll height old ds c (markConfirmed now (lcSignature lc) c)"
      using lc confirmed(2) unfolding justified_def by blast
    show ?thesis
      using lc j confirmed r verdict_row [OF assms(1,2), of _ "markConfirmed now (lcSignature lc)"]
      by (auto simp: confirmClaim_def takenBy_def split: if_splits)
  next
    case (failed lc reason)
    have lc: "couldBe c lc" "lc \<in> set landed"
      using findHit_Some [OF failed(1)] by (simp_all add: couldBe_def)
    have j: "justified now landed sweptAll height old ds c (markReleased PAY_FAILED reason c)"
      using lc failed(2) unfolding justified_def by blast
    show ?thesis
      using lc j failed r verdict_row [OF assms(1,2), of _ "markReleased PAY_FAILED reason"]
      by (auto simp: releaseClaim_def takenBy_def split: if_splits)
  next
    case (expired reason)
    have "dead now landed sweptAll height old ds c"
      using expired(2) used findHit_None [OF expired(1)] unfolding dead_def couldBe_def by blast
    then have "justified now landed sweptAll height old ds c (markReleased EXPIRED reason c)"
      unfolding justified_def by blast
    then show ?thesis
      using expired r verdict_row [OF assms(1,2), of _ "markReleased EXPIRED reason"]
      by (auto simp: releaseClaim_def split: if_splits)
  next
    case waiting
    then show ?thesis using r by auto
  qed
  then show "c' \<in> set (payoutClaims w') \<Longrightarrow>
      c' \<in> set (payoutClaims w) \<or> justified now landed sweptAll height old ds c c'"
    and "s \<in> set used' \<Longrightarrow> s \<in> set used \<or> takenBy landed old [c] s" by blast+
qed

lemma takenBy_mono: "takenBy landed old ds s \<Longrightarrow> set ds \<subseteq> set es \<Longrightarrow> takenBy landed old es s"
  unfolding takenBy_def by blast

lemma resolve_all_verdicts:
  assumes "distinct (map claimId (payoutClaims w))" "distinct (map claimId (earlier @ cs))"
    and "\<forall>c \<in> set cs. c \<in> set (payoutClaims w)" and "ds = earlier @ cs"
    and "\<forall>s \<in> set used. takenBy landed old earlier s"
    and "c' \<in> set (payoutClaims (snd (fold (resolveOne now landed sweptAll height) cs (used, w))))"
  shows "c' \<in> set (payoutClaims w) \<or> (\<exists>c \<in> set cs. justified now landed sweptAll height old ds c c')"
  using assms
proof (induction cs arbitrary: used w earlier)
  case (Cons c cs)
  obtain used1 w1 where r: "resolveOne now landed sweptAll height c (used, w) = (used1, w1)" by fastforce
  have "set earlier \<subseteq> set (otherThan c ds)"
    using Cons.prems(2,4) by (auto simp: otherThan_def image_iff)
  then have used: "\<forall>s \<in> set used. takenBy landed old (otherThan c ds) s"
    using Cons.prems(5) takenBy_mono by metis
  note step = resolveOne_verdict [OF Cons.prems(1) _ used r]
  have "distinct (map claimId (payoutClaims w1))"
    using resolveOne_ids [of now landed sweptAll height c used w] Cons.prems(1) r by simp
  moreover have "\<forall>x \<in> set cs. x \<in> set (payoutClaims w1)"
    using Cons.prems(2,3) resolveOne_others [of _ w c now landed sweptAll height used] r
    by (auto simp: image_iff)
  moreover have "\<forall>s \<in> set used1. takenBy landed old (earlier @ [c]) s"
    using step(2) Cons.prems(3,5) takenBy_mono [of landed old "[c]" _ "earlier @ [c]"]
      takenBy_mono [of landed old earlier _ "earlier @ [c]"] by force
  ultimately have "c' \<in> set (payoutClaims w1) \<or> (\<exists>c \<in> set cs. justified now landed sweptAll height old ds c c')"
    using Cons.IH [of w1 "earlier @ [c]" used1] Cons.prems(2,4,6) r by simp
  then show ?case using step(1) Cons.prems(3) by auto
qed simp

text \<open>
  C21: a tick retires a voucher only for cause. A row that differs after the tick was pending, the
  sweep and the block height were read, and either a landed claim of its wallet, for its exact
  amount and not older than it confirms it (or, reverted, fails it), or it is dead: never handed out
  and two minutes old, or the sweep was complete and the chain 150 blocks past its last valid height,
  and every such landed claim belongs to a row confirmed before or could be another pending voucher's.
  So a failed sweep changes no voucher, and an incomplete one expires none that was handed out.
\<close>
theorem payout_verdicts:
  assumes "distinct (map claimId (payoutClaims w))"
    and "c' \<in> set (payoutClaims (snd (runPayoutConfirmerTick env w)))" and "c' \<notin> set (payoutClaims w)"
  shows "\<exists>nb landed sweptAll height c. pSweep env nb = Inr (landed, sweptAll) \<and> pHeight env = Inr height
    \<and> c \<in> set (payoutClaims w) \<and> claimStatus c = PENDING
    \<and> justified (pNow env) landed sweptAll height (usedSignatures w) (pendingClaims w) c c'"
proof -
  obtain oldest others where p: "pendingClaims w = oldest # others"
    using assms(2,3) by (cases "pendingClaims w") (auto simp: runPayoutConfirmerTick_def)
  obtain landed sweptAll where s: "pSweep env (notBeforeUnixTime oldest) = Inr (landed, sweptAll)"
    using assms(2,3) p by (auto simp: runPayoutConfirmerTick_def split: sum.splits)
  obtain height where h: "pHeight env = Inr height"
    using assms(2,3) p s by (auto simp: runPayoutConfirmerTick_def split: sum.splits)
  have "c' \<in> set (payoutClaims (snd (fold (resolveOne (pNow env) landed sweptAll height) (pendingClaims w)
      (usedSignatures w, w))))"
    using assms(2) by (simp add: runPayoutConfirmerTick_def p s h)
  moreover have "\<forall>x \<in> set (usedSignatures w). takenBy landed (usedSignatures w) [] x"
    by (simp add: takenBy_def)
  ultimately obtain c where "c \<in> set (pendingClaims w)"
    "justified (pNow env) landed sweptAll height (usedSignatures w) (pendingClaims w) c c'"
    using resolve_all_verdicts [OF assms(1), of "[]" "pendingClaims w" "pendingClaims w" "usedSignatures w"
        landed "usedSignatures w" c' "pNow env" sweptAll height] pendingClaims_distinct [OF assms(1)] assms(3)
    by (auto simp: pendingClaims_set)
  then show ?thesis using s h by (auto simp: pendingClaims_set)
qed

section \<open>Concrete ticks\<close>

definition landedAt :: "string \<Rightarrow> bool \<Rightarrow> landedClaim" where
  "landedAt sig bad = \<lparr> lcWallet = ''b'', lcAmount = 55, lcSignature = sig, lcSlot = 30,
     lcTime = Some 900, lcFailed = bad \<rparr>"

definition payEnv :: "int \<Rightarrow> (int \<Rightarrow> (string, landedClaim list \<times> bool) result) \<Rightarrow> int \<Rightarrow> payoutEnv" where
  "payEnv now sweep height = \<lparr> pNow = now, pSweep = sweep, pHeight = Inr height \<rparr>"

definition paidEnv :: payoutEnv where
  "paidEnv = payEnv 960000 (\<lambda>_. Inr ([landedAt ''s3'' False], True)) 600"

definition issuedWorld :: world where
  "issuedWorld = snd (voucherRoute deskEnv (JStr ''b'') deskWorld)"

lemma issued_reach: "payReach deskWorld issuedWorld"
  unfolding issuedWorld_def by (intro payReach.intros desk_fresh)

lemma paid_sample: "paidOut (snd (runPayoutConfirmerTick paidEnv issuedWorld)) = 55"
  by code_simp

theorem payout_ledger_witness:
  "confirmedTotal (snd (runPayoutConfirmerTick paidEnv issuedWorld)) = 55"
proof -
  have r: "payReach deskWorld (snd (runPayoutConfirmerTick paidEnv issuedWorld))"
    by (rule payReach.tick [OF issued_reach]) (auto simp: paidEnv_def payEnv_def landedAt_def)
  have "ledgerOk deskWorld" by code_simp
  then show ?thesis using payout_ledger [OF r] paid_sample by simp
qed

definition paidRow :: payoutClaim where
  "paidRow = hd (payoutClaims (snd (runPayoutConfirmerTick paidEnv issuedWorld)))"

theorem payout_verdicts_witness:
  "\<exists>nb landed sweptAll height c. pSweep paidEnv nb = Inr (landed, sweptAll) \<and> pHeight paidEnv = Inr height
    \<and> c \<in> set (payoutClaims issuedWorld) \<and> claimStatus c = PENDING
    \<and> justified (pNow paidEnv) landed sweptAll height (usedSignatures issuedWorld) (pendingClaims issuedWorld) c paidRow"
proof (rule payout_verdicts)
  show "distinct (map claimId (payoutClaims issuedWorld))" by code_simp
  show "paidRow \<in> set (payoutClaims (snd (runPayoutConfirmerTick paidEnv issuedWorld)))" by code_simp
  show "paidRow \<notin> set (payoutClaims issuedWorld)" by code_simp
qed

section \<open>Where a voucher is given up although it can be paid\<close>

text \<open>The claim's transaction landed; the node lists it but answers null when asked for it.\<close>

definition paidHistory :: "sigInfo list" where
  "paidHistory = [\<lparr> sigName = ''s3'', sigSlot = 30, sigTime = Some 900, sigErr = False \<rparr>]"

definition sweepOf :: "(string \<Rightarrow> string list option option) \<Rightarrow> int \<Rightarrow> (string, landedClaim list \<times> bool) result" where
  "sweepOf txs nb = fst (findLandedClaims (nodeOf paidHistory txs) nb [])"

text \<open>
  A transaction the node lists but cannot return yet counts as one without a claim in it, and
  the sweep still reports itself complete. So the tick expires the voucher and frees the tickets
  although its payment landed: with the transaction returned the same tick confirms it.
\<close>
theorem null_transaction_expires_paid_voucher:
  "map claimStatus (payoutClaims (snd (runPayoutConfirmerTick
      (payEnv 960000 (sweepOf (\<lambda>_. None)) 851) issuedWorld))) = [EXPIRED]
   \<and> map payoutClaimId (tickets (snd (runPayoutConfirmerTick
      (payEnv 960000 (sweepOf (\<lambda>_. None)) 851) issuedWorld))) = [None]
   \<and> map claimStatus (payoutClaims (snd (runPayoutConfirmerTick
      (payEnv 960000 (sweepOf (\<lambda>_. Some (Some [''b'']))) 851) issuedWorld))) = [PAY_CONFIRMED]"
  by (intro conjI; code_simp)

text \<open>
  A request that is slow between binding and stamping: the confirmer runs in between, and a second
  request follows.
\<close>

definition boundWorld :: world where
  "boundWorld = snd (snd (voucherBind deskEnv ''b'' deskWorld))"

definition graceOver :: world where
  "graceOver = snd (runPayoutConfirmerTick (payEnv 1020001 (\<lambda>_. Inr ([], True)) 600) boundWorld)"

definition slowFinish :: "voucherResponse \<times> world" where
  "slowFinish = voucherFinish deskEnv ''b'' ''c'' 55 graceOver"

text \<open>
  A request that takes more than the two-minute grace between binding its tickets and stamping
  the voucher still hands the voucher out, although the confirmer has expired the row and freed the
  tickets; the next request hands out a second signed voucher for the same ticket.
\<close>
theorem slow_request_double_voucher:
  "fst slowFinish = Res201 ''c'' 55 ''tx'' 700
   \<and> map claimStatus (payoutClaims (snd slowFinish)) = [EXPIRED]
   \<and> fst (voucherRoute deskEnv (JStr ''b'') (snd slowFinish)) = Res201 ''cc'' 55 ''tx'' 700"
  by (intro conjI; code_simp)

section \<open>The tick keeps the ticket contract\<close>

lemma markPaid_grow:
  "ticketsGrow ts (updateMany (\<lambda>t. payoutClaimId t = Some cid \<and> winStatus t = CLAIMED_ON_BASE) markPaid ts)"
  by (rule ticketsGrow_updateMany) (auto simp: ticketStep_def markPaid_def winStatus_order)

lemma resolveOne_grow:
  "ticketsGrow (tickets w) (tickets (snd (resolveOne now landed sweptAll height c (used, w))))"
  by (cases rule: resolveOne_cases [of used landed c now sweptAll height w])
     (simp_all add: confirmClaim_def releaseClaim_def unbind_grow markPaid_grow)

lemma resolve_all_grow:
  "ticketsGrow (tickets w) (tickets (snd (fold (resolveOne now landed sweptAll height) cs (used, w))))"
proof (induction cs arbitrary: used w)
  case (Cons c cs)
  obtain u w1 where r: "resolveOne now landed sweptAll height c (used, w) = (u, w1)" by fastforce
  then have "ticketsGrow (tickets w) (tickets w1)"
    using resolveOne_grow [of w now landed sweptAll height c used] by simp
  then show ?case using ticketsGrow_trans [OF _ Cons.IH] r by simp
qed simp

interpretation payouts: ticket_op "\<lambda>env w. snd (runPayoutConfirmerTick env w)"
  by unfold_locales (auto simp: runPayoutConfirmerTick_def resolve_all_grow [where cs = "x # xs" for x xs, simplified]
    split: list.split sum.split prod.split)

end
