(* ===== verification/Transition.thy ===== *)
theory Transition
  imports Megapot TicketLife
begin

text \<open>
  The epoch transition of \<open>services/megapotService.ts\<close>: pause on Solana, wait for Megapot to roll
  over, resume. The Solana service and Megapot's API are fields of \<open>transEnv\<close>, indexed by the poll of
  the waiting loop that asks them; the commands the chain accepted are recorded in order.
\<close>

datatype chainCmd = Paused | Resumed int int bool int

record transEnv =
  tPid :: string
  tNow :: int
  tNowEnd :: int
  tPause :: "(string, string) result"
  tChainAfterPause :: "(string, onChainState) result"
  tActiveStart :: "(string, megapotRound) result"
  tActive :: "nat \<Rightarrow> (string, megapotRound) result"
  tActiveEnd :: "(string, megapotRound) result"
  tRoundById :: "nat \<Rightarrow> int \<Rightarrow> (string, megapotRound) result"
  tOnChain :: "nat \<Rightarrow> (string, onChainState) result"
  tResume :: "nat \<Rightarrow> int \<Rightarrow> int \<Rightarrow> bool \<Rightarrow> int \<Rightarrow> (string, string) result"
  tPayouts :: "int \<Rightarrow> (string, int list) result"

definition TRANSITION_RETRY_MS :: int where "TRANSITION_RETRY_MS = 30000"

section \<open>The cached round\<close>

definition cacheUsable :: "roundState \<Rightarrow> bool" where
  "cacheUsable r = (rsId r \<noteq> None \<and> rsId r \<noteq> Some 0)"

definition usableCache :: "world \<Rightarrow> roundState option" where
  "usableCache w = (case roundCache w of None \<Rightarrow> None | Some r \<Rightarrow> if cacheUsable r then Some r else None)"

definition ensureActiveRoundCached ::
  "(string, megapotRound) result \<Rightarrow> (int \<Rightarrow> (string, int list) result) \<Rightarrow> world \<Rightarrow>
   (string, roundState) result \<times> world" where
  "ensureActiveRoundCached fetchActive payouts w =
     (case usableCache w of Some r \<Rightarrow> (Inr r, w)
      | None \<Rightarrow>
        (case fetchActive of Inl e \<Rightarrow> (Inl e, w)
         | Inr raw \<Rightarrow> (case processActiveRound payouts raw w of
              (Some e, w') \<Rightarrow> (Inl e, w')
            | (None, w') \<Rightarrow> (case usableCache w' of
                 Some r \<Rightarrow> (Inr r, w')
               | None \<Rightarrow> (Inl ''Failed to cache active Megapot round after fetch'', w')))))"

text \<open>
  What \<open>setupNextFetchCron\<close> finds to do: arm a timer, or, when the deadline has passed, run the transition
  at once and wait for it. The transition is an argument, since inside a transition it is the call that
  finds one in flight and returns. The results are the plan, the retry timer the transition armed,
  the state and the commands sent; \<open>None\<close>: the transition is still waiting.
\<close>

datatype cronPlan = NoTimer | TransitionNow | TransitionIn int

definition nextFetch :: "transEnv \<Rightarrow> world \<Rightarrow> cronPlan \<times> world" where
  "nextFetch env w =
     (case ensureActiveRoundCached (tActiveEnd env) (tPayouts env) w of
        (Inl e, w') \<Rightarrow> (NoTimer, w')
      | (Inr r, w') \<Rightarrow>
          (let diffMs = rsEndedAt r - tNowEnd env - PRE_EMPTIVE_BUFFER_MS
           in (if diffMs \<le> 0 then TransitionNow else TransitionIn diffMs, w')))"

definition setupNextFetchCron ::
  "(world \<Rightarrow> (int option \<times> world \<times> chainCmd list) option) \<Rightarrow> transEnv \<Rightarrow> world \<Rightarrow>
   (cronPlan \<times> int option \<times> world \<times> chainCmd list) option" where
  "setupNextFetchCron safe env w =
     (case nextFetch env w of
        (TransitionNow, w') \<Rightarrow> map_option (\<lambda>(retry, w'', cs). (TransitionNow, retry, w'', cs)) (safe w')
      | (plan, w') \<Rightarrow> Some (plan, None, w', []))"

definition busyTransition :: "world \<Rightarrow> (int option \<times> world \<times> chainCmd list) option" where
  "busyTransition w = Some (None, w, [])"

lemma setupCron_busy [simp]:
  "setupNextFetchCron busyTransition env w = (case nextFetch env w of (plan, w') \<Rightarrow> Some (plan, None, w', []))"
  by (simp add: setupNextFetchCron_def busyTransition_def split: prod.split cronPlan.split)

section \<open>Pausing\<close>

datatype pauseEnd = PauseDone | PauseAborted | PauseThrew string

definition pauseStep :: "transEnv \<Rightarrow> world \<Rightarrow> pauseEnd \<times> world \<times> chainCmd list" where
  "pauseStep env w =
     (case tPause env of
        Inr sig \<Rightarrow> (PauseDone, setPaused True w, [Paused])
      | Inl _ \<Rightarrow> (case tChainAfterPause env of
            Inl e \<Rightarrow> (PauseThrew e, w, [])
          | Inr s \<Rightarrow> (if isLordsPotPaused s then (PauseDone, setPaused True w, []) else (PauseAborted, w, []))))"

section \<open>Waiting for the rollover\<close>

definition newerThan :: "int option \<Rightarrow> int option \<Rightarrow> bool" where
  "newerThan a b = (case (a, b) of (Some x, Some y) \<Rightarrow> x > y | _ \<Rightarrow> False)"

definition saveConcluded :: "transEnv \<Rightarrow> nat \<Rightarrow> int \<Rightarrow> world \<Rightarrow> world" where
  "saveConcluded env k i w =
     (case tRoundById env k i of Inl _ \<Rightarrow> w
      | Inr d \<Rightarrow> (case upsertSettledEpoch d w of
           (Some e, w') \<Rightarrow> w'
         | (None, w') \<Rightarrow> w'\<lparr>published := published w' @ [EpochSettled i]\<rparr>))"

definition limitsDiffer :: "ballPool \<Rightarrow> onChainState \<Rightarrow> bool" where
  "limitsDiffer bp s = (bonusball_max bp \<noteq> Some (chainBonusMax s) \<or> normals_max bp \<noteq> Some (chainNormalMax s))"

text \<open>Sending the resume; Anchor cannot encode an undefined limit.\<close>

definition sendResume ::
  "(int \<Rightarrow> int \<Rightarrow> bool \<Rightarrow> int \<Rightarrow> (string, string) result) \<Rightarrow> ballPool \<Rightarrow> bool \<Rightarrow> int \<Rightarrow> (string, chainCmd) result" where
  "sendResume resume bp upd next =
     (case (normals_max bp, bonusball_max bp) of
        (Some n, Some b) \<Rightarrow> (case resume n b upd next of Inl e \<Rightarrow> Inl e | Inr _ \<Rightarrow> Inr (Resumed n b upd next))
      | _ \<Rightarrow> Inl ''TypeError'')"

definition activate :: "transEnv \<Rightarrow> megapotRound \<Rightarrow> world \<Rightarrow> bool \<times> world" where
  "activate env raw w =
     (case processActiveRound (tPayouts env) raw w of
        (Some e, w') \<Rightarrow> (False, w')
      | (None, w') \<Rightarrow> (True, setPaused False w'))"

text \<open>
  One pass of the loop: whether it breaks, the state and the commands sent. A throw anywhere leaves
  what was written before it and the loop polls again.
\<close>

definition pollOnce :: "transEnv \<Rightarrow> nat \<Rightarrow> int option \<Rightarrow> world \<Rightarrow> bool \<times> world \<times> chainCmd list" where
  "pollOnce env k cur w =
     (case tActive env k of Inl e \<Rightarrow> (False, w, [])
      | Inr raw \<Rightarrow>
        (case bigIntOf (round_id raw) of None \<Rightarrow> (False, w, [])
         | Some next \<Rightarrow>
           (if \<not> newerThan (parseInt10 (round_id raw)) cur then (False, w, [])
            else let w1 = saveConcluded env k (the cur) w
              in case tOnChain env k of Inl e \<Rightarrow> (False, w1, [])
               | Inr s \<Rightarrow>
                 (if \<not> isLordsPotPaused s then
                    (case activate env raw w1 of (b, w2) \<Rightarrow> (b, w2, []))
                  else case ball_pool raw of None \<Rightarrow> (False, w1, [])
                    | Some bp \<Rightarrow>
                      (case sendResume (tResume env k) bp (limitsDiffer bp s) next of
                         Inl e \<Rightarrow> (False, w1, [])
                       | Inr c \<Rightarrow> (case activate env raw w1 of (b, w2) \<Rightarrow> (b, w2, [c])))))))"

fun awaitRollover ::
  "nat \<Rightarrow> transEnv \<Rightarrow> nat \<Rightarrow> int option \<Rightarrow> world \<times> chainCmd list \<Rightarrow> (world \<times> chainCmd list) option" where
  "awaitRollover 0 env k cur st = None"
| "awaitRollover (Suc n) env k cur (w, cs) =
     (case pollOnce env k cur w of (stop, w', sent) \<Rightarrow>
        (if stop then Some (w', cs @ sent) else awaitRollover n env (Suc k) cur (w', cs @ sent)))"

section \<open>The transition\<close>

datatype transEnd = Handled | Aborted | Crashed string

definition releaseLock :: "world \<Rightarrow> world" where
  "releaseLock w = w\<lparr>transitionLock := None\<rparr>"

text \<open>
  The body under the lock, with \<open>transitionInFlight\<close> set. \<open>None\<close>: still waiting after \<open>fuel\<close> polls.
\<close>

definition transitionLocked ::
  "nat \<Rightarrow> transEnv \<Rightarrow> int option \<Rightarrow> world \<Rightarrow> (transEnd \<times> world \<times> chainCmd list \<times> cronPlan) option" where
  "transitionLocked fuel env cur w =
     (case pauseStep env w of
        (PauseThrew e, w1, cs) \<Rightarrow> Some (Crashed e, releaseLock w1, cs, NoTimer)
      | (PauseAborted, w1, cs) \<Rightarrow> Some (Aborted, releaseLock w1, cs, NoTimer)
      | (PauseDone, w1, cs) \<Rightarrow>
          (case awaitRollover fuel env 0 cur (w1, cs) of None \<Rightarrow> None
           | Some (w2, cs2) \<Rightarrow>
             (case setupNextFetchCron busyTransition env w2 of None \<Rightarrow> None
              | Some (plan, retry, w3, sent) \<Rightarrow> Some (Handled, releaseLock w3, cs2 @ sent, plan))))"

definition transitionLoop ::
  "nat \<Rightarrow> transEnv \<Rightarrow> world \<Rightarrow> (transEnd \<times> world \<times> chainCmd list \<times> cronPlan) option" where
  "transitionLoop fuel env w =
     (case (case roundCache w of Some r \<Rightarrow> (Inr r, w)
            | None \<Rightarrow> ensureActiveRoundCached (tActiveStart env) (tPayouts env) w) of
        (Inl e, w0) \<Rightarrow> Some (Aborted, w0, [], NoTimer)
      | (Inr r, w0) \<Rightarrow>
        (if tNow env < rsEndedAt r - PRE_EMPTIVE_BUFFER_MS then Some (Handled, w0, [], NoTimer)
         else if transitionLock w0 \<noteq> None then Some (Handled, w0, [], NoTimer)
         else transitionLocked fuel env (rsId r) (w0\<lparr>transitionLock := Some (tPid env)\<rparr>)))"

text \<open>\<open>safeTransition\<close>: nothing when one is in flight in this process, a retry timer after a failure.\<close>

definition safeTransition ::
  "nat \<Rightarrow> bool \<Rightarrow> transEnv \<Rightarrow> world \<Rightarrow> (int option \<times> world \<times> chainCmd list) option" where
  "safeTransition fuel inFlight env w =
     (if inFlight then busyTransition w
      else case transitionLoop fuel env w of None \<Rightarrow> None
        | Some (r, w', cs, plan) \<Rightarrow>
            Some (if r = Handled then None else Some TRANSITION_RETRY_MS, w', cs))"

definition checkEpochTransition ::
  "nat \<Rightarrow> bool \<Rightarrow> transEnv \<Rightarrow> world \<Rightarrow> (int option \<times> world \<times> chainCmd list) option" where
  "checkEpochTransition fuel inFlight env w =
     (case roundCache w of None \<Rightarrow> Some (None, w, [])
      | Some r \<Rightarrow> (if tNow env \<ge> rsEndedAt r - PRE_EMPTIVE_BUFFER_MS
           then safeTransition fuel inFlight env w else Some (None, w, [])))"

section \<open>Boot\<close>

text \<open>The first of three attempts that reads both the chain and Megapot.\<close>

fun bootRead :: "nat \<Rightarrow> (nat \<Rightarrow> (string, onChainState \<times> megapotRound) result) \<Rightarrow> nat \<Rightarrow>
    (onChainState \<times> megapotRound) option" where
  "bootRead 0 reads k = None"
| "bootRead (Suc n) reads k = (case reads k of Inr p \<Rightarrow> Some p | Inl _ \<Rightarrow> bootRead n reads (Suc k))"

definition bootCatchUp :: "transEnv \<Rightarrow> onChainState \<Rightarrow> megapotRound \<Rightarrow> int \<Rightarrow> world \<Rightarrow> world \<times> chainCmd list" where
  "bootCatchUp env s raw next w =
     (case (if isLordsPotPaused s then Some (w, [])
            else case tPause env of Inl _ \<Rightarrow> None | Inr _ \<Rightarrow> Some (setPaused True w, [Paused])) of
        None \<Rightarrow> (w, [])
      | Some (w1, cs) \<Rightarrow>
        (case ball_pool raw of None \<Rightarrow> (w1, cs)
         | Some bp \<Rightarrow>
           (case sendResume (tResume env 0) bp (limitsDiffer bp s) next of
              Inl e \<Rightarrow> (w1, cs)
            | Inr c \<Rightarrow> (case activate env raw w1 of (b, w2) \<Rightarrow> (w2, cs @ [c])))))"

definition reconcileOnChainEpochAtBoot ::
  "transEnv \<Rightarrow> (nat \<Rightarrow> (string, onChainState \<times> megapotRound) result) \<Rightarrow> world \<Rightarrow> world \<times> chainCmd list" where
  "reconcileOnChainEpochAtBoot env reads w =
     (case bootRead 3 reads 0 of None \<Rightarrow> (w, [])
      | Some (s, raw) \<Rightarrow>
        (case bigIntOf (round_id raw) of None \<Rightarrow> (w, [])
         | Some next \<Rightarrow>
           (if ongoingEpoch s \<ge> next then (w, [])
            else if transitionLock w \<noteq> None then (w, [])
            else case bootCatchUp env s raw next (w\<lparr>transitionLock := Some (tPid env)\<rparr>) of
                (w', cs) \<Rightarrow> (releaseLock w', cs))))"

definition nextTryAfterSec :: "int \<Rightarrow> int" where
  "nextTryAfterSec s = min (s * 2) 300"

text \<open>
  \<open>startSync\<close>, of which no step rejects. A deadline already past runs the transition before the boot
  is over: \<open>later\<close> answers its calls, \<open>inFlight\<close> tells whether the heartbeat has one running.
  \<open>None\<close>: the backfill's pages were not enough, or the transition is still waiting.
\<close>

definition startSync ::
  "nat \<Rightarrow> bool \<Rightarrow> transEnv \<Rightarrow> (nat \<Rightarrow> (string, onChainState \<times> megapotRound) result) \<Rightarrow>
   (string option \<Rightarrow> (string, roundsPage) result) \<Rightarrow> transEnv \<Rightarrow> world \<Rightarrow>
   (cronPlan \<times> int option \<times> world \<times> chainCmd list) option" where
  "startSync fuel inFlight env reads fetchPage later w =
     (case reconcileOnChainEpochAtBoot env reads w of (w1, cs) \<Rightarrow>
        (case syncAllSettledRounds fuel (tPayouts env) fetchPage w1 of None \<Rightarrow> None
         | Some w2 \<Rightarrow>
           (case setupNextFetchCron (safeTransition fuel inFlight later) env w2 of None \<Rightarrow> None
            | Some (plan, retry, w3, sent) \<Rightarrow> Some (plan, retry, w3, cs @ sent))))"

section \<open>What the steps keep\<close>

lemma setPaused_sel [simp]:
  "pausedKey (setPaused b w) = Some b" "transitionLock (setPaused b w) = transitionLock w"
  "roundCache (setPaused b w) = roundCache w" "tickets (setPaused b w) = tickets w"
  "isProtocolPaused (setPaused b w) = b"
  by (simp_all add: setPaused_def isProtocolPaused_def split: option.split)

lemma releaseLock_sel [simp]:
  "pausedKey (releaseLock w) = pausedKey w" "transitionLock (releaseLock w) = None"
  "roundCache (releaseLock w) = roundCache w" "protocolState (releaseLock w) = protocolState w"
  "tickets (releaseLock w) = tickets w" "isProtocolPaused (releaseLock w) = isProtocolPaused w"
  by (simp_all add: releaseLock_def isProtocolPaused_def)

lemma syncProtocolState_keeps:
  "roundCache (snd (syncProtocolState payouts d b w)) = roundCache w"
  "pausedKey (snd (syncProtocolState payouts d b w)) = pausedKey w"
  "transitionLock (snd (syncProtocolState payouts d b w)) = transitionLock w"
  "tickets (snd (syncProtocolState payouts d b w)) = tickets w"
  by (auto simp: syncProtocolState_def Let_def split: sum.splits option.splits apiDate.splits)

lemma activeRound_keeps [simp]:
  "pausedKey (snd (processActiveRound payouts d w)) = pausedKey w"
  "transitionLock (snd (processActiveRound payouts d w)) = transitionLock w"
  "tickets (snd (processActiveRound payouts d w)) = tickets w"
  by (simp_all add: processActiveRound_def Let_def syncProtocolState_keeps split: sum.split)

lemma parseRoundState_id: "parseRoundState d = Inr r \<Longrightarrow> rsId r = parseInt10 (round_id d)"
  by (auto simp: parseRoundState_def split: if_splits apiDate.splits)

lemma activeRound_caches:
  assumes "processActiveRound payouts d w = (None, w')"
  obtains r where "parseRoundState d = Inr r" "roundCache w' = Some r" "rsId r = parseInt10 (round_id d)"
proof -
  obtain r where r: "parseRoundState d = Inr r"
    using assms by (auto simp: processActiveRound_def split: sum.splits)
  then have "w' = snd (syncProtocolState payouts d (pausedKey w = Some True) (w\<lparr>roundCache := Some r\<rparr>))"
    using assms by (simp add: processActiveRound_def Let_def)
  then show thesis using that [OF r _ parseRoundState_id [OF r]] syncProtocolState_keeps(1) by simp
qed

lemma upsertSettled_keeps [simp]:
  "roundCache (snd (upsertSettledEpoch d w)) = roundCache w"
  "pausedKey (snd (upsertSettledEpoch d w)) = pausedKey w"
  "transitionLock (snd (upsertSettledEpoch d w)) = transitionLock w"
  "tickets (snd (upsertSettledEpoch d w)) = tickets w"
  "protocolState (snd (upsertSettledEpoch d w)) = protocolState w"
  by (auto simp: upsertSettledEpoch_def updEpochs_def split: sum.splits option.splits)

lemma saveConcluded_keeps [simp]:
  "roundCache (saveConcluded env k i w) = roundCache w" "pausedKey (saveConcluded env k i w) = pausedKey w"
  "transitionLock (saveConcluded env k i w) = transitionLock w" "tickets (saveConcluded env k i w) = tickets w"
proof -
  have "roundCache (saveConcluded env k i w) = roundCache w \<and> pausedKey (saveConcluded env k i w) = pausedKey w
    \<and> transitionLock (saveConcluded env k i w) = transitionLock w \<and> tickets (saveConcluded env k i w) = tickets w"
  proof (cases "tRoundById env k i")
    case (Inr d)
    obtain e w1 where "upsertSettledEpoch d w = (e, w1)" by fastforce
    then show ?thesis using Inr upsertSettled_keeps(1-4) [of d w]
      by (cases e) (simp_all add: saveConcluded_def)
  qed (simp add: saveConcluded_def)
  then show "roundCache (saveConcluded env k i w) = roundCache w" "pausedKey (saveConcluded env k i w) = pausedKey w"
    "transitionLock (saveConcluded env k i w) = transitionLock w" "tickets (saveConcluded env k i w) = tickets w"
    by simp_all
qed

lemma activate_keeps:
  "activate env raw w = (b, w') \<Longrightarrow> transitionLock w' = transitionLock w \<and> tickets w' = tickets w
     \<and> (if b then pausedKey w' = Some False \<and> \<not> isProtocolPaused w'
             \<and> (\<exists>r. roundCache w' = Some r \<and> rsId r = parseInt10 (round_id raw))
        else pausedKey w' = pausedKey w)"
proof (cases "processActiveRound (tPayouts env) raw w")
  case (Pair e w1)
  then have k: "transitionLock w1 = transitionLock w" "tickets w1 = tickets w" "pausedKey w1 = pausedKey w"
    using activeRound_keeps [of "tPayouts env" raw w] by simp_all
  assume a: "activate env raw w = (b, w')"
  show ?thesis
  proof (cases e)
    case None
    with Pair obtain r where "roundCache w1 = Some r" "rsId r = parseInt10 (round_id raw)"
      using activeRound_caches by metis
    then show ?thesis using a Pair None k by (auto simp: activate_def)
  next
    case (Some x)
    then show ?thesis using a Pair k by (auto simp: activate_def)
  qed
qed

text \<open>A settled round that can be stored, and what storing it leaves.\<close>

definition storable :: "megapotRound \<Rightarrow> int \<Rightarrow> bool" where
  "storable d i \<longleftrightarrow> round_status d = ''settled'' \<and> prize_tiers d \<noteq> None \<and> ticket_count d \<noteq> None
     \<and> parseInt10 (round_id d) = Some i \<and> (\<exists>f. epochPayload d = Inr f)"

definition roundStored :: "megapotRound \<Rightarrow> int \<Rightarrow> world \<Rightarrow> bool" where
  "roundStored d i w \<longleftrightarrow> (\<exists>e \<in> set (epochs w). megapotId e = i
     \<and> (\<exists>wn. winning_numbers d = Some wn \<and> winningNormals e = wnNormals wn \<and> winningBonusBall e = wnBonusball wn))"

lemma payload_writes:
  assumes "epochPayload d = Inr f"
  shows "megapotId (f e) = megapotId e" "top_prize_amount d \<noteq> None"
    "\<exists>wn. winning_numbers d = Some wn \<and> winningNormals (f e) = wnNormals wn \<and> winningBonusBall (f e) = wnBonusball wn"
  using assms by (auto simp: epochPayload_def split: option.splits sum.splits prod.splits)

lemma upsert_stores:
  assumes "storable d i"
  shows "\<exists>v. upsertSettledEpoch d w = (None, v) \<and> roundStored d i v"
proof -
  obtain f where f: "round_status d = ''settled''" "prize_tiers d \<noteq> None" "ticket_count d \<noteq> None"
    "parseInt10 (round_id d) = Some i" "epochPayload d = Inr f" using assms by (auto simp: storable_def)
  note p = payload_writes [OF f(5)]
  obtain wn ta ts where wn: "winning_numbers d = Some wn" "top_prize_amount d = Some ta" "prize_tiers d = Some ts"
    using p(2) p(3) [of "blankEpoch i"] f(2) by blast
  show ?thesis
  proof (cases "\<exists>e \<in> set (epochs w). megapotId e = i")
    case True
    then obtain e where e: "e \<in> set (epochs w)" "megapotId e = i" by blast
    have "f e \<in> set (epochs (updEpochs (\<lambda>e. megapotId e = i) f w))"
      using e by (auto simp: updEpochs_def updateMany_def image_iff)
    then have "roundStored d i (updEpochs (\<lambda>e. megapotId e = i) f w)"
      unfolding roundStored_def using p e(2) by metis
    then show ?thesis using f p True wn by (simp add: upsertSettledEpoch_def)
  next
    case False
    have "roundStored d i (w\<lparr>epochs := epochs w @ [f (blankEpoch i)]\<rparr>)"
      unfolding roundStored_def using p by (auto simp: blankEpoch_def)
    then show ?thesis using f p False wn by (simp add: upsertSettledEpoch_def)
  qed
qed

lemma syncProtocolState_epochs: "epochs (snd (syncProtocolState payouts d b w)) = epochs w"
  by (auto simp: syncProtocolState_def Let_def split: sum.splits option.splits apiDate.splits)

lemma processActive_epochs [simp]: "epochs (snd (processActiveRound payouts raw w)) = epochs w"
  by (simp add: processActiveRound_def Let_def syncProtocolState_epochs split: sum.split)

lemma processActive_epochs': "processActiveRound payouts raw w = (e, w') \<Longrightarrow> epochs w' = epochs w"
  using processActive_epochs [of payouts raw w] by simp

lemma ensureActive_epochs: "ensureActiveRoundCached fetch payouts w = (r, w') \<Longrightarrow> epochs w' = epochs w"
  by (auto simp: ensureActiveRoundCached_def dest: processActive_epochs'
      split: option.splits sum.splits prod.splits)

lemma nextFetch_epochs: "nextFetch env w = (plan, w') \<Longrightarrow> epochs w' = epochs w"
  by (auto simp: nextFetch_def Let_def dest: ensureActive_epochs split: prod.splits sum.splits)

lemma activate_epochs: "activate env raw w = (b, w') \<Longrightarrow> epochs w' = epochs w"
  by (auto simp: activate_def setPaused_def dest: processActive_epochs' split: prod.splits option.splits)

text \<open>What one poll can do.\<close>

definition rolledOver :: "transEnv \<Rightarrow> nat \<Rightarrow> int option \<Rightarrow> chainCmd \<Rightarrow> bool" where
  "rolledOver env k cur c \<longleftrightarrow>
     (\<exists>raw s bp n b e. tActive env k = Inr raw \<and> bigIntOf (round_id raw) = Some e
        \<and> newerThan (parseInt10 (round_id raw)) cur \<and> tOnChain env k = Inr s \<and> isLordsPotPaused s
        \<and> ball_pool raw = Some bp \<and> normals_max bp = Some n \<and> bonusball_max bp = Some b
        \<and> c = Resumed n b (limitsDiffer bp s) e)"

definition resumeSent :: "transEnv \<Rightarrow> nat \<Rightarrow> int option \<Rightarrow> chainCmd \<Rightarrow> bool" where
  "resumeSent env k cur c \<longleftrightarrow> rolledOver env k cur c
     \<and> (\<exists>n b u e sig. c = Resumed n b u e \<and> tResume env k n b u e = Inr sig)"

text \<open>
  The poll the wait ends with: Megapot reports a newer round, and the chain is either unpaused already
  or has accepted the resume; the round is cached, and the one it concluded stored where Megapot
  answered with it.
\<close>

definition endingPoll :: "transEnv \<Rightarrow> nat \<Rightarrow> int option \<Rightarrow> chainCmd list \<Rightarrow> world \<Rightarrow> bool" where
  "endingPoll env k cur sent w \<longleftrightarrow>
     (\<exists>raw s r. tActive env k = Inr raw \<and> newerThan (parseInt10 (round_id raw)) cur
        \<and> roundCache w = Some r \<and> rsId r = parseInt10 (round_id raw) \<and> tOnChain env k = Inr s
        \<and> (if isLordsPotPaused s then \<exists>c. sent = [c] \<and> resumeSent env k cur c else sent = []))
     \<and> (\<forall>i d. cur = Some i \<and> tRoundById env k i = Inr d \<and> storable d i \<longrightarrow> roundStored d i w)"

lemma saveConcluded_stores:
  assumes "tRoundById env k i = Inr d" "storable d i"
  shows "roundStored d i (saveConcluded env k i w)"
proof -
  obtain v where "upsertSettledEpoch d w = (None, v)" "roundStored d i v" using upsert_stores [OF assms(2)] by blast
  then show ?thesis using assms(1) by (simp add: saveConcluded_def roundStored_def)
qed

lemma pollOnce_effect:
  assumes "pollOnce env k cur w = (stop, w', sent)"
  shows "transitionLock w' = transitionLock w \<and> tickets w' = tickets w
    \<and> (\<forall>c \<in> set sent. resumeSent env k cur c)
    \<and> (if stop then pausedKey w' = Some False \<and> \<not> isProtocolPaused w' \<and> endingPoll env k cur sent w'
       else pausedKey w' = pausedKey w)"
proof (cases "\<exists>raw e. tActive env k = Inr raw \<and> bigIntOf (round_id raw) = Some e
    \<and> newerThan (parseInt10 (round_id raw)) cur")
  case False
  then have "stop = False \<and> w' = w \<and> sent = []"
    using assms unfolding pollOnce_def by (auto split: sum.splits option.splits if_splits)
  then show ?thesis by simp
next
  case True
  then obtain raw e where r: "tActive env k = Inr raw" "bigIntOf (round_id raw) = Some e"
    "newerThan (parseInt10 (round_id raw)) cur" by blast
  define w1 where "w1 = saveConcluded env k (the cur) w"
  obtain b w2 where a: "activate env raw w1 = (b, w2)" by fastforce
  have w1: "transitionLock w1 = transitionLock w" "tickets w1 = tickets w" "pausedKey w1 = pausedKey w"
    by (simp_all add: w1_def)
  note k = activate_keeps [OF a]
  have stored: "\<forall>i d. cur = Some i \<and> tRoundById env k i = Inr d \<and> storable d i \<longrightarrow> roundStored d i w2"
    using saveConcluded_stores [of env k _ _ w] activate_epochs [OF a] by (auto simp: w1_def roundStored_def)
  have "(stop = b \<and> w' = w2 \<and> (\<exists>s. tOnChain env k = Inr s
            \<and> (if isLordsPotPaused s then \<exists>c. sent = [c] \<and> resumeSent env k cur c else sent = [])))
      \<or> (stop = False \<and> w' = w1 \<and> sent = [])"
    using assms r a unfolding pollOnce_def w1_def [symmetric]
    by (auto simp: Let_def sendResume_def resumeSent_def rolledOver_def split: sum.splits option.splits if_splits)
  then show ?thesis
  proof (elim disjE conjE exE)
    fix s
    assume c: "stop = b" "w' = w2" "tOnChain env k = Inr s"
      "if isLordsPotPaused s then \<exists>c. sent = [c] \<and> resumeSent env k cur c else sent = []"
    have "endingPoll env k cur sent w2" if b
      unfolding endingPoll_def using r c(3,4) k stored that by auto
    moreover have "\<forall>c \<in> set sent. resumeSent env k cur c" using c(4) by (auto split: if_splits)
    ultimately show ?thesis using k w1 c(1,2) by (auto split: if_splits)
  next
    assume "stop = False" "w' = w1" "sent = []"
    then show ?thesis using w1 by simp
  qed
qed

definition waitOutcome :: "transEnv \<Rightarrow> nat \<Rightarrow> nat \<Rightarrow> int option \<Rightarrow> chainCmd list \<Rightarrow> world \<Rightarrow> bool" where
  "waitOutcome env k m cur sent w \<longleftrightarrow>
     (\<exists>early final j. sent = early @ final \<and> k \<le> j \<and> j < m \<and> endingPoll env j cur final w
        \<and> (\<forall>c \<in> set early. \<exists>i < j. resumeSent env i cur c))"

lemma awaitRollover_effect:
  assumes "awaitRollover n env k cur (w, cs) = Some (w', cs')"
  shows "transitionLock w' = transitionLock w \<and> tickets w' = tickets w
    \<and> pausedKey w' = Some False \<and> \<not> isProtocolPaused w'
    \<and> (\<exists>sent. cs' = cs @ sent \<and> waitOutcome env k (k + n) cur sent w')"
  using assms
proof (induction n arbitrary: k w cs)
  case (Suc n)
  obtain stop w1 sent where p: "pollOnce env k cur w = (stop, w1, sent)" by (cases "pollOnce env k cur w") auto
  note e = pollOnce_effect [OF p]
  show ?case
  proof (cases stop)
    case True
    then have o: "w' = w1" "cs' = cs @ sent" using Suc.prems p by auto
    have "waitOutcome env k (k + Suc n) cur sent w1"
      unfolding waitOutcome_def using e True by (intro exI [of _ "[]"] exI [of _ sent] exI [of _ k]) simp
    then show ?thesis using True e o by simp
  next
    case False
    then have l: "awaitRollover n env (Suc k) cur (w1, cs @ sent) = Some (w', cs')" using Suc.prems p by simp
    note IH = Suc.IH [OF l]
    then obtain early final j where m: "cs' = (cs @ sent) @ early @ final" "Suc k \<le> j" "j < Suc k + n"
      "endingPoll env j cur final w'" "\<forall>c \<in> set early. \<exists>i < j. resumeSent env i cur c"
      by (auto simp: waitOutcome_def)
    have "\<forall>c \<in> set (sent @ early). \<exists>i < j. resumeSent env i cur c"
      using m(2,5) e by auto (metis Suc_le_lessD)+
    then have "waitOutcome env k (k + Suc n) cur ((sent @ early) @ final) w'"
      unfolding waitOutcome_def using m(2-4)
      by (intro exI [of _ "sent @ early"] exI [of _ final] exI [of _ j]) simp
    then show ?thesis using IH e m(1) False by auto
  qed
qed simp

lemma ensure_keeps:
  assumes "ensureActiveRoundCached fetchActive payouts w = (res, w')"
  shows "transitionLock w' = transitionLock w" "pausedKey w' = pausedKey w" "tickets w' = tickets w"
    "pausedKey w \<noteq> Some True \<Longrightarrow> \<not> isProtocolPaused w \<Longrightarrow> \<not> isProtocolPaused w'"
    "usableCache w = Some r \<Longrightarrow> w' = w"
proof -
  have "w' = w \<or> (usableCache w = None \<and> (\<exists>raw. w' = snd (processActiveRound payouts raw w)))"
    using assms by (auto simp: ensureActiveRoundCached_def split: option.splits sum.splits prod.splits) (metis snd_conv)+
  moreover have "\<not> isProtocolPaused (snd (processActiveRound payouts raw w))"
    if "pausedKey w \<noteq> Some True" "\<not> isProtocolPaused w" for raw
    using that by (auto simp: processActiveRound_def syncProtocolState_def Let_def isProtocolPaused_def
        split: sum.splits option.splits apiDate.splits)
  ultimately show "transitionLock w' = transitionLock w" "pausedKey w' = pausedKey w" "tickets w' = tickets w"
    "pausedKey w \<noteq> Some True \<Longrightarrow> \<not> isProtocolPaused w \<Longrightarrow> \<not> isProtocolPaused w'"
    "usableCache w = Some r \<Longrightarrow> w' = w" by auto
qed

lemma nextFetch_keeps:
  assumes "nextFetch env w = (plan, w')"
  shows "transitionLock w' = transitionLock w" "pausedKey w' = pausedKey w" "tickets w' = tickets w"
    "pausedKey w \<noteq> Some True \<Longrightarrow> \<not> isProtocolPaused w \<Longrightarrow> \<not> isProtocolPaused w'"
    "usableCache w = Some r \<Longrightarrow> w' = w"
proof -
  obtain res where "ensureActiveRoundCached (tActiveEnd env) (tPayouts env) w = (res, w')"
    using assms by (auto simp: nextFetch_def split: prod.splits sum.splits)
  note k = ensure_keeps [OF this]
  then show "transitionLock w' = transitionLock w" "pausedKey w' = pausedKey w" "tickets w' = tickets w"
    "pausedKey w \<noteq> Some True \<Longrightarrow> \<not> isProtocolPaused w \<Longrightarrow> \<not> isProtocolPaused w'"
    "usableCache w = Some r \<Longrightarrow> w' = w" by blast+
qed

text \<open>The pause in front of the wait: accepted, or found done on the chain.\<close>

definition pausedFirst :: "transEnv \<Rightarrow> chainCmd list \<Rightarrow> bool" where
  "pausedFirst env cs \<longleftrightarrow> (case tPause env of Inr sig \<Rightarrow> cs = [Paused]
     | Inl e \<Rightarrow> cs = [] \<and> (\<exists>s. tChainAfterPause env = Inr s \<and> isLordsPotPaused s))"

lemma pauseStep_cases:
  obtains (paused) cs where "pauseStep env w = (PauseDone, setPaused True w, cs)" "pausedFirst env cs"
    | (failed) e where "pauseStep env w = (e, w, [])" "e \<noteq> PauseDone" "\<And>cs. \<not> pausedFirst env cs"
proof (cases "tPause env")
  case (Inr sig)
  then show thesis using paused [of "[Paused]"] by (simp add: pauseStep_def pausedFirst_def)
next
  case (Inl e)
  show thesis
  proof (cases "tChainAfterPause env")
    case (Inl e2)
    with \<open>tPause env = Inl e\<close> show thesis using failed [of "PauseThrew e2"] by (simp add: pauseStep_def pausedFirst_def)
  next
    case (Inr s)
    with \<open>tPause env = Inl e\<close> show thesis using failed [of PauseAborted] paused [of "[]"]
      by (cases "isLordsPotPaused s") (simp_all add: pauseStep_def pausedFirst_def)
  qed
qed

definition due :: "transEnv \<Rightarrow> roundState \<Rightarrow> bool" where
  "due env r \<longleftrightarrow> rsEndedAt r - PRE_EMPTIVE_BUFFER_MS \<le> tNow env"

text \<open>The cache is usable after the wait (a round of Megapot's has a positive id), so the timer changes nothing.\<close>

lemma endingPoll_newer:
  assumes "endingPoll env k cur sent w" "cur = Some i" "0 \<le> i"
  shows "\<exists>r j. roundCache w = Some r \<and> usableCache w = Some r \<and> rsId r = Some j \<and> i < j"
proof -
  obtain raw :: megapotRound and r where r: "newerThan (parseInt10 (round_id raw)) cur" "roundCache w = Some r" "rsId r = parseInt10 (round_id raw)"
    using assms(1) unfolding endingPoll_def by blast
  then obtain j where "rsId r = Some j" "i < j" using assms(2) by (auto simp: newerThan_def split: option.splits)
  then show ?thesis using r(2) assms(3) by (simp add: usableCache_def cacheUsable_def)
qed

lemma endingPoll_cong:
  "roundCache w' = roundCache w \<Longrightarrow> epochs w' = epochs w \<Longrightarrow> endingPoll env k cur sent w' = endingPoll env k cur sent w"
  by (simp add: endingPoll_def roundStored_def)

lemma waitOutcome_cong:
  "roundCache w' = roundCache w \<Longrightarrow> epochs w' = epochs w \<Longrightarrow> waitOutcome env k m cur sent w' = waitOutcome env k m cur sent w"
  by (simp add: waitOutcome_def endingPoll_cong [of w' w])

lemma transition_run:
  assumes "roundCache w = Some r" "due env r" "transitionLock w = None"
    and t: "transitionLoop fuel env w = Some (res, w', cs, plan)"
  shows "transitionLock w' = None \<and> tickets w' = tickets w
    \<and> (if res = Handled
       then (\<exists>cs0 sent v. cs = cs0 @ sent \<and> pausedFirst env cs0 \<and> waitOutcome env 0 fuel (rsId r) sent v
               \<and> nextFetch env v = (plan, w'\<lparr>transitionLock := transitionLock v\<rparr>))
         \<and> pausedKey w' = Some False \<and> \<not> isProtocolPaused w'
       else w' = w \<and> cs = [] \<and> (\<forall>cs0. \<not> pausedFirst env cs0))"
proof -
  define v where "v = w\<lparr>transitionLock := Some (tPid env)\<rparr>"
  have v: "tickets v = tickets w" "releaseLock v = w"
    using assms(3) by (simp_all add: v_def releaseLock_def)
  have l: "transitionLocked fuel env (rsId r) v = Some (res, w', cs, plan)"
    using t assms(1-3) by (simp add: transitionLoop_def due_def v_def)
  show ?thesis
  proof (cases rule: pauseStep_cases [of env v])
    case (failed e)
    then show ?thesis using l v assms(3)
      by (cases e) (auto simp: transitionLocked_def)
  next
    case (paused cs0)
    obtain w2 w3 where a: "awaitRollover fuel env 0 (rsId r) (setPaused True v, cs0) = Some (w2, cs)"
      and c: "res = Handled" "nextFetch env w2 = (plan, w3)" "w' = releaseLock w3"
      using l paused by (auto simp: transitionLocked_def split: option.splits prod.splits)
    note e = awaitRollover_effect [OF a] and k = nextFetch_keeps [OF c(2)]
    obtain sent where sent: "cs = cs0 @ sent" "waitOutcome env 0 fuel (rsId r) sent w2" using e by auto
    have "nextFetch env w2 = (plan, w'\<lparr>transitionLock := transitionLock w2\<rparr>)"
      using c(2,3) k(1) by (simp add: releaseLock_def)
    then have "\<exists>cs0 sent v. cs = cs0 @ sent \<and> pausedFirst env cs0 \<and> waitOutcome env 0 fuel (rsId r) sent v
        \<and> nextFetch env v = (plan, w'\<lparr>transitionLock := transitionLock v\<rparr>)"
      using paused(2) sent by blast
    then show ?thesis using e k(1-4) c v(1) by simp
  qed
qed

text \<open>
  C24: a transition that runs (the cached round is due and the lock free) gives the lock back and
  touches no ticket. It sends no resume before its pause was accepted or found done on the chain. If it
  cannot establish that, it reports so, with nothing sent and the state as it was. Otherwise it ends at
  a poll where Megapot reports a newer round than the one concluded and the chain is unpaused already
  or accepted the resume for exactly that round, with its ball limits and the update flag set just when
  they differ from the chain's; an earlier resume, too, was accepted for a newer round while the chain said it
  was paused. The pause flag is then down, the newer round is cached, and the concluded one is stored when
  Megapot answered with it.
\<close>
theorem transition_sound:
  assumes "roundCache w = Some r" "due env r" "transitionLock w = None"
    and "rsId r = Some i" "0 \<le> i"
    and "transitionLoop fuel env w = Some (res, w', cs, plan)"
  shows "transitionLock w' = None \<and> tickets w' = tickets w
    \<and> (if res = Handled
       then (\<exists>cs0 sent. cs = cs0 @ sent \<and> pausedFirst env cs0 \<and> waitOutcome env 0 fuel (Some i) sent w')
         \<and> pausedKey w' = Some False \<and> \<not> isProtocolPaused w'
         \<and> (\<exists>r' j. roundCache w' = Some r' \<and> rsId r' = Some j \<and> i < j)
       else w' = w \<and> cs = [] \<and> (\<forall>cs0. \<not> pausedFirst env cs0))"
proof (cases "res = Handled")
  case True
  note run = transition_run [OF assms(1-3,6)]
  obtain cs0 sent v where v: "cs = cs0 @ sent" "pausedFirst env cs0" "waitOutcome env 0 fuel (Some i) sent v"
    "nextFetch env v = (plan, w'\<lparr>transitionLock := transitionLock v\<rparr>)"
    using run True assms(4) by auto
  obtain r' j where r': "roundCache v = Some r'" "usableCache v = Some r'" "rsId r' = Some j" "i < j"
    using v(3) endingPoll_newer [OF _ refl assms(5)] unfolding waitOutcome_def by blast
  have u: "w'\<lparr>transitionLock := transitionLock v\<rparr> = v" by (rule nextFetch_keeps(5) [OF v(4) r'(2)])
  have "roundCache w' = roundCache v" "epochs w' = epochs v" by (subst u [symmetric], simp)+
  then have "waitOutcome env 0 fuel (Some i) sent w'" "roundCache w' = Some r'"
    using v(3) r'(1) waitOutcome_cong [of w' v] by simp_all
  then have "\<exists>cs0 sent. cs = cs0 @ sent \<and> pausedFirst env cs0 \<and> waitOutcome env 0 fuel (Some i) sent w'"
    "\<exists>r' j. roundCache w' = Some r' \<and> rsId r' = Some j \<and> i < j"
    using v(1,2) r'(3,4) by blast+
  then show ?thesis using run True by simp
next
  case False
  then show ?thesis using transition_run [OF assms(1-3,6)] assms(3) by simp
qed

text \<open>
  A transition that is not due, or that another process holds the lock for, changes nothing.
\<close>
theorem transition_idle:
  assumes "roundCache w = Some r" and "\<not> due env r \<or> transitionLock w \<noteq> None"
  shows "transitionLoop fuel env w = Some (Handled, w, [], NoTimer)"
  using assms by (auto simp: transitionLoop_def due_def)

section \<open>The wait ends with the rollover\<close>

definition quietPoll :: "transEnv \<Rightarrow> nat \<Rightarrow> int option \<Rightarrow> bool" where
  "quietPoll env k cur = (case tActive env k of Inl _ \<Rightarrow> True
     | Inr raw \<Rightarrow> bigIntOf (round_id raw) = None \<or> \<not> newerThan (parseInt10 (round_id raw)) cur)"

lemma quiet_pollOnce: "quietPoll env k cur \<Longrightarrow> pollOnce env k cur w = (False, w, [])"
  by (auto simp: quietPoll_def pollOnce_def split: sum.splits option.splits)

lemma awaitRollover_quiet:
  "(\<And>j. j < m \<Longrightarrow> quietPoll env (k + j) cur) \<Longrightarrow>
   awaitRollover (m + n) env k cur (w, cs) = awaitRollover n env (k + m) cur (w, cs)"
proof (induction m arbitrary: k)
  case (Suc m)
  have "quietPoll env k cur" using Suc.prems [of 0] by simp
  moreover have "quietPoll env (Suc k + j) cur" if "j < m" for j using Suc.prems [of "Suc j"] that by simp
  ultimately show ?case using Suc.IH [of "Suc k"] by (simp add: quiet_pollOnce)
qed simp

text \<open>
  C25: however long Megapot takes, the transition waits paused and sends nothing; at the first poll
  that sees the new round, with the chain paused and the calls answered, it resumes with that round
  and ends. One poll more than the quiet ones is fuel enough.
\<close>
theorem transition_completes:
  assumes "roundCache w = Some r" "due env r" "transitionLock w = None" and "tPause env = Inr sig"
    and "\<And>j. j < k \<Longrightarrow> quietPoll env j (rsId r)" and "k < fuel"
    and "rolledOver env k (rsId r) (Resumed n b u e)" and "tResume env k n b u e = Inr sig2"
    and "tActive env k = Inr raw" and "parseRoundState raw = Inr r'"
    and "fetchOnChainJackpotUsdc (tPayouts env) (parseInt10 (round_id raw)) = Inr pool"
  shows "\<exists>w' plan. transitionLoop fuel env w = Some (Handled, w', [Paused, Resumed n b u e], plan)
    \<and> pausedKey w' = Some False"
proof -
  define v where "v = setPaused True (w\<lparr>transitionLock := Some (tPid env)\<rparr>)"
  obtain s bp where ro: "bigIntOf (round_id raw) = Some e" "newerThan (parseInt10 (round_id raw)) (rsId r)"
    "tOnChain env k = Inr s" "isLordsPotPaused s" "ball_pool raw = Some bp" "normals_max bp = Some n"
    "bonusball_max bp = Some b" "u = limitsDiffer bp s"
    using assms(7,9) by (auto simp: rolledOver_def)
  obtain t where "ended_at raw = DateMs t"
    using assms(10) by (auto simp: parseRoundState_def split: if_splits apiDate.splits)
  moreover obtain j where "parseInt10 (round_id raw) = Some j"
    using ro(2) by (auto simp: newerThan_def split: option.splits)
  ultimately have pr: "\<exists>x'. processActiveRound (tPayouts env) raw x = (None, x')" for x
    using assms(10,11) ro(5) by (simp add: processActiveRound_def syncProtocolState_def Let_def)
  have act: "fst (activate env raw x)" for x
  proof -
    obtain x' where "processActiveRound (tPayouts env) raw x = (None, x')" using pr by blast
    then show ?thesis by (simp add: activate_def)
  qed
  obtain w2 where "activate env raw (saveConcluded env k (the (rsId r)) v) = (True, w2)"
    using act [of "saveConcluded env k (the (rsId r)) v"] by (metis prod.collapse)
  then have poll: "pollOnce env k (rsId r) v = (True, w2, [Resumed n b u e])"
    using assms(8,9) ro by (simp add: pollOnce_def sendResume_def Let_def)
  obtain m where m: "fuel = k + Suc m" using assms(6) less_iff_Suc_add by auto
  have "awaitRollover fuel env 0 (rsId r) (v, [Paused]) = Some (w2, [Paused, Resumed n b u e])"
    unfolding m using awaitRollover_quiet [of k env 0 "rsId r" "Suc m"] assms(5) poll by simp
  moreover have "transitionLoop fuel env w = transitionLocked fuel env (rsId r) (w\<lparr>transitionLock := Some (tPid env)\<rparr>)"
    using assms(1-3) by (simp add: transitionLoop_def due_def)
  ultimately obtain w' plan where "transitionLoop fuel env w = Some (Handled, w', [Paused, Resumed n b u e], plan)"
    using assms(4)
    by (cases "nextFetch env w2") (auto simp: transitionLocked_def pauseStep_def v_def)
  then show ?thesis using transition_run [OF assms(1-3)] by auto
qed

section \<open>A rollover from round 7 to round 8\<close>

definition liveRound :: "string \<Rightarrow> int \<Rightarrow> megapotRound" where
  "liveRound i ends = \<lparr> round_id = i, round_status = ''active'',
     prize_pool = Some \<lparr> tokAmount = Some ''5000000'', tokDecimals = Some 6 \<rparr>,
     ticket_count = Some 3, unique_participants = None, winners_count = 0, top_prize_amount = None,
     top_prize_winners_count = 0, lp_earnings = None, started_at = DateMs 0, ended_at = DateMs ends,
     settled_at = NoDate, ball_pool = Some \<lparr> normals_max = Some 30, bonusball_max = Some 11 \<rparr>,
     winning_numbers = None, prize_tiers = None \<rparr>"

definition endingRound :: roundState where
  "endingRound = \<lparr> rsId = Some 7, rsStatus = ''active'', rsNormalsMax = 30, rsBonusballMax = 10,
     rsStartedAt = DateMs 0, rsEndedAt = 1000000, rsPrizePool = (''1'', 6), rsLpEarnings = (''0'', 6),
     rsTicketCount = 0, rsParticipants = 0 \<rparr>"

definition chainAt :: "bool \<Rightarrow> onChainState" where
  "chainAt p = \<lparr> isLordsPotPaused = p, chainNormalMax = 30, chainBonusMax = 10, ongoingEpoch = 7 \<rparr>"

definition rollEnv :: transEnv where
  "rollEnv = \<lparr> tPid = ''42'', tNow = 900000, tNowEnd = 1200000, tPause = Inr ''p'',
     tChainAfterPause = Inr (chainAt True), tActiveStart = Inl ''offline'',
     tActive = (\<lambda>k. if k = 0 then Inl ''offline'' else Inr (liveRound (if k = 1 then ''7'' else ''8'') 90000000)),
     tActiveEnd = Inl ''offline'', tRoundById = (\<lambda>_ _. Inl ''offline''), tOnChain = (\<lambda>_. Inr (chainAt True)),
     tResume = (\<lambda>_ _ _ _ _. Inr ''r''), tPayouts = (\<lambda>_. Inr (replicate 12 5000000)) \<rparr>"

definition endingWorld :: world where
  "endingWorld = emptyWorld\<lparr>roundCache := Some endingRound\<rparr>"

definition afterRoll :: "(transEnd \<times> world \<times> chainCmd list \<times> cronPlan) option" where
  "afterRoll = transitionLoop 3 rollEnv endingWorld"

lemma roll_start: "roundCache endingWorld = Some endingRound" "due rollEnv endingRound"
  "transitionLock endingWorld = None"
  by (simp_all add: endingWorld_def emptyWorld_def due_def rollEnv_def endingRound_def PRE_EMPTIVE_BUFFER_MS_def)

lemma roll_run: "map_option (\<lambda>(r, w, cs, plan). (r, cs, plan)) afterRoll
    = Some (Handled, [Paused, Resumed 30 11 True 8], TransitionIn 88740000)"
  by code_simp

theorem transition_sound_witness:
  "pausedKey (fst (snd (the afterRoll))) = Some False \<and> transitionLock (fst (snd (the afterRoll))) = None
   \<and> map_option rsId (roundCache (fst (snd (the afterRoll)))) \<noteq> Some (Some 7)"
proof -
  obtain w' where w': "afterRoll = Some (Handled, w', [Paused, Resumed 30 11 True 8], TransitionIn 88740000)"
    using roll_run by (cases afterRoll) auto
  have "rsId endingRound = Some 7" by (simp add: endingRound_def)
  from transition_sound [OF roll_start this _ w' [unfolded afterRoll_def]] show ?thesis unfolding w' by auto
qed

theorem transition_idle_witness:
  "transitionLoop 3 (rollEnv\<lparr>tNow := 0\<rparr>) endingWorld = Some (Handled, endingWorld, [], NoTimer)"
  by (rule transition_idle [OF roll_start(1)])
     (simp add: due_def rollEnv_def endingRound_def PRE_EMPTIVE_BUFFER_MS_def)

lemma roll_rolled: "rolledOver rollEnv 2 (rsId endingRound) (Resumed 30 11 True 8)"
proof -
  have "bigIntOf ''8'' = Some 8" "newerThan (parseInt10 ''8'') (Some 7)" by code_simp+
  then show ?thesis
    unfolding rolledOver_def
    by (intro exI [of _ "liveRound ''8'' 90000000"] exI [of _ "chainAt True"]
        exI [of _ "\<lparr> normals_max = Some 30, bonusball_max = Some 11 \<rparr>"] exI)
       (auto simp: rollEnv_def liveRound_def chainAt_def endingRound_def limitsDiffer_def)
qed

theorem transition_completes_witness:
  "\<exists>w' plan. transitionLoop 3 rollEnv endingWorld = Some (Handled, w', [Paused, Resumed 30 11 True 8], plan)
    \<and> pausedKey w' = Some False"
proof (rule transition_completes [OF roll_start, where k = 2])
  show "tPause rollEnv = Inr ''p''" "tResume rollEnv 2 30 11 True 8 = Inr ''r''"
    "tActive rollEnv 2 = Inr (liveRound ''8'' 90000000)"
    by (simp_all add: rollEnv_def)
  show "quietPoll rollEnv j (rsId endingRound)" if "j < 2" for j
  proof -
    have "quietPoll rollEnv 0 (rsId endingRound)" "quietPoll rollEnv 1 (rsId endingRound)" by code_simp+
    then show ?thesis using that by (cases j) (auto simp: less_Suc_eq numeral_2_eq_2)
  qed
  show "fetchOnChainJackpotUsdc (tPayouts rollEnv) (parseInt10 (round_id (liveRound ''8'' 90000000))) = Inr 4000000"
    by code_simp
  show "parseRoundState (liveRound ''8'' 90000000) = Inr (projr (parseRoundState (liveRound ''8'' 90000000)))"
    by code_simp
qed (use roll_rolled in simp_all)

text \<open>
  The resume is broadcast, not confirmed. If it never lands, the transition is over all the
  same: the next pass of the heartbeat finds the chain still paused, mirrors that in the cache, and
  the new round is not due, so nothing sends the resume again.
\<close>
theorem dropped_resume_stays_paused:
  "map_option (\<lambda>(r, w, cs, plan). isProtocolPaused w) afterRoll = Some False
   \<and> map_option (\<lambda>(r, w, cs, plan). isProtocolPaused (snd (syncPauseStateFromChain (Inr (chainAt True)) w))) afterRoll
     = Some True
   \<and> map_option (\<lambda>(r, w, cs, plan). map_option (\<lambda>(retry, v, sent). (retry, sent, isProtocolPaused v))
        (checkEpochTransition 3 False (rollEnv\<lparr>tNow := 88000000\<rparr>)
          (snd (syncPauseStateFromChain (Inr (chainAt True)) w)))) afterRoll
     = Some (Some (None, [], True))"
  by (intro conjI; code_simp)

section \<open>A transition leaves the tickets\<close>

lemma loop_cached:
  assumes "roundCache w = Some r" "transitionLoop fuel env w = Some (res, w', cs, plan)"
  shows "tickets w' = tickets w"
proof (cases "due env r \<and> transitionLock w = None")
  case True
  then show ?thesis using transition_run [OF assms(1) _ _ assms(2)] by simp
next
  case False
  then show ?thesis using transition_idle [OF assms(1)] assms(2) by auto
qed

lemma loop_tickets:
  assumes "transitionLoop fuel env w = Some (res, w', cs, plan)"
  shows "tickets w' = tickets w"
proof (cases "roundCache w")
  case (Some r)
  then show ?thesis by (rule loop_cached [OF _ assms])
next
  case None
  obtain x w0 where x: "ensureActiveRoundCached (tActiveStart env) (tPayouts env) w = (x, w0)" by fastforce
  have k: "tickets w0 = tickets w" by (rule ensure_keeps(3) [OF x])
  show ?thesis
  proof (cases x)
    case (Inl e)
    then show ?thesis using assms None x k by (simp add: transitionLoop_def)
  next
    case (Inr r)
    then have "usableCache w0 = Some r" using x by (auto simp: ensureActiveRoundCached_def split: option.splits sum.splits prod.splits)
    then have c: "roundCache w0 = Some r" by (auto simp: usableCache_def split: option.splits if_splits)
    have "transitionLoop fuel env w0 = transitionLoop fuel env w"
      using None x Inr c by (simp add: transitionLoop_def)
    then show ?thesis using loop_cached [OF c] assms k by metis
  qed
qed

lemma safe_tickets: "safeTransition fuel busy env w = Some (retry, w', cs) \<Longrightarrow> tickets w' = tickets w"
  using loop_tickets by (auto simp: safeTransition_def busyTransition_def split: if_splits option.splits)

lemma heartbeat_tickets: "checkEpochTransition fuel busy env w = Some (retry, w', cs) \<Longrightarrow> tickets w' = tickets w"
  using safe_tickets by (auto simp: checkEpochTransition_def split: option.splits if_splits)

lemma startSync_cases:
  assumes "startSync fuel busy env reads fetchPage later w = Some (plan, retry, w', cs)"
  obtains w1 cs1 w2 sent where "reconcileOnChainEpochAtBoot env reads w = (w1, cs1)"
    "syncAllSettledRounds fuel (tPayouts env) fetchPage w1 = Some w2"
    "setupNextFetchCron (safeTransition fuel busy later) env w2 = Some (plan, retry, w', sent)"
    "cs = cs1 @ sent"
  using assms by (auto simp: startSync_def split: prod.splits option.splits)

lemma setupCron_tickets:
  assumes "setupNextFetchCron (safeTransition fuel busy later) env w = Some (plan, retry, w', cs)"
  shows "tickets w' = tickets w"
proof -
  obtain p v where p: "nextFetch env w = (p, v)" by fastforce
  have "w' = v \<or> (\<exists>r c. safeTransition fuel busy later v = Some (r, w', c))"
    using assms p by (cases p) (auto simp: setupNextFetchCron_def)
  then show ?thesis using nextFetch_keeps(3) [OF p] safe_tickets by metis
qed

end
