(* ===== verification/Reconciler.thy ===== *)
theory Reconciler
  imports BaseRelay
begin

text \<open>
  \<open>cron/reconciler.ts\<close> and \<open>cron/vaultMonitor.ts\<close>: the sweep that unlocks stale orders, reopens
  deferred ones and adds a relay job for every order that is due, and the refresh of the cached
  vault balance.
\<close>

definition processingTimeoutMs :: int where "processingTimeoutMs = 30 * 60000"

definition staleSel :: "int \<Rightarrow> relayOrder \<Rightarrow> bool" where
  "staleSel now r = (orderStatus r = PROCESSING \<and> updatedAt r < now - processingTimeoutMs)"

definition resetStale :: "int \<Rightarrow> relayOrder \<Rightarrow> relayOrder" where
  "resetStale now r = r\<lparr>orderStatus := RETRY_PENDING,
     lastError := Some ''Processing timeout - reset by reconciler'', updatedAt := now\<rparr>"

definition canRelay :: "int \<Rightarrow> world \<Rightarrow> bool" where
  "canRelay now w =
     (case roundCache w of None \<Rightarrow> False
      | Some r \<Rightarrow> \<not> isRoundLocked now r \<and> \<not> isProtocolPaused w)"

definition requeue :: "int \<Rightarrow> relayOrder \<Rightarrow> relayOrder" where
  "requeue now r = r\<lparr>orderStatus := QUEUED, updatedAt := now\<rparr>"

definition dueSel :: "int \<Rightarrow> relayOrder \<Rightarrow> bool" where
  "dueSel now r = (orderStatus r \<in> set RELAYABLE
     \<and> (case nextRetryAt r of None \<Rightarrow> True | Some t \<Rightarrow> t \<le> now))"

definition relayJobId :: "int \<Rightarrow> relayOrder \<Rightarrow> job" where
  "relayJobId now r = RelayJob (orderHash r) (''relay-'' @ orderHash r @ ''-r'' @ bigIntToString now)"

definition runReconciler :: "int \<Rightarrow> world \<Rightarrow> world" where
  "runReconciler now w =
     (let stuck = filter (staleSel now) (orders w);
          w1 = fold (\<lambda>o1. updOrders (\<lambda>r. orderHash r = orderHash o1) (resetStale now)) stuck w;
          can = canRelay now w1;
          w2 = (if can then updOrders (\<lambda>r. orderStatus r = DEFERRED) (requeue now) w1 else w1);
          pending = take 100 (filter (dueSel now) (orders w2))
      in fold (\<lambda>r w. if orderStatus r = DEFERRED \<and> \<not> can then w else addJob (relayJobId now r) w)
           pending w2)"

definition minVaultUsdc :: int where "minVaultUsdc = 100000000"

text \<open>The result says whether the low-balance warning is logged.\<close>

definition runVaultMonitor :: "baseEnv \<Rightarrow> world \<Rightarrow> bool \<times> world" where
  "runVaultMonitor env w =
     (case refreshVaultBalanceCache env 0 w of
        (Inl e, w') \<Rightarrow> (False, w') | (Inr b, w') \<Rightarrow> (b < minVaultUsdc, w'))"

section \<open>Laws\<close>

interpretation stale: guarded_update "staleSel now" "resetStale now" orderHash for now
  by unfold_locales (simp_all add: staleSel_def resetStale_def)

interpretation reopen: guarded_update "\<lambda>r. orderStatus r = DEFERRED" "requeue now" orderHash for now
  by unfold_locales (simp_all add: requeue_def)

lemma fold_updOrders_orders:
  "orders (fold (\<lambda>o1. updOrders (\<lambda>r. orderHash r = orderHash o1) u) os w)
   = fold (\<lambda>o1. updateMany (\<lambda>r. orderHash r = orderHash o1) u) os (orders w)"
  by (induction os arbitrary: w) auto

lemma fold_updOrders_rest:
  "fold (\<lambda>o1. updOrders (\<lambda>r. orderHash r = orderHash o1) u) os w
   = w\<lparr>orders := fold (\<lambda>o1. updateMany (\<lambda>r. orderHash r = orderHash o1) u) os (orders w)\<rparr>"
  by (induction os arbitrary: w) (auto simp: updOrders_def)

text \<open>Updating the stale rows one by one by their hash is one guarded update.\<close>

lemma reset_one_by_one:
  assumes "distinct (map orderHash rs)"
  shows "fold (\<lambda>o1. updateMany (\<lambda>r. orderHash r = orderHash o1) (resetStale now)) (filter (staleSel now) rs) rs
     = updateMany (staleSel now) (resetStale now) rs"
proof -
  have idem: "resetStale now (resetStale now r) = resetStale now r" for r
    by (simp add: resetStale_def)
  have fin: "fold (\<lambda>o1 r. if orderHash r = orderHash o1 then resetStale now r else r) os r
      = (if orderHash r \<in> orderHash ` set os then resetStale now r else r)" for os r
  proof (induction os arbitrary: r)
    case (Cons o1 os)
    show ?case
      using Cons.IH [of r] Cons.IH [of "resetStale now r"] idem [of r]
      by (auto simp: resetStale_def)
  qed simp
  have key: "orderHash r \<in> orderHash ` set (filter (staleSel now) rs) \<longleftrightarrow> staleSel now r" if "r \<in> set rs" for r
    using that distinct_map_eq [OF assms] by (auto simp: image_iff)
  show ?thesis
    unfolding fold_updateMany fin updateMany_def using key by (intro map_cong) auto
qed

definition reconciledOrders :: "int \<Rightarrow> world \<Rightarrow> relayOrder list" where
  "reconciledOrders now w =
     (let rs = updateMany (staleSel now) (resetStale now) (orders w)
      in if canRelay now w then updateMany (\<lambda>r. orderStatus r = DEFERRED) (requeue now) rs else rs)"

lemma canRelay_orders [simp]: "canRelay now (w\<lparr>orders := rs\<rparr>) = canRelay now w"
  by (simp add: canRelay_def isProtocolPaused_def split: option.split)

lemma addJob_fold_sel [simp]:
  "orders (fold (\<lambda>r v. if skip r then v else addJob (f r) v) rs w) = orders w"
  "tickets (fold (\<lambda>r v. if skip r then v else addJob (f r) v) rs w) = tickets w"
  by (induction rs arbitrary: w) auto

lemma runReconciler_form:
  assumes "distinct (map orderHash (orders w))"
  shows "runReconciler now w =
    fold (\<lambda>r v. if orderStatus r = DEFERRED \<and> \<not> canRelay now w then v else addJob (relayJobId now r) v)
      (take 100 (filter (dueSel now) (reconciledOrders now w))) (w\<lparr>orders := reconciledOrders now w\<rparr>)"
proof -
  have w1: "fold (\<lambda>o1. updOrders (\<lambda>r. orderHash r = orderHash o1) (resetStale now)) (filter (staleSel now) (orders w)) w
      = w\<lparr>orders := updateMany (staleSel now) (resetStale now) (orders w)\<rparr>"
    by (simp add: fold_updOrders_rest reset_one_by_one [OF assms])
  show ?thesis
    by (simp add: runReconciler_def Let_def w1 reconciledOrders_def updOrders_def)
qed

text \<open>
  What a run should do, in the terms of the deployment: when relaying is open, what becomes of a row, and
  which rows ask for a job.
\<close>

definition relayingOpen :: "int \<Rightarrow> world \<Rightarrow> bool" where
  "relayingOpen now w \<longleftrightarrow> (\<exists>r. roundCache w = Some r \<and> now < rsEndedAt r - 6 * 60000) \<and> pausedKey w \<noteq> Some True
     \<and> (\<forall>p. protocolState w = Some p \<longrightarrow> \<not> psIsPaused p)"

definition reconciledRow :: "int \<Rightarrow> bool \<Rightarrow> relayOrder \<Rightarrow> relayOrder" where
  "reconciledRow now isOpen r =
     (if orderStatus r = PROCESSING \<and> updatedAt r + 30 * 60000 < now
      then r\<lparr>orderStatus := RETRY_PENDING, lastError := Some ''Processing timeout - reset by reconciler'', updatedAt := now\<rparr>
      else if orderStatus r = DEFERRED \<and> isOpen then r\<lparr>orderStatus := QUEUED, updatedAt := now\<rparr>
      else r)"

definition awaitsRelay :: "int \<Rightarrow> relayOrder \<Rightarrow> bool" where
  "awaitsRelay now r \<longleftrightarrow> orderStatus r \<in> {QUEUED, RETRY_PENDING, DEFERRED, SOLANA_CONFIRMED}
     \<and> (\<forall>t. nextRetryAt r = Some t \<longrightarrow> t \<le> now)"

lemma canRelay_open: "canRelay now w = relayingOpen now w"
  by (auto simp: canRelay_def relayingOpen_def isRoundLocked_def isProtocolPaused_def PRE_EMPTIVE_BUFFER_MS_def
      split: option.split)

lemma dueSel_awaits: "dueSel now = awaitsRelay now"
  by (rule ext) (auto simp: dueSel_def awaitsRelay_def RELAYABLE_def split: option.split)

lemma reconciled_map: "reconciledOrders now w = map (reconciledRow now (relayingOpen now w)) (orders w)"
  by (auto simp: reconciledOrders_def Let_def canRelay_open updateMany_def reconciledRow_def staleSel_def
      resetStale_def requeue_def processingTimeoutMs_def)

lemma addJob_fold_form:
  "\<exists>new. fold (\<lambda>r v. if skip r then v else addJob (f r) v) rs w = w\<lparr>jobs := jobs w @ new\<rparr>
     \<and> (\<forall>j. j \<in> set new \<longleftrightarrow> j \<notin> set (jobs w) \<and> (\<exists>r \<in> set rs. \<not> skip r \<and> j = f r))"
proof (induction rs arbitrary: w)
  case (Cons r rs)
  let ?v = "if skip r then w else addJob (f r) w"
  obtain new where n: "fold (\<lambda>r v. if skip r then v else addJob (f r) v) rs ?v = ?v\<lparr>jobs := jobs ?v @ new\<rparr>"
    "\<And>j. j \<in> set new \<longleftrightarrow> j \<notin> set (jobs ?v) \<and> (\<exists>r \<in> set rs. \<not> skip r \<and> j = f r)"
    using Cons.IH [of ?v] by blast
  show ?case
  proof (cases "skip r \<or> f r \<in> set (jobs w)")
    case True
    then have v: "?v = w" by (auto simp: addJob_def)
    have "fold (\<lambda>r v. if skip r then v else addJob (f r) v) (r # rs) w
        = fold (\<lambda>r v. if skip r then v else addJob (f r) v) rs ?v" by simp
    then show ?thesis using n True unfolding v by (intro exI [of _ new]) auto
  next
    case False
    then have v: "?v = w\<lparr>jobs := jobs w @ [f r]\<rparr>" by (simp add: addJob_def)
    have "fold (\<lambda>r v. if skip r then v else addJob (f r) v) (r # rs) w
        = fold (\<lambda>r v. if skip r then v else addJob (f r) v) rs ?v" by simp
    then show ?thesis using n False unfolding v by (intro exI [of _ "f r # new"]) auto
  qed
qed simp

text \<open>
  C12: a run of the reconciler writes to the orders and the job queue only. It puts an order that has been
  PROCESSING for more than half an hour back for a retry, and a deferred one into the queue when relaying
  is open (a round is cached that ends in more than six minutes, and the protocol is not paused), and leaves
  every other row as it is. Of the table this gives it reads the first hundred rows that await
  relaying and are due, and adds a job for each, except those still deferred, which take up their
  place in the hundred all the same.
\<close>
theorem reconciler_effect:
  assumes "distinct (map orderHash (orders w))"
  shows "\<exists>rs new. runReconciler now w = w\<lparr>orders := rs, jobs := jobs w @ new\<rparr>
    \<and> rs = map (reconciledRow now (relayingOpen now w)) (orders w)
    \<and> (\<forall>j. j \<in> set new \<longleftrightarrow> j \<notin> set (jobs w)
         \<and> (\<exists>r \<in> set (take 100 (filter (awaitsRelay now) rs)). orderStatus r \<noteq> DEFERRED
              \<and> j = RelayJob (orderHash r) (''relay-'' @ orderHash r @ ''-r'' @ bigIntToString now)))"
proof -
  let ?rs = "map (reconciledRow now (relayingOpen now w)) (orders w)"
  let ?page = "take 100 (filter (awaitsRelay now) ?rs)"
  obtain new where new: "runReconciler now w = (w\<lparr>orders := ?rs\<rparr>)\<lparr>jobs := jobs w @ new\<rparr>"
    "\<And>j. j \<in> set new \<longleftrightarrow> j \<notin> set (jobs w)
       \<and> (\<exists>r \<in> set ?page. \<not> (orderStatus r = DEFERRED \<and> \<not> relayingOpen now w) \<and> j = relayJobId now r)"
    using runReconciler_form [OF assms, of now]
      addJob_fold_form [of "\<lambda>r. orderStatus r = DEFERRED \<and> \<not> relayingOpen now w" "relayJobId now" ?page "w\<lparr>orders := ?rs\<rparr>"]
    unfolding reconciled_map dueSel_awaits canRelay_open by auto
  have "orderStatus r \<noteq> DEFERRED" if "relayingOpen now w" "r \<in> set ?page" for r
    using that set_take_subset [of 100 "filter (awaitsRelay now) ?rs"] by (auto simp: reconciledRow_def split: if_splits)
  then have "j \<in> set new \<longleftrightarrow> j \<notin> set (jobs w)
       \<and> (\<exists>r \<in> set ?page. orderStatus r \<noteq> DEFERRED \<and> j = relayJobId now r)" for j
    using new(2) by blast
  then show ?thesis using new(1) by (intro exI [of _ ?rs] exI [of _ new]) (simp add: relayJobId_def)
qed

theorem reconciler_effect_witness:
  "map orderStatus (orders (runReconciler 1000000 (openWorld\<lparr>orders := [relayedOrder DEFERRED]\<rparr>))) = [QUEUED]
   \<and> RelayJob ''h'' ''relay-h-r1000000'' \<in> set (jobs (runReconciler 1000000 (openWorld\<lparr>orders := [relayedOrder DEFERRED]\<rparr>)))"
proof -
  let ?w = "openWorld\<lparr>orders := [relayedOrder DEFERRED]\<rparr>"
  let ?q = "reconciledRow 1000000 True (relayedOrder DEFERRED)"
  have d: "distinct (map orderHash (orders ?w))" by simp
  have o: "relayingOpen 1000000 ?w" unfolding canRelay_open [symmetric] by code_simp
  have j: "RelayJob (orderHash ?q) (''relay-'' @ orderHash ?q @ ''-r'' @ bigIntToString 1000000) = RelayJob ''h'' ''relay-h-r1000000''"
    "dueSel 1000000 ?q" "jobs ?w = []" "bigIntToString 1000000 = ''1000000''" by code_simp+
  have q: "orderStatus ?q = QUEUED" by (simp add: reconciledRow_def relayedOrder_def)
  from reconciler_effect [OF d, of 1000000] obtain new where
    "runReconciler 1000000 ?w = ?w\<lparr>orders := [?q], jobs := new\<rparr>"
    "\<And>j. j \<in> set new \<longleftrightarrow> (\<exists>r \<in> set (take 100 (filter (awaitsRelay 1000000) [?q])). orderStatus r \<noteq> DEFERRED
        \<and> j = RelayJob (orderHash r) (''relay-'' @ orderHash r @ ''-r'' @ bigIntToString 1000000))"
    using o j(3) by auto
  then show ?thesis using q j unfolding dueSel_awaits by simp
qed

text \<open>A locked or paused round never reopens a deferred order, and no stale lock survives.\<close>

lemma reconciled_no_stale: "r \<in> set (reconciledOrders now w) \<Longrightarrow> \<not> staleSel now r"
  using stale.none_left [of _ now "orders w"]
  by (auto simp: reconciledOrders_def Let_def set_updateMany staleSel_def requeue_def split: if_splits)

lemma reconciled_deferred:
  "canRelay now w \<Longrightarrow> r \<in> set (reconciledOrders now w) \<Longrightarrow> orderStatus r \<noteq> DEFERRED"
  using reopen.none_left [of r now] by (auto simp: reconciledOrders_def Let_def)

definition reconcilerOp :: "int \<Rightarrow> world \<Rightarrow> world" where
  "reconcilerOp now w = runReconciler now w"

lemma runReconciler_tickets: "tickets (runReconciler now w) = tickets w"
proof -
  have uf: "tickets (fold (\<lambda>o1. updOrders (\<lambda>r. orderHash r = orderHash o1) u) os v) = tickets v" for u os v
    by (simp add: fold_updOrders_rest)
  show ?thesis by (simp add: runReconciler_def Let_def uf)
qed

interpretation reconciler: ticket_reader reconcilerOp
  by unfold_locales (simp add: reconcilerOp_def runReconciler_tickets)

end
