(* ===== verification/Ops.thy ===== *)
theory Ops
  imports TicketIngest Transition Reconciler Settlement
begin

text \<open>
  What holds the backend's processes together: the configuration read at start (\<open>lib/config.ts\<close>),
  the cron tick that runs poller, reconciler, epoch heartbeat, pause mirror and settlement one after
  the other (\<open>cron/index.ts\<close>), and the hooks run on a signal (\<open>lib/shutdown.ts\<close>).
\<close>

section \<open>Configuration\<close>

type_synonym environ = "string \<Rightarrow> string option"

definition required :: "environ \<Rightarrow> string \<Rightarrow> (string, string) result" where
  "required en k = (case en k of None \<Rightarrow> Inl (''Missing env: '' @ k)
     | Some v \<Rightarrow> (if v = [] then Inl (''Missing env: '' @ k) else Inr v))"

fun firstSet :: "environ \<Rightarrow> string list \<Rightarrow> string option" where
  "firstSet en [] = None"
| "firstSet en (k # ks) = (case en k of None \<Rightarrow> firstSet en ks
     | Some v \<Rightarrow> (if v = [] then firstSet en ks else Some v))"

definition requiredOneOf :: "environ \<Rightarrow> string list \<Rightarrow> (string, string) result" where
  "requiredOneOf en ks = (case firstSet en ks of Some v \<Rightarrow> Inr v
     | None \<Rightarrow> Inl (''Missing env: one of ['' @ concat (map (\<lambda>k. k @ '', '') (butlast ks)) @ concat (drop (length ks - 1) ks) @ '']''))"

text \<open>The settings that must be there, in the order they are read; the first missing one stops the start.
  The flag says that any one of the names will do.\<close>

definition requiredKeys :: "(bool \<times> string list) list" where
  "requiredKeys =
     [(False, [''DATABASE_URL'']), (False, [''DUNE_URL'']), (False, [''DUNE_API_KEY'']),
      (False, [''SOLANA_RPC_URL'']), (True, [''SOLANA_PROGRAM_ID'', ''LORDSPOT_VAULT_ADDRESS'']),
      (False, [''SOLANA_PRIVATE_KEY'']), (True, [''BASE_SEPOLIA_RPC_URL'', ''ANVIL_RPC_URL'']),
      (False, [''BASE_RPC_URL'']), (False, [''LORDSPOT_BASE_VAULT'']),
      (False, [''RELAYER_BASE_SIGNER_PRIVATEKEY'']), (True, [''BASE_REWARD_WALLET_ADDRESS'']),
      (True, [''USDC_BASE_ADDRESS'', ''USDC_BASE_SEPOLIA_ADDRESS'']),
      (True, [''MEGAPOT_BASE_ADDRESS'', ''MEGAPOT_BASE_SEPOLIA_ADDRESS'']),
      (False, [''MEGAPOT_API_KEY''])]"

record settings =
  cfPort :: "int option"
  cfNodeEnv :: string
  cfInlineWorkers :: bool
  cfInlineCron :: bool
  cfRedisUrl :: string
  cfVaultUsdcAta :: string
  cfChainId :: "int option"
  cfReferralSplit :: int
  cfApiUrl :: string
  cfWebhookSecret :: "string option"
  cfMaxAttempts :: int
  cfBaseBackoffMs :: int
  cfMaxBackoffMs :: int
  cfProcessingTimeoutMs :: int
  cfMinVaultUsdc :: int
  cfChunkSize :: int
  cfRequired :: "string list"

definition loadConfig :: "environ \<Rightarrow> (string, settings) result" where
  "loadConfig en =
     (case mapResult (\<lambda>(alt, ks). if alt then requiredOneOf en ks else required en (hd ks)) requiredKeys of
        Inl e \<Rightarrow> Inl e
      | Inr vs \<Rightarrow>
        (case bigIntOf (case_option ''100000000'' id (en ''MIN_BASE_VAULT_USDC'')) of
           None \<Rightarrow> Inl ''SyntaxError: Cannot convert to a BigInt''
         | Some minVault \<Rightarrow> Inr
           \<lparr> cfPort = parseInt10 (case_option ''3000'' id (en ''PORT'')),
             cfNodeEnv = case_option ''development'' id (en ''NODE_ENV''),
             cfInlineWorkers = (en ''INLINE_WORKERS'' = Some ''true''), cfInlineCron = (en ''INLINE_CRON'' = Some ''true''),
             cfRedisUrl = case_option ''redis://127.0.0.1:6379'' id (en ''REDIS_URL''),
             cfVaultUsdcAta = case_option [] id (en ''SOLANA_VAULT_USDC_ATA''),
             cfChainId = Option.bind (en ''BASE_CHAIN_ID'') parseInt10, cfReferralSplit = 1000000000000000000,
             cfApiUrl = case_option ''https://api.megapot.io/v1'' id (en ''MEGAPOT_API_URL''),
             cfWebhookSecret = en ''HELIUS_WEBHOOK_SECRET'', cfMaxAttempts = 50, cfBaseBackoffMs = 5000,
             cfMaxBackoffMs = 300000, cfProcessingTimeoutMs = 30 * 60000, cfMinVaultUsdc = minVault, cfChunkSize = 15,
             cfRequired = vs \<rparr>))"

text \<open>\<open>config.inlineWorkers !== false\<close> in \<open>api/server.ts\<close>.\<close>

definition startsWorkers :: "settings \<Rightarrow> bool" where "startsWorkers c = cfInlineWorkers c"

lemma workers_off_by_default:
  assumes "en ''INLINE_WORKERS'' = None" "loadConfig en = Inr c"
  shows "\<not> startsWorkers c"
proof (cases "mapResult (\<lambda>(alt, ks). if alt then requiredOneOf en ks else required en (hd ks)) requiredKeys")
  case (Inr vs)
  then show ?thesis using assms
    by (cases "bigIntOf (case_option ''100000000'' id (en ''MIN_BASE_VAULT_USDC''))")
      (simp_all only: loadConfig_def startsWorkers_def sum.case option.case, auto)
qed (use assms in \<open>simp add: loadConfig_def\<close>)

section \<open>The cron tick\<close>

record cronEnv =
  crIngest :: ingestEnv
  crTrans :: transEnv
  crInFlight :: bool
  crOnChain :: "(string, onChainState) result"
  crRoundById :: "int \<Rightarrow> (string, megapotRound) result"

definition cronTick :: "nat \<Rightarrow> cronEnv \<Rightarrow> world \<Rightarrow> (string option \<times> world \<times> chainCmd list) option" where
  "cronTick fuel env w =
     (case pollMissedTransactions (crIngest env) w of
        (Inl e, w1) \<Rightarrow> Some (Some e, w1, [])
      | (Inr n, w1) \<Rightarrow>
        (case checkEpochTransition fuel (crInFlight env) (crTrans env) (runReconciler (iNow (crIngest env)) w1) of
           None \<Rightarrow> None
         | Some (retry, w2, cs) \<Rightarrow>
           (case syncPauseStateFromChain (crOnChain env) w2 of
              (Some e, w3) \<Rightarrow> Some (Some e, w3, cs)
            | (None, w3) \<Rightarrow> Some (None, runSettlementTick (crRoundById env) (iNow (crIngest env)) w3, cs))))"

fun cronTicks :: "nat \<Rightarrow> cronEnv list \<Rightarrow> world \<Rightarrow> (world \<times> chainCmd list) option" where
  "cronTicks fuel [] w = Some (w, [])"
| "cronTicks fuel (e # es) w =
     (case cronTick fuel e w of None \<Rightarrow> None
      | Some (r, w', cs) \<Rightarrow> map_option (\<lambda>(v, ds). (v, cs @ ds)) (cronTicks fuel es w'))"

lemma poller_failure_stops_tick:
  assumes "vaultUsdcAta (crIngest env) \<noteq> []" "vaultSigs (crIngest env) (indexerCursor w) INDEXER_LIMIT = Inl e"
  shows "cronTick fuel env w = Some (Some e, w, [])"
  using assms by (simp add: cronTick_def pollMissedTransactions_def)

text \<open>
  The heartbeat runs behind the poller in one \<open>try\<close>: while the Solana node does not answer the
  poller, no tick pauses or resumes the protocol for a due epoch transition, resets a stuck order or
  grades an epoch; the database stays as it is over any number of ticks.
\<close>
theorem poller_outage_stops_heartbeat:
  assumes "list_all (\<lambda>env. vaultUsdcAta (crIngest env) \<noteq> [] \<and> vaultSigs (crIngest env) = (\<lambda>u n. Inl e)) es"
  shows "cronTicks fuel es w = Some (w, [])"
  using assms by (induction es) (simp_all add: poller_failure_stops_tick)

text \<open>An epoch that is due: with the node answering, the tick makes the transition; without, it does not.\<close>

definition cronSample :: "(string, sigInfo list) result \<Rightarrow> cronEnv" where
  "cronSample page = \<lparr> crIngest = demoEnv\<lparr>vaultSigs := (\<lambda>u n. page)\<rparr>, crTrans = rollEnv, crInFlight = False,
     crOnChain = Inl ''off'', crRoundById = (\<lambda>i. Inl ''off'') \<rparr>"

theorem poller_outage_stops_heartbeat_witness:
  "cronTicks 3 [cronSample (Inl ''timeout''), cronSample (Inl ''timeout'')] endingWorld = Some (endingWorld, [])
   \<and> map_option snd (cronTicks 3 [cronSample (Inr [])] endingWorld) = Some [Paused, Resumed 30 11 True 8]"
proof
  show "cronTicks 3 [cronSample (Inl ''timeout''), cronSample (Inl ''timeout'')] endingWorld = Some (endingWorld, [])"
    by (rule poller_outage_stops_heartbeat [where e = "''timeout''"]) (simp add: cronSample_def demoEnv_def)
  show "map_option snd (cronTicks 3 [cronSample (Inr [])] endingWorld) = Some [Paused, Resumed 30 11 True 8]"
    by code_simp
qed

section \<open>Shutdown\<close>

record hooksState =
  hooks :: "(string \<times> bool) list"
  installed :: bool
  shuttingDown :: bool
  closed :: "(string \<times> bool) list"
  exited :: bool

text \<open>A hook is its name and whether closing it throws.\<close>

definition onShutdown :: "string \<Rightarrow> bool \<Rightarrow> hooksState \<Rightarrow> hooksState" where
  "onShutdown n throws s = s\<lparr>hooks := hooks s @ [(n, throws)], installed := True\<rparr>"

definition shutdown :: "hooksState \<Rightarrow> hooksState" where
  "shutdown s = (if shuttingDown s then s
     else s\<lparr>shuttingDown := True, closed := closed s @ map (\<lambda>h. (fst h, \<not> snd h)) (rev (hooks s))
              @ [(''prisma'', True), (''redis'', True)], exited := True\<rparr>)"

lemma shutdown_closes_all:
  "\<not> shuttingDown s \<Longrightarrow> closed s = [] \<Longrightarrow> map fst (closed (shutdown s)) = rev (map fst (hooks s)) @ [''prisma'', ''redis'']"
  by (simp add: shutdown_def comp_def rev_map)

lemma shutdown_once: "shutdown (shutdown s) = shutdown s"
  by (simp add: shutdown_def)

end
