(* ===== verification/System.thy ===== *)
theory System
  imports BaseRelay Harvest PayoutConfirmer ProtocolApi Ops
begin

text \<open>
  The backend as a whole: every handler, worker tick and cron step as one action on the shared
  database, run in any order and with any answers of the outside world. Each keeps the contract of
  \<open>TicketLife\<close>, so the life of a ticket holds for the system; and a cron tick is a sequence of actions.
\<close>

datatype act =
    PostWebhook ingestEnv string json
  | VerifyPurchase ingestEnv string
  | PollChain ingestEnv
  | RecordTickets ingestEnv string "string list"
  | RelayOrder baseEnv string
  | ConfirmBase baseEnv
  | Reconcile int
  | SettleEpochs "int \<Rightarrow> (string, megapotRound) result" int
  | HarvestWins bool harvestEnv
  | IssueVoucher claimEnv json
  | ConfirmPayouts payoutEnv
  | Heartbeat nat bool transEnv
  | MirrorPause "(string, onChainState) result"
  | Boot nat bool transEnv "nat \<Rightarrow> (string, onChainState \<times> megapotRound) result" "string option \<Rightarrow> (string, roundsPage) result" transEnv

text \<open>A heartbeat whose wait has not ended, or a boot that has not, leaves the state it started from.\<close>

fun perform :: "act \<Rightarrow> world \<Rightarrow> world" where
  "perform (PostWebhook env auth body) w = snd (heliusWebhook env auth body w)"
| "perform (VerifyPurchase env sig) w = snd (webhookIngestJob env sig w)"
| "perform (PollChain env) w = snd (pollMissedTransactions env w)"
| "perform (RecordTickets env sig logs) w = snd (runTicketJob env sig logs w)"
| "perform (RelayOrder env h) w = relayOp (env, h) w"
| "perform (ConfirmBase env) w = confirmOp env w"
| "perform (Reconcile now) w = reconcilerOp now w"
| "perform (SettleEpochs fetch now) w = settlementOp (fetch, now) w"
| "perform (HarvestWins locked env) w = harvestOp (locked, env) w"
| "perform (IssueVoucher env raw) w = snd (voucherRoute env raw w)"
| "perform (ConfirmPayouts env) w = snd (runPayoutConfirmerTick env w)"
| "perform (Heartbeat fuel busy env) w =
     (case checkEpochTransition fuel busy env w of None \<Rightarrow> w | Some (retry, w', cs) \<Rightarrow> w')"
| "perform (MirrorPause chain) w = snd (syncPauseStateFromChain chain w)"
| "perform (Boot fuel busy env reads fetchPage later) w =
     (case startSync fuel busy env reads fetchPage later w of None \<Rightarrow> w | Some (plan, retry, w', cs) \<Rightarrow> w')"

section \<open>Every action keeps the contract\<close>

interpretation pauseMirror: ticket_reader "\<lambda>chain w. snd (syncPauseStateFromChain chain w)"
  by unfold_locales (simp add: syncPauseStateFromChain_def Let_def split: sum.split)

text \<open>The boot's reconciliation, backfill and timer leave the tickets.\<close>

lemma activeRound_tickets: "processActiveRound payouts d w = (e, w') \<Longrightarrow> tickets w' = tickets w"
  using activeRound_keeps(3) [of payouts d w] by simp

lemma upsert_tickets': "upsertSettledEpoch d w = (e, w') \<Longrightarrow> tickets w' = tickets w"
  using upsert_tickets(1) [of d w] by simp

lemma bootReconcile_tickets: "tickets (fst (reconcileOnChainEpochAtBoot env reads w)) = tickets w"
  by (auto simp: reconcileOnChainEpochAtBoot_def bootCatchUp_def activate_def dest: activeRound_tickets
      split: option.splits prod.splits sum.splits if_splits)

lemma syncPage_tickets: "tickets (snd (syncPage payouts highest ds w)) = tickets w"
proof (induction payouts highest ds w rule: syncPage.induct)
  case (2 payouts highest d ds w)
  then show ?case by (auto split: option.split prod.split dest: activeRound_tickets upsert_tickets')
qed simp

lemma syncPages_tickets: "syncPages n payouts fetch highest cursor w = Some w' \<Longrightarrow> tickets w' = tickets w"
proof (induction n arbitrary: cursor w)
  case (Suc n)
  obtain e v where v: "syncPage payouts highest (pageData (projr (fetch cursor))) w = (e, v)" by fastforce
  have "tickets v = tickets w" using syncPage_tickets v by (metis snd_conv)
  then show ?case
    using Suc.prems Suc.IH v by (auto split: sum.splits if_splits pageEnd.splits)
qed simp

lemma boot_tickets:
  assumes "startSync fuel busy env reads fetchPage later w = Some (plan, retry, w', cs)"
  shows "tickets w' = tickets w"
proof (rule startSync_cases [OF assms])
  fix w1 cs1 w2 sent
  assume r: "reconcileOnChainEpochAtBoot env reads w = (w1, cs1)"
    and p: "syncAllSettledRounds fuel (tPayouts env) fetchPage w1 = Some w2"
    and c: "setupNextFetchCron (safeTransition fuel busy later) env w2 = Some (plan, retry, w', sent)"
  show ?thesis
    using bootReconcile_tickets [of env reads w] r p syncPages_tickets setupCron_tickets [OF c]
    by (simp add: syncAllSettledRounds_def)
qed

lemma perform_grows: "ticketsGrow (tickets w) (tickets (perform a w))"
proof (cases a)
  case (RelayOrder env h)
  then show ?thesis using relayer.step_grows by simp
next
  case (ConfirmBase env)
  then show ?thesis using confirmer.step_grows by simp
next
  case (Reconcile now)
  then show ?thesis using reconciler.step_grows by simp
next
  case (SettleEpochs fetch now)
  then show ?thesis using settlement.step_grows by simp
next
  case (HarvestWins locked env)
  then show ?thesis using harvester.step_grows by simp
next
  case (IssueVoucher env raw)
  then show ?thesis using voucherDesk.step_grows [of w "(env, raw)"] by simp
next
  case (ConfirmPayouts env)
  then show ?thesis using payouts.step_grows by simp
next
  case (PostWebhook env auth body)
  then show ?thesis using webhook.step_grows [of w "(env, auth, body)"] by simp
next
  case (VerifyPurchase env sig)
  then show ?thesis using verifier.step_grows [of w "(env, sig)"] by simp
next
  case (PollChain env)
  then show ?thesis using poller.step_grows by simp
next
  case (RecordTickets env sig logs)
  then show ?thesis using recorder.step_grows [of w "(env, sig, logs)"] by simp
next
  case (Heartbeat fuel busy env)
  then show ?thesis using heartbeat_tickets by (auto split: option.split)
next
  case (MirrorPause chain)
  then show ?thesis using pauseMirror.step_grows by simp
next
  case (Boot fuel busy env reads fetchPage later)
  then show ?thesis using boot_tickets by (auto split: option.split)
qed

interpretation backend: ticket_op perform
  by unfold_locales (rule perform_grows)

section \<open>The life of a ticket\<close>

text \<open>
  C32: over any run of the backend's handlers, workers and cron steps, in any order and with any
  answers from outside, a ticket keeps its id, order and numbers, its status only moves forward, the
  amount it was graded with never changes, a lost ticket stays lost and a paid one stays paid.
\<close>
theorem system_ticket_life:
  assumes "k < length (tickets w)"
  shows "k < length (tickets (fold perform acts w))
    \<and> ticketId (tickets (fold perform acts w) ! k) = ticketId (tickets w ! k)
    \<and> ticketOrder (tickets (fold perform acts w) ! k) = ticketOrder (tickets w ! k)
    \<and> normalBalls (tickets (fold perform acts w) ! k) = normalBalls (tickets w ! k)
    \<and> bonusBall (tickets (fold perform acts w) ! k) = bonusBall (tickets w ! k)
    \<and> winStatus (tickets w ! k) \<le> winStatus (tickets (fold perform acts w) ! k)
    \<and> (winStatus (tickets w ! k) \<noteq> DRAW_PENDING \<longrightarrow>
         winAmount (tickets (fold perform acts w) ! k) = winAmount (tickets w ! k))
    \<and> (winStatus (tickets w ! k) = LOST \<longrightarrow> winStatus (tickets (fold perform acts w) ! k) = LOST)
    \<and> (winStatus (tickets w ! k) = PAID_OUT_ON_SOLANA \<longrightarrow>
         winStatus (tickets (fold perform acts w) ! k) = PAID_OUT_ON_SOLANA)"
proof -
  have "k < length (tickets (fold perform acts w)) \<and> ticketStep (tickets w ! k) (tickets (fold perform acts w) ! k)"
    by (rule ticketsGrow_nth [OF backend.runs_grow assms])
  then show ?thesis using backend.runs_paid_stays [OF assms] by (auto simp: ticketStep_def)
qed

theorem system_ticket_life_witness:
  "winStatus (hd (tickets (fold perform [Reconcile 9, Reconcile 99] (beforeReveal LOST 0)))) = LOST
   \<and> normalBalls (hd (tickets (fold perform [Reconcile 9, Reconcile 99] (beforeReveal LOST 0)))) = [1, 2, 3, 4, 5]"
proof -
  have k: "0 < length (tickets (beforeReveal LOST 0))" by (simp add: beforeReveal_def)
  have "tickets (beforeReveal LOST 0) ! 0 = (newTicket ''t'' ''h'' 3 [1, 2, 3, 4, 5])\<lparr>winStatus := LOST, winAmount := 0\<rparr>"
    by (simp add: beforeReveal_def)
  then show ?thesis
    using system_ticket_life [OF k, of "[Reconcile 9, Reconcile 99]"] by (simp add: hd_conv_nth newTicket_def)
qed

section \<open>A cron tick is a sequence of actions\<close>

definition tickActs :: "nat \<Rightarrow> cronEnv \<Rightarrow> act list" where
  "tickActs fuel env =
     [PollChain (crIngest env), Reconcile (iNow (crIngest env)), Heartbeat fuel (crInFlight env) (crTrans env),
      MirrorPause (crOnChain env), SettleEpochs (crRoundById env) (iNow (crIngest env))]"

text \<open>
  What a tick leaves is what its five actions leave in their order, cut short by an error: after the
  poll when the poll failed, before the settlement when the chain could not be read for the pause.
\<close>

lemma cronTick_acts:
  assumes "cronTick fuel env w = Some (err, w', cs)"
  shows "w' = fold perform (take (case err of None \<Rightarrow> 5
      | Some e \<Rightarrow> if isl (fst (pollMissedTransactions (crIngest env) w)) then 1 else 4) (tickActs fuel env)) w"
proof (cases "pollMissedTransactions (crIngest env) w")
  case (Pair p w1)
  let ?w1 = "runReconciler (iNow (crIngest env)) w1"
  show ?thesis
  proof (cases p)
    case (Inl e)
    then show ?thesis using assms Pair by (auto simp: cronTick_def tickActs_def)
  next
    case (Inr n)
    then obtain retry w2 ds where h: "checkEpochTransition fuel (crInFlight env) (crTrans env) ?w1 = Some (retry, w2, ds)"
      using assms Pair by (auto simp: cronTick_def split: option.splits)
    obtain x w3 where m: "syncPauseStateFromChain (crOnChain env) w2 = (x, w3)" by fastforce
    show ?thesis
    proof (cases x)
      case None
      then show ?thesis
        using assms Pair Inr h m by (auto simp: cronTick_def tickActs_def reconcilerOp_def settlementOp_def)
    next
      case (Some e)
      then show ?thesis
        using assms Pair Inr h m by (auto simp: cronTick_def tickActs_def reconcilerOp_def)
    qed
  qed
qed

end
