(* ===== verification/EpochLife.thy ===== *)
theory EpochLife
  imports System
begin

text \<open>
  The contract every worker keeps with the \<open>MegapotEpoch\<close> table: no row is deleted, a row keeps its id
  and the watermarks it was given, ids stay unique, and the tier table of a row is one that
  \<open>processPrizeTiers\<close> built. Most operations do not write the table at all.
\<close>

definition epochStep :: "megapotEpoch \<Rightarrow> megapotEpoch \<Rightarrow> bool" where
  "epochStep e e' \<longleftrightarrow> megapotId e' = megapotId e
     \<and> (ticketsSettledAt e \<noteq> None \<longrightarrow> ticketsSettledAt e' \<noteq> None)
     \<and> (ticketsHarvestedAt e \<noteq> None \<longrightarrow> ticketsHarvestedAt e' \<noteq> None)"

definition tiersStored :: "world \<Rightarrow> bool" where
  "tiersStored w \<longleftrightarrow> (\<forall>e \<in> set (epochs w). \<exists>fts. prizeTiers e = tiersJson fts)"

definition epochsSound :: "world \<Rightarrow> bool" where
  "epochsSound w \<longleftrightarrow> distinct (map megapotId (epochs w)) \<and> tiersStored w"

definition epochsKeep :: "world \<Rightarrow> world \<Rightarrow> bool" where
  "epochsKeep w w' \<longleftrightarrow> (\<forall>e \<in> set (epochs w). \<exists>e' \<in> set (epochs w'). epochStep e e') \<and> (epochsSound w \<longrightarrow> epochsSound w')"

lemma epochsKeep_same: "epochs w' = epochs w \<Longrightarrow> epochsKeep w w'"
  by (auto simp: epochsKeep_def epochsSound_def tiersStored_def epochStep_def)

lemma epochsKeep_refl [simp]: "epochsKeep w w"
  by (rule epochsKeep_same) simp

lemma epochsKeep_trans: "epochsKeep u v \<Longrightarrow> epochsKeep v w \<Longrightarrow> epochsKeep u w"
  unfolding epochsKeep_def epochStep_def by metis

lemma epochsKeep_fold: "(\<And>x w. epochsKeep w (f x w)) \<Longrightarrow> epochsKeep w (fold f xs w)"
  by (induction xs arbitrary: w) (auto intro: epochsKeep_trans)

text \<open>An update of rows that keeps ids, watermarks and tier tables, or puts a new tier table in.\<close>

lemma epochsKeep_upd:
  assumes "\<And>e. epochStep e (f e)"
    and "\<And>e. prizeTiers (f e) = prizeTiers e \<or> (\<exists>fts. prizeTiers (f e) = tiersJson fts)"
  shows "epochsKeep w (updEpochs sel f w)"
proof -
  have "map megapotId (updateMany sel f es) = map megapotId es" for es
    using assms(1) by (induction es) (auto simp: epochStep_def)
  moreover have "tiersStored (updEpochs sel f w)" if t: "tiersStored w"
  proof -
    have "\<exists>fts. prizeTiers (if sel e then f e else e) = tiersJson fts" if "e \<in> set (epochs w)" for e
      using t assms(2) [of e] that by (cases "sel e") (auto simp: tiersStored_def)
    then show ?thesis unfolding tiersStored_def updEpochs_sel set_updateMany by blast
  qed
  moreover have "\<exists>e' \<in> set (epochs (updEpochs sel f w)). epochStep e e'" if "e \<in> set (epochs w)" for e
    using assms(1) [of e] that unfolding updEpochs_sel set_updateMany
    by (intro bexI [of _ "if sel e then f e else e"]) (auto simp: epochStep_def)
  ultimately show ?thesis by (simp add: epochsKeep_def epochsSound_def)
qed

locale epoch_op =
  fixes step_op :: "'i \<Rightarrow> world \<Rightarrow> world"
  assumes step_keeps: "epochsKeep w (step_op i w)"
begin

lemma runs_keep: "epochsKeep w (fold step_op is w)"
  by (rule epochsKeep_fold) (rule step_keeps)

lemma runs_sound: "epochsSound w \<Longrightarrow> epochsSound (fold step_op is w)"
  using runs_keep by (simp add: epochsKeep_def)

lemma runs_watermark:
  assumes "e \<in> set (epochs w)"
  shows "\<exists>e' \<in> set (epochs (fold step_op is w)). epochStep e e'"
  using runs_keep assms by (simp add: epochsKeep_def)

end

locale epoch_reader =
  fixes step_op :: "'i \<Rightarrow> world \<Rightarrow> world"
  assumes step_epochs: "epochs (step_op i w) = epochs w"

sublocale epoch_reader < epoch_op step_op
  by unfold_locales (simp add: step_epochs epochsKeep_same)

section \<open>Operations that leave the table alone\<close>

lemma basics_epochs [simp]:
  "epochs (enqueue j w) = epochs w" "epochs (addJob j w) = epochs w"
  "epochs (newAttempt u h n tx err now w) = epochs w" "epochs (setPaused b w) = epochs w"
  "epochs (storeInbox env p w) = epochs w" "epochs (markSeen s w) = epochs w"
  by (simp_all add: enqueue_def addJob_def newAttempt_def setPaused_def storeInbox_def markSeen_def split: prod.split option.split)

lemma fold_epochs: "(\<And>x w. epochs (f x w) = epochs w) \<Longrightarrow> epochs (fold f xs w) = epochs w"
  by (induction xs arbitrary: w) simp_all

lemma webhook_epochs: "epochs (snd (heliusWebhook env auth body w)) = epochs w"
  by (auto simp: heliusWebhook_def Let_def fold_epochs split: option.split)

lemma settleInbox_epochs [simp]: "epochs (snd (settleInbox env sig st err w)) = epochs w"
  by (auto simp: settleInbox_def updInbox_def split: option.split)

lemma verify_epochs: "epochs (snd (webhookIngestJob env sig w)) = epochs w"
  by (auto simp: webhookIngestJob_def Let_def updInbox_def split: option.split sum.split)

lemma pollSigs_epochs: "epochs (snd (pollSigs env ss n w)) = epochs w"
  by (induction env ss n w rule: pollSigs.induct) (auto simp: Let_def split: sum.split)

lemma poll_epochs: "epochs (snd (pollMissedTransactions env w)) = epochs w"
proof -
  have "epochs w' = epochs w" if "pollSigs env ss 0 w = (r, w')" for ss r w'
    using pollSigs_epochs [of env ss 0 w] that by simp
  then show ?thesis by (auto simp: pollMissedTransactions_def split: sum.split prod.split)
qed

lemma createTickets_epochs [simp]: "epochs (createTickets env h ts w) = epochs w"
  by (induction env h ts w rule: createTickets.induct) simp_all

lemma failInbox_epochs [simp]: "epochs (snd (failInbox env sig e w)) = epochs w"
  using settleInbox_epochs [of env sig WH_FAILED "Some e" w]
  by (cases "settleInbox env sig WH_FAILED (Some e) w") (auto simp: failInbox_def split: workerEnd.split)

lemma record_epochs: "epochs (snd (runTicketJob env sig logs w)) = epochs w"
  by (auto simp: runTicketJob_def Let_def updInbox_def split: option.split)

interpretation webhookE: epoch_reader "\<lambda>(env, auth, body) w. snd (heliusWebhook env auth body w)"
  by unfold_locales (auto simp: webhook_epochs)

interpretation verifierE: epoch_reader "\<lambda>(env, sig) w. snd (webhookIngestJob env sig w)"
  by unfold_locales (auto simp: verify_epochs)

interpretation pollerE: epoch_reader "\<lambda>env w. snd (pollMissedTransactions env w)"
  by unfold_locales (rule poll_epochs)

interpretation recorderE: epoch_reader "\<lambda>(env, sig, logs) w. snd (runTicketJob env sig logs w)"
  by unfold_locales (auto simp: record_epochs)

interpretation pauseMirrorE: epoch_reader "\<lambda>chain w. snd (syncPauseStateFromChain chain w)"
  by unfold_locales (simp add: syncPauseStateFromChain_def Let_def split: sum.split)

section \<open>The relay side\<close>

lemma laneSubmit_epochs: "laneSubmit p send w = (r, w') \<Longrightarrow> epochs w' = epochs w"
  by (auto simp: laneSubmit_def resetNonceLane_def split: option.splits sum.splits)

lemma finalize_epochs [simp]: "epochs (finalizeOrderSuccess now h tids tx ids w) = epochs w"
  by (simp add: finalizeOrderSuccess_def Let_def)

lemma bounce_epochs [simp]: "epochs (bounceToRetry env o1 reason w) = epochs w"
  "epochs (failPermanently env o1 reason w) = epochs w"
  by (simp_all add: bounceToRetry_def failPermanently_def Let_def)

lemma confirmOne_epochs: "epochs (confirmOne env o1 tids w) = epochs w"
  by (simp add: confirmOne_def Let_def split: confirm_splits)

lemma confirm_epochs: "epochs (confirmOp env w) = epochs w"
  by (simp add: confirmOp_def runConfirmerTick_def Let_def fold_epochs confirmOne_epochs split_beta)

lemma batch_epochs [simp]:
  "epochs (updBatches b f w) = epochs w" "epochs (finalizeChunkSuccess now b c tx nfts w) = epochs w"
  "epochs (releaseChunk b tids reason w) = epochs w" "epochs (snd (bindChunk env h i c w)) = epochs w"
  by (simp_all add: updBatches_def finalizeChunkSuccess_def releaseChunk_def bindChunk_def Let_def)

lemma handleChunkRevert_epochs [simp]: "epochs (snd (handleChunkRevert env b c tx w)) = epochs w"
  by (simp add: handleChunkRevert_def Let_def split: confirm_splits)

lemma resolveBatch_epochs: "epochs (snd (resolveBatch env b c w)) = epochs w"
proof -
  have "epochs v = epochs w" if "handleChunkRevert env (rbId b) c h w = (x, v)" for h x v
    using handleChunkRevert_epochs [of env "rbId b" c h w] that by simp
  then show ?thesis by (auto simp: resolveBatch_def split: confirm_splits)
qed

lemma resolveBatches_epochs: "epochs (snd (resolveBatches env bs w)) = epochs w"
proof (induction env bs w rule: resolveBatches.induct)
  case (2 env b c bs w)
  obtain e w' where r: "resolveBatch env b c w = (e, w')" by fastforce
  have "epochs w' = epochs w" using resolveBatch_epochs [of env b c w] r by simp
  then show ?case using 2 r by (cases e) auto
qed simp

lemma submitChunk_epochs: "epochs (snd (submitAndConfirmChunk env h i c w)) = epochs w"
proof (rule submitChunk_rule)
  fix u :: world and oid ts assume "epochs u = epochs w"
  then show "epochs (snd (submitBuyTickets env oid ts h u)) = epochs w"
    using laneSubmit_epochs unfolding submitBuyTickets_def by (metis prod.collapse)
qed simp_all

lemma submitChunks_epochs: "epochs (snd (submitChunks env h i cs w)) = epochs w"
proof (induction env h i cs w rule: submitChunks.induct)
  case (2 env h i c cs w)
  obtain e w' where r: "submitAndConfirmChunk env h i c w = (e, w')" by fastforce
  have "epochs w' = epochs w" using submitChunk_epochs [of env h i c w] r by simp
  then show ?case using 2 r by (cases e) auto
qed simp

lemma relayLocked_epochs: "epochs (snd (relayLocked env h w)) = epochs w"
proof -
  obtain e w' where r: "resolveInFlightBatches env h w = (e, w')" by fastforce
  have "epochs w' = epochs w"
    using resolveBatches_epochs [of env _ w] r unfolding resolveInFlightBatches_def by (metis snd_conv)
  then show ?thesis unfolding relayLocked_def r by (cases e) (simp_all add: submitChunks_epochs)
qed

lemma relay_small_epochs [simp]:
  "epochs (snd (relayBalance env n w)) = epochs w" "epochs (debitVaultBalanceCache a w) = epochs w"
  "epochs (updOrder now h f w) = epochs w" "epochs (relaySuccess env o1 rnd w) = epochs w"
proof -
  show d: "epochs (debitVaultBalanceCache a w) = epochs w" for a w
    by (auto simp: debitVaultBalanceCache_def split: option.split)
  show u: "epochs (updOrder now h f w) = epochs w" for now h f w by (simp add: updOrder_def)
  show "epochs (snd (relayBalance env n w)) = epochs w"
    by (auto simp: relayBalance_def getCachedVaultUsdcBalance_def refreshVaultBalanceCache_def
        split: option.splits sum.splits prod.splits if_splits)
  show "epochs (relaySuccess env o1 rnd w) = epochs w" by (simp add: relaySuccess_def d u)
qed

lemma relayFailure_epochs [simp]: "epochs (snd (relayFailure env o1 tids e w)) = epochs w"
  by (simp add: relayFailure_def Let_def split: confirm_splits)

lemma relayJob_epochs: "epochs (snd (relayJob env h w)) = epochs w"
proof (cases "List.find (\<lambda>r. orderHash r = h) (orders w)")
  case None
  then show ?thesis by (simp add: relayJob_def)
next
  case (Some o1)
  obtain b w1 where b: "relayBalance env (amountUsdc o1) w = (b, w1)" by fastforce
  have t: "epochs w1 = epochs w" using relay_small_epochs(1) [of env "amountUsdc o1" w] b by simp
  obtain e w2 where r: "relayLocked env h (updOrders (lockSel h) (markProcessing (envNow env)) w1) = (e, w2)"
    by fastforce
  have l: "epochs w2 = epochs w"
    using relayLocked_epochs [of env h "updOrders (lockSel h) (markProcessing (envNow env)) w1"] t r by simp
  show ?thesis
    unfolding relayJob_def Some b r Let_def using t l by (auto simp: b r split: sum.split option.split)
qed

interpretation confirmerE: epoch_reader confirmOp
  by unfold_locales (rule confirm_epochs)

interpretation relayerE: epoch_reader relayOp
  by unfold_locales (simp add: relayOp_def relayJob_epochs)

interpretation reconcilerE: epoch_reader reconcilerOp
  by unfold_locales (simp add: reconcilerOp_def runReconciler_def Let_def fold_epochs split: prod.split)

section \<open>The claims and payouts\<close>

lemma claim_epochs [simp]: "epochs (releaseIssue cid w) = epochs w" "epochs (deleteClaim cid w) = epochs w"
  "epochs (unbindTickets cid w) = epochs w" "epochs (updClaim cid f w) = epochs w"
  by (simp_all add: releaseIssue_def deleteClaim_def unbindTickets_def updClaim_def)

lemma voucherBind_epochs: "voucherBind env wallet w = (cid, amt, w1) \<Longrightarrow> epochs w1 = epochs w"
  by (auto simp: voucherBind_def Let_def)

lemma voucherFinish_epochs: "epochs (snd (voucherFinish env wallet cid amt w)) = epochs w"
  by (auto simp: voucherFinish_def Let_def split: sum.split prod.split)

lemma voucher_epochs: "epochs (snd (voucherRoute env raw w)) = epochs w"
  by (auto simp: voucherRoute_def voucherFinish_epochs voucherBind_epochs split: option.split prod.split)

lemma resolveOne_epochs: "epochs (snd (resolveOne now landed sweptAll height c (used, w))) = epochs w"
  by (cases rule: resolveOne_cases [of used landed c now sweptAll height w])
     (simp_all add: confirmClaim_def releaseClaim_def)

lemma resolve_all_epochs: "epochs (snd (fold (resolveOne now landed sweptAll height) cs (used, w))) = epochs w"
proof (induction cs arbitrary: used w)
  case (Cons c cs)
  obtain u w1 where r: "resolveOne now landed sweptAll height c (used, w) = (u, w1)" by fastforce
  then have "epochs w1 = epochs w" using resolveOne_epochs [of now landed sweptAll height c used w] by simp
  then show ?case using Cons.IH r by simp
qed simp

interpretation voucherDeskE: epoch_reader "\<lambda>(env, raw) w. snd (voucherRoute env raw w)"
  by unfold_locales (auto simp: voucher_epochs split: prod.split)

interpretation payoutsE: epoch_reader "\<lambda>env w. snd (runPayoutConfirmerTick env w)"
  by unfold_locales (auto simp: runPayoutConfirmerTick_def resolve_all_epochs [where cs = "x # xs" for x xs, simplified]
    split: list.split sum.split prod.split)

section \<open>Operations that write it\<close>

lemma harvestStep_keeps: "epochsKeep w (snd (harvestEpochStep env i w))"
proof -
  obtain x v where v: "resolveInFlightBatch env i w = (x, v)" by fastforce
  have e: "epochs v = epochs w" using resolve_epochs [of env i w] v by simp
  have m: "epochsKeep w (updEpochs (\<lambda>e. megapotId e = i) (\<lambda>e. e\<lparr>ticketsHarvestedAt := Some n\<rparr>) v)" for n
    by (rule epochsKeep_trans [OF epochsKeep_same [OF e] epochsKeep_upd]) (simp_all add: epochStep_def)
  show ?thesis using e m
    by (auto simp: harvestEpochStep_def v Let_def epochsKeep_same split: sum.split bool.split prod.split)
qed

lemma harvestEpochs_keeps: "epochsKeep w (harvestEpochs env is w)"
proof (induction env "is" w rule: harvestEpochs.induct)
  case (2 env i "is" w)
  obtain e w' where r: "harvestEpochStep env i w = (e, w')" by fastforce
  have "epochsKeep w w'" using harvestStep_keeps [of w env i] r by simp
  then show ?case using 2 r by (cases e) (auto intro: epochsKeep_trans)
qed simp

interpretation harvesterE: epoch_op harvestOp
  by unfold_locales (simp add: harvestOp_def runHarvestTick_def harvestEpochs_keeps)

lemma epochPayload_step:
  assumes "epochPayload d = Inr f"
  shows "epochStep e (f e)" "\<exists>fts. prizeTiers (f e) = tiersJson fts"
proof -
  obtain paid jp fts where "processPrizeTiers (prize_tiers d) = Inr (paid, jp, fts)"
    using assms by (auto simp: epochPayload_def split: option.splits sum.splits prod.splits)
  then show "epochStep e (f e)" "\<exists>fts. prizeTiers (f e) = tiersJson fts"
    using assms by (auto simp: epochPayload_def epochStep_def split: option.splits sum.splits prod.splits)
qed

lemma upsert_keeps: "epochsKeep w (snd (upsertSettledEpoch d w))"
proof -
  have upd: "epochsKeep w (updEpochs (\<lambda>e. megapotId e = i) f w)" if "epochPayload d = Inr f" for f i
    using epochPayload_step [OF that] by (intro epochsKeep_upd) auto
  have new: "epochsKeep w (w\<lparr>epochs := epochs w @ [f (blankEpoch i)]\<rparr>)"
    if "epochPayload d = Inr f" "\<forall>e \<in> set (epochs w). megapotId e \<noteq> i" for f i
  proof -
    have "megapotId (f (blankEpoch i)) = i" using epochPayload_step(1) [OF that(1), of "blankEpoch i"]
      by (simp add: epochStep_def blankEpoch_def)
    then show ?thesis using that epochPayload_step(2) [OF that(1), of "blankEpoch i"]
      by (auto simp: epochsKeep_def epochsSound_def tiersStored_def epochStep_def)
  qed
  show ?thesis using upd new by (auto simp: upsertSettledEpoch_def split: sum.split option.split)
qed

lemma ensure_epochsKeep: "epochsKeep w (snd (ensureSettledEpochSynced fetch i w))"
  using upsert_keeps by (auto simp: ensureSettledEpochSynced_def Let_def split: sum.split)

lemma heal_keeps: "epochsKeep w (healMissingEpochs fetch w)"
proof -
  have "epochsKeep w (healEpoch fetch i w)" for i w
    by (simp add: healEpoch_def ensure_epochsKeep)
  then show ?thesis unfolding healMissingEpochs_def by (rule epochsKeep_fold)
qed

lemma settleBatches_epochs [simp]: "epochs (snd (settleBatches n tiers e w)) = epochs w"
  by (induction n tiers e w rule: settleBatches.induct) (auto simp: Let_def split: prod.split)

lemma settleEpoch_keeps: "epochsKeep w (snd (settleEpoch now e w))"
proof -
  have "epochsKeep w (updEpochs (\<lambda>x. megapotId x = megapotId e) (\<lambda>x. x\<lparr>ticketsSettledAt := Some now\<rparr>) w')"
    if "settleBatches MAX_BATCHES_PER_EPOCH tiers e w = (b, w')" for tiers b w'
  proof -
    have "epochs w' = epochs w" using settleBatches_epochs [of MAX_BATCHES_PER_EPOCH tiers e w] that by simp
    then show ?thesis
      by (rule epochsKeep_trans [OF epochsKeep_same epochsKeep_upd]) (simp_all add: epochStep_def)
  qed
  then have "epochsKeep w ((updEpochs (\<lambda>x. megapotId x = megapotId e) (\<lambda>x. x\<lparr>ticketsSettledAt := Some now\<rparr>) w')\<lparr>published := ps\<rparr>)"
    if "settleBatches MAX_BATCHES_PER_EPOCH tiers e w = (b, w')" for tiers b w' ps
    by (rule epochsKeep_trans [OF _ epochsKeep_same]) (use that in auto)
  moreover have "epochsKeep w w'" if "settleBatches MAX_BATCHES_PER_EPOCH tiers e w = (b, w')" for tiers b w'
    using settleBatches_epochs [of MAX_BATCHES_PER_EPOCH tiers e w] that by (simp add: epochsKeep_same)
  ultimately show ?thesis by (auto simp: settleEpoch_def split: sum.split prod.split bool.split)
qed

interpretation settlementE: epoch_op settlementOp
proof
  fix w and i :: "(int \<Rightarrow> (string, megapotRound) result) \<times> int"
  have "epochsKeep v (fold (\<lambda>e w. snd (settleEpoch n e w)) es v)" for n es v
    by (rule epochsKeep_fold) (rule settleEpoch_keeps)
  then show "epochsKeep w (settlementOp i w)"
    unfolding settlementOp_def runSettlementTick_def Let_def by (rule epochsKeep_trans [OF heal_keeps])
qed

section \<open>The transition\<close>

lemma pauseStep_epochs: "pauseStep env w = (p, w', cs) \<Longrightarrow> epochs w' = epochs w"
  by (auto simp: pauseStep_def split: sum.splits if_splits)

lemma saveConcluded_epochsKeep: "epochsKeep w (saveConcluded env k i w)"
proof (cases "tRoundById env k i")
  case (Inr d)
  obtain e w' where u: "upsertSettledEpoch d w = (e, w')" by fastforce
  have "epochsKeep w w'" using upsert_keeps [of w d] u by simp
  then show ?thesis
    using epochsKeep_trans [OF _ epochsKeep_same, of w w' "w'\<lparr>published := published w' @ [EpochSettled i]\<rparr>"]
    by (simp add: saveConcluded_def Inr u split: option.split)
qed (simp add: saveConcluded_def)

lemma pollOnce_keeps: "pollOnce env k cur w = (stop, w', cs) \<Longrightarrow> epochsKeep w w'"
proof -
  assume p: "pollOnce env k cur w = (stop, w', cs)"
  have "epochsKeep w v" if "activate env raw (saveConcluded env k i w) = (b, v)" for raw i b v
    by (rule epochsKeep_trans [OF saveConcluded_epochsKeep epochsKeep_same]) (rule activate_epochs [OF that])
  then show ?thesis
    using p saveConcluded_epochsKeep
    by (auto simp: pollOnce_def Let_def split: sum.splits option.splits if_splits prod.splits)
qed

lemma awaitRollover_keeps: "awaitRollover n env k cur (w, cs) = Some (w', cs') \<Longrightarrow> epochsKeep w w'"
proof (induction n arbitrary: k w cs)
  case (Suc n)
  obtain stop v sent where p: "pollOnce env k cur w = (stop, v, sent)" using prod_cases3 by blast
  show ?case
    using Suc pollOnce_keeps [OF p] p by (cases stop) (auto intro: epochsKeep_trans)
qed simp

lemma transitionLocked_keeps:
  assumes "transitionLocked fuel env cur w = Some (r, w', cs, plan)"
  shows "epochsKeep w w'"
proof -
  obtain p w1 cs1 where p: "pauseStep env w = (p, w1, cs1)" using prod_cases3 by blast
  have k1: "epochsKeep w w1" by (rule epochsKeep_same) (rule pauseStep_epochs [OF p])
  show ?thesis
  proof (cases p)
    case PauseDone
    obtain w2 cs2 where a: "awaitRollover fuel env 0 cur (w1, cs1) = Some (w2, cs2)"
      using assms p PauseDone by (auto simp: transitionLocked_def split: option.splits)
    obtain plan' w3 where s: "nextFetch env w2 = (plan', w3)" by fastforce
    have "w' = releaseLock w3" using assms p PauseDone a s by (simp add: transitionLocked_def)
    moreover have "epochsKeep w w2" by (rule epochsKeep_trans [OF k1 awaitRollover_keeps [OF a]])
    ultimately show ?thesis
      using epochsKeep_trans [OF _ epochsKeep_same, of w w2 w'] nextFetch_epochs [OF s]
      by (simp add: releaseLock_def)
  next
    case PauseAborted
    then show ?thesis using assms p pauseStep_epochs [OF p] by (auto simp: transitionLocked_def releaseLock_def epochsKeep_same)
  next
    case (PauseThrew e)
    then show ?thesis using assms p pauseStep_epochs [OF p] by (auto simp: transitionLocked_def releaseLock_def epochsKeep_same)
  qed
qed

lemma transitionLoop_keeps:
  assumes "transitionLoop fuel env w = Some (r, w', cs, plan)"
  shows "epochsKeep w w'"
proof -
  let ?start = "case roundCache w of Some r \<Rightarrow> (Inr r, w) | None \<Rightarrow> ensureActiveRoundCached (tActiveStart env) (tPayouts env) w"
  obtain x w0 where s: "?start = (x, w0)" by fastforce
  have e: "epochs w0 = epochs w" using s ensureActive_epochs by (auto split: option.splits)
  have l: "epochsKeep w w'" if "transitionLocked fuel env cur (w0\<lparr>transitionLock := t\<rparr>) = Some (r, w', cs, plan)" for cur t
    by (rule epochsKeep_trans [OF epochsKeep_same transitionLocked_keeps [OF that]]) (simp add: e)
  show ?thesis
    using assms e l unfolding transitionLoop_def s
    by (auto simp: epochsKeep_same split: sum.splits if_splits)
qed

lemma safe_keeps: "safeTransition fuel busy env w = Some (retry, w', cs) \<Longrightarrow> epochsKeep w w'"
  using transitionLoop_keeps
  by (auto simp: safeTransition_def busyTransition_def epochsKeep_same split: option.splits if_splits)

lemma heartbeat_keeps: "checkEpochTransition fuel busy env w = Some (retry, w', cs) \<Longrightarrow> epochsKeep w w'"
  using safe_keeps by (auto simp: checkEpochTransition_def epochsKeep_same split: option.splits if_splits)

lemma setupCron_keeps:
  assumes "setupNextFetchCron (safeTransition fuel busy later) env w = Some (plan, retry, w', cs)"
  shows "epochsKeep w w'"
proof -
  obtain p v where p: "nextFetch env w = (p, v)" by fastforce
  have k: "epochsKeep w v" by (rule epochsKeep_same) (rule nextFetch_epochs [OF p])
  have "w' = v \<or> (\<exists>r c. safeTransition fuel busy later v = Some (r, w', c))"
    using assms p by (cases p) (auto simp: setupNextFetchCron_def)
  then show ?thesis using k epochsKeep_trans [OF k safe_keeps] by blast
qed

section \<open>Boot\<close>

lemma bootReconcile_epochs: "epochs (fst (reconcileOnChainEpochAtBoot env reads w)) = epochs w"
  by (auto simp: reconcileOnChainEpochAtBoot_def bootCatchUp_def releaseLock_def dest: activate_epochs
      split: option.splits prod.splits sum.splits if_splits)

lemma syncPage_keeps: "epochsKeep w (snd (syncPage payouts highest ds w))"
proof (induction payouts highest ds w rule: syncPage.induct)
  case (2 payouts highest d ds w)
  have a: "epochsKeep w v" if "processActiveRound payouts d w = (e, v)" for e v
    by (rule epochsKeep_same) (rule processActive_epochs' [OF that])
  have u: "epochsKeep w v" if "upsertSettledEpoch d w = (e, v)" for e v
    using upsert_keeps [of w d] that by simp
  show ?case using 2 a u by (auto split: option.split prod.split intro: epochsKeep_trans)
qed simp

lemma syncPages_keeps: "syncPages n payouts fetch highest cursor w = Some w' \<Longrightarrow> epochsKeep w w'"
proof (induction n arbitrary: cursor w)
  case (Suc n)
  obtain e v where v: "syncPage payouts highest (pageData (projr (fetch cursor))) w = (e, v)" by fastforce
  have k: "epochsKeep w v" using syncPage_keeps v by (metis snd_conv)
  show ?case
    using Suc.prems v k by (auto split: sum.splits if_splits pageEnd.splits dest!: Suc.IH intro: epochsKeep_trans [OF k])
qed simp

lemma boot_keeps:
  assumes "startSync fuel busy env reads fetchPage later w = Some (plan, retry, w', cs)"
  shows "epochsKeep w w'"
proof (rule startSync_cases [OF assms])
  fix w1 cs1 w2 sent
  assume r: "reconcileOnChainEpochAtBoot env reads w = (w1, cs1)"
    and p: "syncAllSettledRounds fuel (tPayouts env) fetchPage w1 = Some w2"
    and c: "setupNextFetchCron (safeTransition fuel busy later) env w2 = Some (plan, retry, w', sent)"
  have "epochsKeep w w1" using bootReconcile_epochs [of env reads w] r by (simp add: epochsKeep_same)
  moreover have "epochsKeep w1 w2" using p syncPages_keeps by (simp add: syncAllSettledRounds_def)
  ultimately show ?thesis using setupCron_keeps [OF c] epochsKeep_trans by blast
qed

section \<open>The whole backend\<close>

lemma perform_keeps: "epochsKeep w (perform a w)"
proof (cases a)
  case (RelayOrder env h)
  then show ?thesis using relayerE.step_keeps by simp
next
  case (ConfirmBase env)
  then show ?thesis using confirmerE.step_keeps by simp
next
  case (Reconcile now)
  then show ?thesis using reconcilerE.step_keeps by simp
next
  case (SettleEpochs fetch now)
  then show ?thesis using settlementE.step_keeps by simp
next
  case (HarvestWins locked env)
  then show ?thesis using harvesterE.step_keeps by simp
next
  case (IssueVoucher env raw)
  then show ?thesis using voucherDeskE.step_keeps [of w "(env, raw)"] by simp
next
  case (ConfirmPayouts env)
  then show ?thesis using payoutsE.step_keeps by simp
next
  case (PostWebhook env auth body)
  then show ?thesis using webhookE.step_keeps [of w "(env, auth, body)"] by simp
next
  case (VerifyPurchase env sig)
  then show ?thesis using verifierE.step_keeps [of w "(env, sig)"] by simp
next
  case (PollChain env)
  then show ?thesis using pollerE.step_keeps by simp
next
  case (RecordTickets env sig logs)
  then show ?thesis using recorderE.step_keeps [of w "(env, sig, logs)"] by simp
next
  case (Heartbeat fuel busy env)
  then show ?thesis using heartbeat_keeps by (auto split: option.split)
next
  case (MirrorPause chain)
  then show ?thesis using pauseMirrorE.step_keeps by simp
next
  case (Boot fuel busy env reads fetchPage later)
  then show ?thesis using boot_keeps by (auto split: option.split)
qed

interpretation backendE: epoch_op perform
  by unfold_locales (rule perform_keeps)

lemma reachable_epochs: "epochsSound (fold perform acts emptyWorld)"
  by (rule backendE.runs_sound) (simp add: epochsSound_def tiersStored_def emptyWorld_def)

end
