(* ===== verification/ApiContract.thy ===== *)
theory ApiContract
  imports HomePage EpochLife
begin

text \<open>
  The contract between the backend's routes and the browser: the response types the browser declares
  (\<open>api/types.ts\<close>), the JSON the routes send (\<open>routes/protocol.ts\<close>, \<open>routes/claims.ts\<close>), the client that
  reads it (\<open>api/client.ts\<close>, \<open>api/protocol.ts\<close>, \<open>api/claims.ts\<close>) and the paging of its query hooks
  (\<open>api/hooks.ts\<close>). TypeScript types are checked at compile time only, so nothing in the program makes
  the routes keep to them. A date is sent as its ISO text, which is a parameter.
\<close>

section \<open>Types\<close>

datatype tsType =
    TNumber
  | TString
  | TBoolean
  | TNullable tsType
  | TArray tsType
  | TLiteral "string list"
  | TObject "(string \<times> bool \<times> tsType) list"

text \<open>A field is its name, whether it may be absent, and its type. More fields than declared are allowed.\<close>

fun conforms :: "tsType \<Rightarrow> json \<Rightarrow> bool" where
  "conforms TNumber v = (case v of JNum r \<Rightarrow> True | _ \<Rightarrow> False)"
| "conforms TString v = (case v of JStr s \<Rightarrow> True | _ \<Rightarrow> False)"
| "conforms TBoolean v = (case v of JBool b \<Rightarrow> True | _ \<Rightarrow> False)"
| "conforms (TNullable t) v = (v = JNull \<or> conforms t v)"
| "conforms (TArray t) v = (case v of JArr vs \<Rightarrow> list_all (conforms t) vs | _ \<Rightarrow> False)"
| "conforms (TLiteral ls) v = (case v of JStr s \<Rightarrow> s \<in> set ls | _ \<Rightarrow> False)"
| "conforms (TObject fs) v =
     (case v of JObj kvs \<Rightarrow> list_all (\<lambda>f. case map_of kvs (fst f) of None \<Rightarrow> fst (snd f) | Some x \<Rightarrow> conforms (snd (snd f)) x) fs
      | _ \<Rightarrow> False)"

definition reqd :: "string \<Rightarrow> tsType \<Rightarrow> string \<times> bool \<times> tsType" where "reqd k t = (k, False, t)"
definition optl :: "string \<Rightarrow> tsType \<Rightarrow> string \<times> bool \<times> tsType" where "optl k t = (k, True, t)"

definition tsProtocolState :: tsType where
  "tsProtocolState = TObject [reqd ''isPaused'' TBoolean, reqd ''megapotEpochId'' (TNullable TNumber),
     reqd ''nextDrawAt'' (TNullable TString), reqd ''prizePoolUsdc'' TString, reqd ''maxNormalBall'' (TNullable TNumber),
     reqd ''maxBonusBall'' (TNullable TNumber)]"

definition tsPrizeTier :: tsType where
  "tsPrizeTier = TObject [reqd ''amount'' TString, reqd ''tierId'' TNumber, reqd ''ticketCount'' TNumber]"

definition tsEpochSummary :: tsType where
  "tsEpochSummary = TObject
     [reqd ''megapotId'' TNumber, reqd ''lordsPotTicketCount'' TNumber, reqd ''totalTicketCount'' TNumber,
      reqd ''lordsPotWinnersCount'' TNumber, reqd ''totalWinnersCount'' TNumber, reqd ''totalPaidAmount'' TString,
      reqd ''lordsPotPaidAmount'' TString, reqd ''jackpot'' TString, reqd ''prizeTiers'' (TArray tsPrizeTier),
      reqd ''topPrizeAmountUsdc'' TString, reqd ''topPrizeWinnersCount'' TNumber, reqd ''normalMax'' (TNullable TNumber),
      reqd ''bonusMax'' (TNullable TNumber), reqd ''winningNormals'' (TArray TNumber), reqd ''winningBonusBall'' TNumber,
      reqd ''settledAt'' TString]"

definition tsAllTimeStats :: tsType where
  "tsAllTimeStats = TObject [reqd ''jackpotsWon'' TNumber, reqd ''prizesWon'' TString]"

definition tsEpochs :: tsType where
  "tsEpochs = TObject [reqd ''epochs'' (TArray tsEpochSummary), reqd ''nextCursor'' (TNullable TNumber)]"

definition tsEpochWinner :: tsType where
  "tsEpochWinner = TObject [reqd ''buyer'' TString, reqd ''ticketCount'' TNumber, reqd ''totalUsdc'' TString]"

definition tsEpochWinners :: tsType where
  "tsEpochWinners = TObject [reqd ''megapotId'' TNumber, reqd ''winners'' (TArray tsEpochWinner), reqd ''nextOffset'' (TNullable TNumber)]"

definition tsWinStatus :: tsType where
  "tsWinStatus = TLiteral [''DRAW_PENDING'', ''LOST'', ''WON_UNCLAIMED'', ''WON_FREE_TICKET'', ''CLAIMED_ON_BASE'', ''PAID_OUT_ON_SOLANA'']"

definition tsOrderStatus :: tsType where
  "tsOrderStatus = TLiteral [''SOLANA_CONFIRMED'', ''QUEUED'', ''DEFERRED'', ''PROCESSING'', ''BASE_SUBMITTED'', ''SUCCESS'',
     ''RETRY_PENDING'', ''FAILED_PERMANENT'']"

definition tsEpochWinnerTicket :: tsType where
  "tsEpochWinnerTicket = TObject [reqd ''normalBalls'' (TArray TNumber), reqd ''bonusBall'' TNumber, reqd ''winStatus'' tsWinStatus,
     reqd ''winAmountUsdc'' TString, reqd ''isFreeTicketTier'' TBoolean]"

definition tsEpochWinnerDetail :: tsType where
  "tsEpochWinnerDetail = TObject [reqd ''megapotId'' TNumber, reqd ''buyer'' TString, reqd ''tickets'' (TArray tsEpochWinnerTicket)]"

definition tsUserTicket :: tsType where
  "tsUserTicket = TObject
     [reqd ''id'' TString, reqd ''normalBalls'' (TArray TNumber), reqd ''bonusBall'' TNumber, reqd ''winStatus'' tsWinStatus,
      reqd ''winAmountUsdc'' TString, reqd ''isFreeTicketTier'' TBoolean, reqd ''purchaseEpoch'' TNumber,
      reqd ''fulfillEpoch'' (TNullable TNumber), reqd ''orderStatus'' tsOrderStatus, reqd ''purchasedAt'' TString,
      reqd ''orderHash'' TString, reqd ''txSignature'' TString, reqd ''baseTxHash'' (TNullable TString),
      reqd ''epochEndedAt'' (TNullable TString), reqd ''epochSettledAt'' (TNullable TString),
      reqd ''epochWinningNormals'' (TNullable (TArray TNumber)), reqd ''epochWinningBonusBall'' (TNullable TNumber)]"

definition tsUserTickets :: tsType where "tsUserTickets = TObject [reqd ''tickets'' (TArray tsUserTicket)]"

definition tsClaimSummary :: tsType where
  "tsClaimSummary = TObject [reqd ''claimableUsdc'' TString, reqd ''freeTickets'' TNumber, reqd ''totalPaidOutUsdc'' TString,
     reqd ''pendingVoucher'' (TNullable (TObject [reqd ''amountUsdc'' TString, reqd ''createdAt'' TString]))]"

definition tsClaimVoucher :: tsType where
  "tsClaimVoucher = TObject [reqd ''reused'' TBoolean, reqd ''claimId'' TString, reqd ''amountUsdc'' TString,
     optl ''transactionBase64'' TString, optl ''lastValidBlockHeight'' TNumber, reqd ''note'' TString]"

definition tsApiErrorBody :: tsType where "tsApiErrorBody = TObject [reqd ''error'' TString]"

section \<open>The answers as JSON\<close>

definition numJson :: "int \<Rightarrow> json" where "numJson n = JNum (of_int n)"
definition orNull :: "('a \<Rightarrow> json) \<Rightarrow> 'a option \<Rightarrow> json" where "orNull f v = (case v of None \<Rightarrow> JNull | Some x \<Rightarrow> f x)"
definition numsJson :: "int list \<Rightarrow> json" where "numsJson ns = JArr (map numJson ns)"

fun winStatusText :: "winStatus \<Rightarrow> string" where
  "winStatusText DRAW_PENDING = ''DRAW_PENDING''" | "winStatusText LOST = ''LOST''"
| "winStatusText WON_UNCLAIMED = ''WON_UNCLAIMED''" | "winStatusText WON_FREE_TICKET = ''WON_FREE_TICKET''"
| "winStatusText CLAIMED_ON_BASE = ''CLAIMED_ON_BASE''" | "winStatusText PAID_OUT_ON_SOLANA = ''PAID_OUT_ON_SOLANA''"

fun orderStatusText :: "orderStatus \<Rightarrow> string" where
  "orderStatusText SOLANA_CONFIRMED = ''SOLANA_CONFIRMED''" | "orderStatusText QUEUED = ''QUEUED''"
| "orderStatusText DEFERRED = ''DEFERRED''" | "orderStatusText PROCESSING = ''PROCESSING''"
| "orderStatusText BASE_SUBMITTED = ''BASE_SUBMITTED''" | "orderStatusText SUCCESS = ''SUCCESS''"
| "orderStatusText RETRY_PENDING = ''RETRY_PENDING''" | "orderStatusText FAILED_PERMANENT = ''FAILED_PERMANENT''"

type_synonym utc = "int \<Rightarrow> string"

definition dateJson :: "utc \<Rightarrow> int \<Rightarrow> json" where "dateJson utc t = JStr (utc t)"

definition stateJson :: "utc \<Rightarrow> stateView \<Rightarrow> json" where
  "stateJson utc v = JObj [(''isPaused'', JBool (svIsPaused v)), (''megapotEpochId'', orNull numJson (svEpochId v)),
     (''nextDrawAt'', orNull (dateJson utc) (svNextDrawAt v)), (''prizePoolUsdc'', JStr (svPrizePool v)),
     (''maxNormalBall'', orNull numJson (svMaxNormalBall v)), (''maxBonusBall'', orNull numJson (svMaxBonusBall v))]"

definition epochJson :: "utc \<Rightarrow> epochView \<Rightarrow> json" where
  "epochJson utc e = JObj
     [(''megapotId'', numJson (evId e)), (''lordsPotTicketCount'', numJson (evLordsPotTicketCount e)),
      (''totalTicketCount'', numJson (evTotalTicketCount e)), (''lordsPotWinnersCount'', numJson (evLordsPotWinners e)),
      (''totalWinnersCount'', numJson (evTotalWinners e)), (''totalPaidAmount'', JStr (evTotalPaid e)),
      (''lordsPotPaidAmount'', JStr (evLordsPotPaid e)), (''jackpot'', JStr (evJackpot e)), (''prizeTiers'', evPrizeTiers e),
      (''topPrizeAmountUsdc'', JStr (evTopPrize e)), (''topPrizeWinnersCount'', numJson (evTopPrizeWinners e)),
      (''normalMax'', orNull numJson (evNormalMax e)), (''bonusMax'', orNull numJson (evBonusMax e)),
      (''winningNormals'', numsJson (evNormals e)), (''winningBonusBall'', numJson (evBonusBall e)),
      (''settledAt'', dateJson utc (evSettledAt e))]"

definition epochsJson :: "utc \<Rightarrow> epochView list \<times> int option \<Rightarrow> json" where
  "epochsJson utc p = JObj [(''epochs'', JArr (map (epochJson utc) (fst p))), (''nextCursor'', orNull numJson (snd p))]"

definition statsJson :: "int \<times> string \<Rightarrow> json" where
  "statsJson p = JObj [(''jackpotsWon'', numJson (fst p)), (''prizesWon'', JStr (snd p))]"

definition winnerJson :: "winnerRow \<Rightarrow> json" where
  "winnerJson r = JObj [(''buyer'', JStr (wrBuyer r)), (''ticketCount'', numJson (int (wrCount r))), (''totalUsdc'', JStr (wrTotal r))]"

definition jsNumJson :: "jsNum \<Rightarrow> json" where "jsNumJson x = (case x of JFin r \<Rightarrow> JNum r | _ \<Rightarrow> JNull)"

definition winnersJson :: "int \<times> winnerRow list \<times> jsNum option \<Rightarrow> json" where
  "winnersJson p = JObj [(''megapotId'', numJson (fst p)), (''winners'', JArr (map winnerJson (fst (snd p)))),
     (''nextOffset'', orNull jsNumJson (snd (snd p)))]"

definition winnerTicketJson :: "winnerTicket \<Rightarrow> json" where
  "winnerTicketJson t = JObj [(''normalBalls'', numsJson (wtNormals t)), (''bonusBall'', numJson (wtBonus t)),
     (''winStatus'', JStr (winStatusText (wtStatus t))), (''winAmountUsdc'', JStr (wtAmount t)), (''isFreeTicketTier'', JBool (wtFree t))]"

definition winnerDetailJson :: "int \<times> string \<times> winnerTicket list \<Rightarrow> json" where
  "winnerDetailJson p = JObj [(''megapotId'', numJson (fst p)), (''buyer'', JStr (fst (snd p))),
     (''tickets'', JArr (map winnerTicketJson (snd (snd p))))]"

definition userTicketJson :: "utc \<Rightarrow> ticketView \<Rightarrow> json" where
  "userTicketJson utc t = JObj
     [(''id'', JStr (tvId t)), (''normalBalls'', numsJson (tvNormals t)), (''bonusBall'', numJson (tvBonus t)),
      (''winStatus'', JStr (winStatusText (tvStatus t))), (''winAmountUsdc'', JStr (tvAmount t)),
      (''isFreeTicketTier'', JBool (tvFree t)), (''purchaseEpoch'', numJson (tvPurchaseEpoch t)),
      (''fulfillEpoch'', orNull numJson (tvFulfillEpoch t)), (''orderStatus'', JStr (orderStatusText (tvOrderStatus t))),
      (''purchasedAt'', dateJson utc (tvPurchasedAt t)), (''orderHash'', JStr (tvOrderHash t)), (''txSignature'', JStr (tvSignature t)),
      (''baseTxHash'', orNull JStr (tvBaseTx t)), (''epochEndedAt'', orNull (dateJson utc) (tvEndedAt t)),
      (''epochSettledAt'', orNull (dateJson utc) (tvSettledAt t)), (''epochWinningNormals'', orNull numsJson (tvWinningNormals t)),
      (''epochWinningBonusBall'', orNull numJson (tvWinningBonus t))]"

definition userTicketsJson :: "utc \<Rightarrow> ticketsPage \<Rightarrow> json" where
  "userTicketsJson utc p = JObj [(''total'', numJson (int (tpTotal p))), (''limit'', numJson (tpLimit p)),
     (''offset'', numJson (tpOffset p)), (''hasMore'', JBool (tpHasMore p)), (''tickets'', JArr (map (userTicketJson utc) (tpTickets p)))]"

definition claimSummaryJson :: "utc \<Rightarrow> claimSummary \<Rightarrow> json" where
  "claimSummaryJson utc s = JObj [(''claimableUsdc'', JStr (bigIntToString (claimableUsdc s))), (''freeTickets'', numJson (int (freeTickets s))),
     (''totalPaidOutUsdc'', JStr (bigIntToString (totalPaidOutUsdc s))),
     (''pendingVoucher'', orNull (\<lambda>v. JObj [(''amountUsdc'', JStr (bigIntToString (fst v))), (''createdAt'', dateJson utc (snd v))])
        (pendingVoucher s))]"

text \<open>The status and the body of a voucher answer.\<close>

definition errorJson :: "string \<Rightarrow> json" where "errorJson m = JObj [(''error'', JStr m)]"

definition voucherJson :: "voucherResponse \<Rightarrow> nat \<times> json" where
  "voucherJson r =
     (case r of
        Res400 \<Rightarrow> (400, errorJson ''Invalid or missing wallet'')
      | Res503Paused \<Rightarrow> (503, errorJson ''Claims are briefly paused during the epoch transition - retry shortly'')
      | Res200 cid amt \<Rightarrow> (200, JObj [(''reused'', JBool True), (''claimId'', JStr cid), (''amountUsdc'', JStr (bigIntToString amt)),
          (''note'', JStr ''A live voucher already exists - sign and submit the one you were given, or wait ~1 min for it to expire.'')])
      | Res404 \<Rightarrow> (404, errorJson ''Nothing to claim for this wallet'')
      | Res409 \<Rightarrow> (409, errorJson ''Claim amount exceeds the protocol payout ceiling - this has been flagged for review, please contact support.'')
      | Res503Ceiling \<Rightarrow> (503, errorJson ''Unable to verify payout limits right now - try again shortly'')
      | Res201 cid amt tx lvbh \<Rightarrow> (201, JObj [(''reused'', JBool False), (''claimId'', JStr cid), (''amountUsdc'', JStr (bigIntToString amt)),
          (''transactionBase64'', JStr tx), (''lastValidBlockHeight'', numJson lvbh),
          (''note'', JStr ''Counter-sign with the winner wallet and submit within ~60s. The winner wallet pays the network fee.'')])
      | Res500 \<Rightarrow> (500, errorJson ''Failed to build claim voucher - try again''))"

section \<open>The client\<close>

record httpReply =
  hrStatus :: nat
  hrStatusText :: string
  hrBody :: "json option"

datatype clientError = ApiError nat string | NotJson | BodyIsNull

definition isOk :: "nat \<Rightarrow> bool" where "isOk status \<longleftrightarrow> 200 \<le> status \<and> status < 300"

text \<open>
  \<open>hrBody\<close> is \<open>None\<close> when the body is not JSON. An error body that is \<open>null\<close> has no fields to read; an
  \<open>error\<close> field that is not a string goes into the message as JavaScript writes it, here as empty text.
\<close>

definition apiRequest :: "httpReply \<Rightarrow> (clientError, json) result" where
  "apiRequest r =
     (if isOk (hrStatus r) then (case hrBody r of None \<Rightarrow> Inl NotJson | Some v \<Rightarrow> Inr v)
      else (let body = (case hrBody r of None \<Rightarrow> errorJson (hrStatusText r) | Some v \<Rightarrow> v) in
        if body = JNull then Inl BodyIsNull
        else Inl (ApiError (hrStatus r)
          (case getProp ''error'' body of
             Some (JStr m) \<Rightarrow> m
           | Some JNull \<Rightarrow> ''Request failed ('' @ bigIntToString (int (hrStatus r)) @ '')''
           | None \<Rightarrow> ''Request failed ('' @ bigIntToString (int (hrStatus r)) @ '')''
           | _ \<Rightarrow> []))))"

text \<open>The paths of the requests.\<close>

definition epochsPath :: "int option \<Rightarrow> string" where
  "epochsPath cursor = ''/v1/protocol/epochs'' @ (case cursor of None \<Rightarrow> [] | Some c \<Rightarrow> if c = 0 then [] else ''?cursor='' @ bigIntToString c)"

definition winnersPath :: "int \<Rightarrow> int option \<Rightarrow> string" where
  "winnersPath i off = ''/v1/protocol/epochs/'' @ bigIntToString i @ ''/winners''
     @ (case off of None \<Rightarrow> [] | Some n \<Rightarrow> if n = 0 then [] else ''?offset='' @ bigIntToString n)"

definition winnerDetailPath :: "int \<Rightarrow> string \<Rightarrow> string" where
  "winnerDetailPath i b = ''/v1/protocol/epochs/'' @ bigIntToString i @ ''/winners/'' @ b"

definition userTicketsPath :: "string \<Rightarrow> string" where "userTicketsPath wallet = ''/v1/protocol/tickets?wallet='' @ wallet"

definition claimSummaryPath :: "string \<Rightarrow> string" where "claimSummaryPath wallet = ''/v1/claims/summary?wallet='' @ wallet"

text \<open>The router: the path up to the question mark, and the one query parameter behind it.\<close>

definition pathOf :: "string \<Rightarrow> string" where "pathOf u = takeWhile (\<lambda>c. c \<noteq> CHR ''?'') u"

definition queryOf :: "string \<Rightarrow> string \<Rightarrow> json option" where
  "queryOf key u =
     (let q = drop 1 (dropWhile (\<lambda>c. c \<noteq> CHR ''?'') u); k = takeWhile (\<lambda>c. c \<noteq> CHR ''='') q in
      if q \<noteq> [] \<and> k = key then Some (JStr (drop 1 (dropWhile (\<lambda>c. c \<noteq> CHR ''='') q))) else None)"

section \<open>Every answer keeps to its type\<close>

text \<open>
  What an answer sends: a status and a body. A route that throws inside the handler is answered by
  the framework, outside the contract.
\<close>

definition served :: "('a \<Rightarrow> json) \<Rightarrow> 'a reply \<Rightarrow> (nat \<times> json) option" where
  "served f r = (case r of Ok x \<Rightarrow> Some (200, f x) | Refused n m \<Rightarrow> Some (n, errorJson m) | reply.Crashed \<Rightarrow> None)"

text \<open>The statistics route puts an \<open>ok\<close> beside its error.\<close>

definition statsServed :: "(int \<times> string) reply \<Rightarrow> (nat \<times> json) option" where
  "statsServed r = (case r of Refused n m \<Rightarrow> Some (n, JObj [(''ok'', JBool False), (''error'', JStr m)]) | _ \<Rightarrow> served statsJson r)"

text \<open>
  What the client makes of it: a value of the declared type, or the error the route gave. Every route
  answers 200 or 201 with the typed body and any other status with \<open>error\<close>.
\<close>

definition clientGets :: "string \<Rightarrow> tsType \<Rightarrow> (nat \<times> json) option \<Rightarrow> bool" where
  "clientGets reason t a =
     (case a of None \<Rightarrow> True
      | Some (n, v) \<Rightarrow>
        (case apiRequest \<lparr> hrStatus = n, hrStatusText = reason, hrBody = Some v \<rparr> of
           Inr x \<Rightarrow> x = v \<and> conforms t v
         | Inl (ApiError k m) \<Rightarrow> k = n \<and> conforms tsApiErrorBody v \<and> getProp ''error'' v = Some (JStr m)
         | Inl _ \<Rightarrow> False))"

definition summaryRoute :: "claimEnv \<Rightarrow> json option \<Rightarrow> world \<Rightarrow> claimSummary reply" where
  "summaryRoute env walletQ w =
     (case Option.bind walletQ (parseWallet env) of None \<Rightarrow> Refused 400 ''Invalid or missing wallet''
      | Some wallet \<Rightarrow>
        (if wallet = [] then Refused 400 ''Invalid or missing wallet'' else Ok (claimsSummary (ceNow env) wallet w)))"

text \<open>The tier lists of an answer are ones the results page can read.\<close>

definition tiersReadable :: "(epochView list \<times> int option) reply \<Rightarrow> bool" where
  "tiersReadable r = (case r of Ok p \<Rightarrow> list_all (\<lambda>e. readTiers (evPrizeTiers e) \<noteq> None) (fst p) | _ \<Rightarrow> True)"

text \<open>The database after any run of the backend from the first migration.\<close>

definition backendAfter :: "act list \<Rightarrow> world" where
  "backendAfter acts = fold perform acts emptyWorld"

lemmas ts_types = reqd_def optl_def tsProtocolState_def tsPrizeTier_def tsEpochSummary_def tsAllTimeStats_def tsEpochs_def
  tsEpochWinner_def tsEpochWinners_def tsWinStatus_def tsOrderStatus_def tsEpochWinnerTicket_def tsEpochWinnerDetail_def
  tsUserTicket_def tsUserTickets_def tsClaimSummary_def tsClaimVoucher_def tsApiErrorBody_def

lemma conforms_error [simp]: "conforms tsApiErrorBody (errorJson m)"
  by (simp add: ts_types errorJson_def)

lemma conforms_numJson [simp]: "conforms TNumber (numJson n)"
  by (simp add: numJson_def)

lemma conforms_orNull: "(\<And>x. v = Some x \<Longrightarrow> conforms t (f x)) \<Longrightarrow> conforms (TNullable t) (orNull f v)"
  by (cases v) (simp_all add: orNull_def)

lemma conforms_date [simp]: "conforms TString (dateJson utc t)"
  by (simp add: dateJson_def)

lemma conforms_array [simp]: "conforms (TArray t) (JArr (map f xs)) \<longleftrightarrow> (\<forall>x \<in> set xs. conforms t (f x))"
  by (simp add: list_all_iff)

lemma conforms_nums [simp]: "conforms (TArray TNumber) (numsJson ns)"
  by (simp add: numsJson_def del: conforms.simps)

lemma conforms_nullable_num [simp]: "conforms (TNullable TNumber) (orNull numJson v)"
  by (rule conforms_orNull) (simp del: conforms.simps)

lemma conforms_nullable_nums [simp]: "conforms (TNullable (TArray TNumber)) (orNull numsJson v)"
  by (rule conforms_orNull) (simp del: conforms.simps)

lemma conforms_nullable_date [simp]: "conforms (TNullable TString) (orNull (dateJson utc) v)"
  by (rule conforms_orNull) (simp del: conforms.simps)

lemma conforms_nullable_str [simp]: "conforms (TNullable TString) (orNull JStr v)"
  by (rule conforms_orNull) simp

lemma conforms_object:
  "conforms (TObject fs) (JObj kvs) \<longleftrightarrow>
     list_all (\<lambda>(k, absent, t). case map_of kvs k of None \<Rightarrow> absent | Some x \<Rightarrow> conforms t x) fs"
  by (simp add: list_all_iff split_beta)

lemma conforms_winStatus [simp]: "conforms tsWinStatus (JStr (winStatusText s))"
  by (cases s) (simp_all add: tsWinStatus_def)

lemma conforms_orderStatus [simp]: "conforms tsOrderStatus (JStr (orderStatusText s))"
  by (cases s) (simp_all add: tsOrderStatus_def)

lemma conforms_text [simp]: "conforms TString (JStr s)" "conforms TBoolean (JBool b)"
  by simp_all

lemma conforms_tiers: "conforms (TArray tsPrizeTier) (tiersJson fts)"
  by (simp add: tiersJson_def tsPrizeTier_def reqd_def tierJson_def conforms_object del: conforms.simps(5,7))

lemma conforms_state: "conforms tsProtocolState (stateJson utc v)"
  by (simp add: tsProtocolState_def reqd_def stateJson_def conforms_object del: conforms.simps)

lemma conforms_stats: "conforms tsAllTimeStats (statsJson p)"
  by (simp add: tsAllTimeStats_def reqd_def statsJson_def conforms_object del: conforms.simps)

lemma conforms_epoch: "evPrizeTiers e = tiersJson fts \<Longrightarrow> conforms tsEpochSummary (epochJson utc e)"
  by (simp add: tsEpochSummary_def reqd_def epochJson_def conforms_object conforms_tiers del: conforms.simps)

lemma conforms_winner: "conforms tsEpochWinner (winnerJson r)"
  by (simp add: tsEpochWinner_def reqd_def winnerJson_def conforms_object del: conforms.simps)

lemma conforms_winnerTicket: "conforms tsEpochWinnerTicket (winnerTicketJson t)"
  by (simp add: tsEpochWinnerTicket_def reqd_def winnerTicketJson_def conforms_object del: conforms.simps)

lemma conforms_userTicket: "conforms tsUserTicket (userTicketJson utc t)"
  by (simp add: tsUserTicket_def reqd_def userTicketJson_def conforms_object del: conforms.simps)

lemma conforms_detail: "conforms tsEpochWinnerDetail (winnerDetailJson p)"
  by (simp add: tsEpochWinnerDetail_def reqd_def winnerDetailJson_def conforms_object conforms_winnerTicket del: conforms.simps)

lemma conforms_tickets: "conforms tsUserTickets (userTicketsJson utc p)"
  by (simp add: tsUserTickets_def reqd_def userTicketsJson_def conforms_object conforms_userTicket del: conforms.simps)

lemma conforms_summary: "conforms tsClaimSummary (claimSummaryJson utc s)"
proof -
  let ?v = "TObject [reqd ''amountUsdc'' TString, reqd ''createdAt'' TString]"
  have "conforms (TNullable ?v) (orNull (\<lambda>v. JObj [(''amountUsdc'', JStr (bigIntToString (fst v))), (''createdAt'', dateJson utc (snd v))]) p)"
    for p :: "(int \<times> int) option"
    by (rule conforms_orNull) (simp add: reqd_def conforms_object del: conforms.simps)
  then show ?thesis by (simp add: tsClaimSummary_def reqd_def claimSummaryJson_def conforms_object del: conforms.simps)
qed

lemma client_error [simp]: "\<not> isOk n \<Longrightarrow> clientGets reason t (Some (n, errorJson m))"
  by (simp add: clientGets_def apiRequest_def errorJson_def tsApiErrorBody_def reqd_def)

lemma client_ok [simp]: "isOk n \<Longrightarrow> conforms t v \<Longrightarrow> clientGets reason t (Some (n, v))"
  by (simp add: clientGets_def apiRequest_def)

lemma ok_status [simp]: "isOk 200" "isOk 201" "\<not> isOk 400" "\<not> isOk 404" "\<not> isOk 409" "\<not> isOk 500" "\<not> isOk 503"
  by (simp_all add: isOk_def)

lemma client_served:
  "clientGets reason t (served f r) \<longleftrightarrow>
     (case r of Ok x \<Rightarrow> clientGets reason t (Some (200, f x)) | Refused n m \<Rightarrow> clientGets reason t (Some (n, errorJson m))
      | reply.Crashed \<Rightarrow> True)"
  by (cases r) (simp_all add: served_def clientGets_def)

lemma client_voucher: "clientGets reason tsClaimVoucher (Some (voucherJson r))"
proof (cases r)
  case (Res200 cid amt)
  show ?thesis unfolding Res200 voucherJson_def voucherResponse.case
    by (rule client_ok) (simp_all add: tsClaimVoucher_def reqd_def optl_def conforms_object del: conforms.simps)
next
  case (Res201 cid amt tx lvbh)
  show ?thesis unfolding Res201 voucherJson_def voucherResponse.case
    by (rule client_ok) (simp_all add: tsClaimVoucher_def reqd_def optl_def conforms_object del: conforms.simps)
qed (simp_all add: voucherJson_def)

lemma conforms_winners:
  assumes "\<And>x. snd (snd p) = Some x \<Longrightarrow> \<exists>r. x = JFin r"
  shows "conforms tsEpochWinners (winnersJson p)"
proof -
  have "conforms (TNullable TNumber) (orNull jsNumJson (snd (snd p)))"
    by (rule conforms_orNull) (use assms in \<open>auto simp: jsNumJson_def\<close>)
  then show ?thesis
    by (simp add: tsEpochWinners_def reqd_def winnersJson_def conforms_object conforms_winner del: conforms.simps)
qed

lemma epochs_conform:
  assumes "\<And>e. e \<in> set (fst p) \<Longrightarrow> \<exists>fts. evPrizeTiers e = tiersJson fts"
  shows "conforms tsEpochs (epochsJson utc p)"
proof -
  have "conforms tsEpochSummary (epochJson utc e)" if "e \<in> set (fst p)" for e
    using assms [OF that] conforms_epoch by blast
  then show ?thesis by (simp add: tsEpochs_def reqd_def epochsJson_def conforms_object del: conforms.simps)
qed

lemma set_prismaTake: "set (prismaTake n xs) \<subseteq> set xs"
  by (auto simp: prismaTake_def dest: in_set_takeD in_set_dropD)

lemma epochsRoute_tiers:
  assumes "tiersStored w" "epochsRoute env limitQ cursorQ w = Ok p" "e \<in> set (fst p)"
  shows "\<exists>fts. evPrizeTiers e = tiersJson fts"
proof -
  have "\<exists>x \<in> set (epochs w). e = viewEpoch env x"
    using assms(2,3) set_prismaTake by (fastforce simp: epochsRoute_def Let_def split: option.splits if_splits)
  then show ?thesis using assms(1) by (auto simp: tiersStored_def viewEpoch_def)
qed

lemma winnersRoute_next:
  "winnersRoute env i limitQ offsetQ w = Ok p \<Longrightarrow> snd (snd p) = Some x \<Longrightarrow> \<exists>r. x = JFin r"
  by (auto simp: winnersRoute_def winnersPage_def Let_def split: option.splits if_splits jsNum.splits)

lemma clientI:
  assumes "\<And>x. r = Ok x \<Longrightarrow> conforms t (f x)" and "\<And>n m. r = Refused n m \<Longrightarrow> \<not> isOk n"
  shows "clientGets reason t (served f r)"
  using assms by (cases r) (simp_all add: client_served)

lemma client_state: "clientGets reason tsProtocolState (served (stateJson utc) (stateRoute w))"
  by (rule clientI) (auto simp: conforms_state stateRoute_def split: option.splits)

lemma client_stats: "clientGets reason tsAllTimeStats (statsServed (statsRoute w))"
proof (cases "protocolState w")
  case None
  then show ?thesis
    by (simp add: statsServed_def statsRoute_def clientGets_def apiRequest_def tsApiErrorBody_def reqd_def)
qed (simp add: statsServed_def statsRoute_def client_served conforms_stats)

lemma client_epochs:
  assumes "tiersStored w"
  shows "clientGets reason tsEpochs (served (epochsJson utc) (epochsRoute env limitQ cursorQ w))"
proof (rule clientI)
  show "conforms tsEpochs (epochsJson utc p)" if "epochsRoute env limitQ cursorQ w = Ok p" for p
    by (rule epochs_conform) (rule epochsRoute_tiers [OF assms that])
qed (auto simp: epochsRoute_def Let_def split: option.splits if_splits)

lemma client_winners: "clientGets reason tsEpochWinners (served winnersJson (winnersRoute env i limitQ offsetQ w))"
proof (rule clientI)
  show "conforms tsEpochWinners (winnersJson p)" if "winnersRoute env i limitQ offsetQ w = Ok p" for p
    by (rule conforms_winners) (rule winnersRoute_next [OF that])
qed (auto simp: winnersRoute_def split: option.splits if_splits)

lemma client_detail: "clientGets reason tsEpochWinnerDetail (served winnerDetailJson (winnerDetailRoute env i b w))"
  by (rule clientI) (auto simp: conforms_detail winnerDetailRoute_def Let_def split: option.splits if_splits)

lemma client_tickets: "clientGets reason tsUserTickets (served (userTicketsJson utc) (ticketsRoute env walletQ limitQ offsetQ w))"
  by (rule clientI) (auto simp: conforms_tickets ticketsRoute_def Let_def split: option.splits)

lemma client_summary: "clientGets reason tsClaimSummary (served (claimSummaryJson utc) (summaryRoute cenv walletQ w))"
  by (rule clientI) (auto simp: conforms_summary summaryRoute_def split: option.splits if_splits)

lemma epochs_readable:
  assumes "tiersStored w"
  shows "tiersReadable (epochsRoute env limitQ cursorQ w)"
proof (cases "epochsRoute env limitQ cursorQ w")
  case (Ok p)
  have "readTiers (evPrizeTiers e) \<noteq> None" if "e \<in> set (fst p)" for e
    using epochsRoute_tiers [OF assms Ok that] by auto
  then show ?thesis by (simp add: tiersReadable_def Ok list_all_iff)
qed (simp_all add: tiersReadable_def)

lemma backend_tiers: "tiersStored (backendAfter acts)"
  using reachable_epochs [of acts] by (simp add: epochsSound_def backendAfter_def)

text \<open>
  Whatever the workers, routes and cron steps did before, every body the protocol and claims
  routes answer with has the type the browser declares for it, or is an error whose message the client
  passes on with the status; and every tier list among them is one the results page can draw. A
  request on which the handler throws is outside.
\<close>
theorem api_conforms:
  "clientGets reason tsProtocolState (served (stateJson utc) (stateRoute (backendAfter acts)))
   \<and> clientGets reason tsAllTimeStats (statsServed (statsRoute (backendAfter acts)))
   \<and> clientGets reason tsEpochs (served (epochsJson utc) (epochsRoute env limitQ cursorQ (backendAfter acts)))
   \<and> tiersReadable (epochsRoute env limitQ cursorQ (backendAfter acts))
   \<and> clientGets reason tsEpochWinners (served winnersJson (winnersRoute env epochText limitQ offsetQ (backendAfter acts)))
   \<and> clientGets reason tsEpochWinnerDetail (served winnerDetailJson (winnerDetailRoute env epochText buyerText (backendAfter acts)))
   \<and> clientGets reason tsUserTickets (served (userTicketsJson utc) (ticketsRoute env walletQ limitQ offsetQ (backendAfter acts)))
   \<and> clientGets reason tsClaimSummary (served (claimSummaryJson utc) (summaryRoute cenv walletQ (backendAfter acts)))
   \<and> clientGets reason tsClaimVoucher (Some (voucherJson (fst (voucherRoute cenv bodyWallet (backendAfter acts)))))"
  by (intro conjI client_state client_stats client_epochs client_winners client_detail client_tickets client_summary
      client_voucher epochs_readable backend_tiers)

section \<open>The pages of the epochs, followed to the end\<close>

text \<open>
  \<open>useEpochs\<close>: the first request has no cursor, each later one the \<open>nextCursor\<close> of the page before,
  written in the path and read back by the route. \<open>None\<close>: a request failed, or \<open>fuel\<close> was not enough.
\<close>

fun followEpochs :: "nat \<Rightarrow> protoEnv \<Rightarrow> int option \<Rightarrow> world \<Rightarrow> epochView list option" where
  "followEpochs 0 env cursor w = None"
| "followEpochs (Suc n) env cursor w =
     (case epochsRoute env None (queryOf ''cursor'' (epochsPath cursor)) w of
        Ok (es, nxt) \<Rightarrow>
          (case nxt of None \<Rightarrow> Some es | Some c \<Rightarrow> map_option (append es) (followEpochs n env (Some c) w))
      | _ \<Rightarrow> None)"

definition revealedNewest :: "int \<Rightarrow> world \<Rightarrow> megapotEpoch list" where
  "revealedNewest now w = rev (sort_key megapotId (filter (revealedEpochWhere now) (epochs w)))"

lemma numberOf_digits:
  assumes "list_all isDigit s" "s \<noteq> []"
  shows "numberOf s = Some (of_int (digitsVal 0 s))"
proof -
  have tw: "takeWhile isDigit s = s" "dropWhile isDigit s = []"
    using assms(1) by (simp_all add: list_all_iff)
  have dec: "decimalLiteral s = Some (of_int (digitsVal 0 s))"
    using assms(2) by (simp add: decimalLiteral_def tw Let_def)
  have pre: "take 2 s \<notin> {''0x'', ''0X'', ''0o'', ''0O'', ''0b'', ''0B''}"
    using assms(1) by (cases s; cases "tl s") (auto simp: isDigit_def)
  have sgn: "take 1 s \<notin> {''-'', ''+''}" using assms by (cases s) (auto simp: isDigit_def)
  have "radixLiteral s = None" using pre by (simp add: radixLiteral_def Let_def)
  then show ?thesis using assms sgn dec by (simp add: numberOf_def trimWhite_digits)
qed

lemma boundNum_int:
  assumes "\<bar>n\<bar> < 2 ^ 40"
  shows "boundNum (of_int n) = JFin (of_int n)"
proof -
  define x :: rat where "x = 2 ^ 970"
  have "(2 :: rat) ^ 40 \<le> x" unfolding x_def by (rule power_increasing) simp_all
  moreover have "2 * x \<le> 2 ^ 1024" unfolding x_def power_Suc [symmetric] by (rule power_increasing) simp_all
  ultimately have m: "2 ^ 40 \<le> maxDouble" unfolding maxDouble_def x_def [symmetric] by linarith
  have "\<bar>of_int n :: rat\<bar> < of_int (2 ^ 40)" using assms by (metis of_int_abs of_int_less_iff)
  then have "\<bar>of_int n :: rat\<bar> < maxDouble" using m by simp
  then show ?thesis by (auto simp: boundNum_def abs_less_iff)
qed

lemma textNum_toString:
  assumes "0 \<le> n" "n < 2 ^ 40"
  shows "textNum (bigIntToString n) = JFin (of_int n)"
proof -
  have d: "list_all isDigit (bigIntToString n)" "bigIntToString n \<noteq> []"
    using allDigits_toString [OF assms(1)] by (auto simp: allDigits_def)
  then have "bigIntToString n \<notin> {''Infinity'', ''+Infinity'', ''-Infinity''}" by (auto simp: isDigit_def)
  moreover have "numberOf (bigIntToString n) = Some (of_int n)"
    using numberOf_digits [OF d] assms(1) by (simp add: bigIntToString_def digitsVal_digitsOf)
  ultimately show ?thesis using d assms by (simp add: textNum_def trimWhite_digits boundNum_int)
qed

lemma cursor_query:
  "queryOf ''cursor'' (epochsPath None) = None"
  "c \<noteq> 0 \<Longrightarrow> queryOf ''cursor'' (epochsPath (Some c)) = Some (JStr (bigIntToString c))"
  by (simp_all add: queryOf_def epochsPath_def dropWhile_append takeWhile_append)

lemma pageLimit_default: "wholeNum (pageLimit None) = Some 20"
proof -
  have "\<lfloor>20 :: rat\<rfloor> = 20" by (metis floor_of_int of_int_numeral)
  then show ?thesis by (simp add: pageLimit_def orElse_def wholeNum_def)
qed

definition belowCursor :: "int option \<Rightarrow> megapotEpoch \<Rightarrow> bool" where
  "belowCursor cur e = (case cur of None \<Rightarrow> True | Some c \<Rightarrow> megapotId e < c)"

lemma belowCursor_fun: "belowCursor None = (\<lambda>e. True)" "belowCursor (Some c) = (\<lambda>e. megapotId e < c)"
  by (simp_all add: belowCursor_def fun_eq_iff)

lemma epochsRoute_page:
  assumes "case cur of None \<Rightarrow> True | Some c \<Rightarrow> 0 < c \<and> c < 2 ^ 31"
  shows "epochsRoute env None (queryOf ''cursor'' (epochsPath cur)) w =
    (let page = take 20 (filter (belowCursor cur) (revealedNewest (protoEnv.pNow env) w))
     in Ok (map (viewEpoch env) page, if length page = 20 then Some (megapotId (last page)) else None))"
proof -
  have f: "rev (sort_key megapotId (filter (\<lambda>e. revealedEpochWhere (protoEnv.pNow env) e \<and> P e) (epochs w)))
      = filter P (revealedNewest (protoEnv.pNow env) w)" for P
    unfolding revealedNewest_def rev_filter [symmetric] filter_sort filter_filter ..
  have l: "(int (length xs) = 20) = (length xs = 20)" for xs :: "megapotEpoch list" by linarith
  show ?thesis
  proof (cases cur)
    case None
    then show ?thesis
      using f [of "\<lambda>_. True"]
      by (simp add: epochsRoute_def cursor_query pageLimit_default belowCursor_fun prismaTake_def Let_def l)
  next
    case (Some c)
    then have c: "0 < c" "c < 2 ^ 31" using assms by simp_all
    have q: "queryNum (queryOf ''cursor'' (epochsPath (Some c))) = JFin (of_int c)"
      using c by (simp add: cursor_query textNum_toString)
    have wn: "wholeNum (JFin (of_int c)) = Some c" by (simp add: wholeNum_def)
    show ?thesis
      using c f [of "\<lambda>e. megapotId e < c"]
      by (simp add: epochsRoute_def q wn pageLimit_default belowCursor_fun prismaTake_def Let_def l Some fitsInt_def)
  qed
qed

lemma newest_below:
  assumes "sorted_wrt (\<lambda>a b. megapotId b < megapotId a) es" "0 < k" "k \<le> length es"
  shows "filter (\<lambda>e. megapotId e < megapotId (es ! (k - 1))) es = drop k es"
proof -
  have "filter (\<lambda>e. megapotId e < megapotId (es ! (k - 1))) (take k es) = []"
  proof -
    have "megapotId (es ! (k - 1)) \<le> megapotId e" if e: "e \<in> set (take k es)" for e
    proof -
      obtain j where "j < length (take k es)" "take k es ! j = e" using e [unfolded in_set_conv_nth] by blast
      then have j: "j < k" "e = es ! j" by simp_all
      have "j < k - 1 \<or> j = k - 1" "k - 1 < length es" using j(1) assms(3) by linarith+
      then show ?thesis using j assms(2,3) sorted_wrt_nth_less [OF assms(1), of j "k - 1"] by auto
    qed
    then show ?thesis by (auto simp: filter_empty_conv not_less)
  qed
  moreover have "filter (\<lambda>e. megapotId e < megapotId (es ! (k - 1))) (drop k es) = drop k es"
  proof -
    have "megapotId e < megapotId (es ! (k - 1))" if e: "e \<in> set (drop k es)" for e
    proof -
      obtain j where "j < length (drop k es)" "drop k es ! j = e" using e [unfolded in_set_conv_nth] by blast
      then have j: "k + j < length es" "e = es ! (k + j)" by simp_all
      then show ?thesis using sorted_wrt_nth_less [OF assms(1), of "k - 1" "k + j"] assms(2) by auto
    qed
    then show ?thesis by (simp add: filter_id_conv)
  qed
  ultimately show ?thesis by (metis append_self_conv2 append_take_drop_id filter_append)
qed

lemma newest_sorted:
  assumes "distinct (map megapotId (epochs w))"
  shows "sorted_wrt (\<lambda>a b. megapotId b < megapotId a) (revealedNewest now w)"
proof -
  let ?es = "filter (revealedEpochWhere now) (epochs w)"
  have "distinct (map megapotId (sort_key megapotId ?es))"
    using distinct_map_filter [OF assms] by (simp add: distinct_map)
  then have "sorted_wrt (<) (map megapotId (sort_key megapotId ?es))"
    by (simp add: strict_sorted_iff)
  then show ?thesis by (simp add: revealedNewest_def sorted_wrt_rev sorted_wrt_map)
qed

lemma followEpochs_drop:
  assumes s: "sorted_wrt (\<lambda>a b. megapotId b < megapotId a) (revealedNewest (protoEnv.pNow env) w)"
    and ids: "\<And>e. e \<in> set (epochs w) \<Longrightarrow> 0 < megapotId e \<and> megapotId e < 2 ^ 31"
  shows "case cur of None \<Rightarrow> True | Some c \<Rightarrow> 0 < c \<and> c < 2 ^ 31
    \<Longrightarrow> filter (belowCursor cur) (revealedNewest (protoEnv.pNow env) w) = drop k (revealedNewest (protoEnv.pNow env) w)
    \<Longrightarrow> k \<le> length (revealedNewest (protoEnv.pNow env) w) \<Longrightarrow> length (revealedNewest (protoEnv.pNow env) w) < k + n
    \<Longrightarrow> followEpochs n env cur w = Some (map (viewEpoch env) (drop k (revealedNewest (protoEnv.pNow env) w)))"
proof (induction n arbitrary: cur k)
  case 0
  then show ?case by simp
next
  case (Suc n)
  let ?R = "revealedNewest (protoEnv.pNow env) w"
  show ?case
  proof (cases "k + 20 \<le> length ?R")
    case True
    let ?c = "megapotId (?R ! (k + 20 - 1))"
    have "?R ! (k + 20 - 1) \<in> set (epochs w)"
      using True nth_mem [of "k + 20 - 1" ?R] by (auto simp: revealedNewest_def)
    then have c: "0 < ?c" "?c < 2 ^ 31" using ids by blast+
    have last: "last (take 20 (drop k ?R)) = ?R ! (k + 20 - 1)"
      using True by (simp add: last_conv_nth add.commute)
    have "filter (belowCursor (Some ?c)) ?R = drop (k + 20) ?R"
      using newest_below [OF s, of "k + 20"] True by (simp add: belowCursor_fun)
    then have "followEpochs n env (Some ?c) w = Some (map (viewEpoch env) (drop (k + 20) ?R))"
      using c Suc.prems(4) True by (intro Suc.IH) auto
    moreover have "drop k ?R = take 20 (drop k ?R) @ drop (k + 20) ?R"
      by (metis add.commute append_take_drop_id drop_drop)
    ultimately show ?thesis
      using True by (simp add: epochsRoute_page [OF Suc.prems(1)] Suc.prems(2) last Let_def flip: map_append)
  next
    case False
    then have "length ?R - k \<noteq> 20" using Suc.prems(3) by linarith
    then show ?thesis
      using False by (simp add: epochsRoute_page [OF Suc.prems(1)] Suc.prems(2) Let_def)
  qed
qed

text \<open>
  C35: a browser that follows \<open>nextCursor\<close> from the newest page is given every revealed epoch exactly
  once, newest first, and then no further page; the cursor survives its way through the query text.
  Unique ids hold after any run of the backend; the ids are those an integer column can hold.
\<close>
theorem epochs_pages_cover:
  assumes "\<And>e. e \<in> set (epochs (backendAfter acts)) \<Longrightarrow> 0 < megapotId e \<and> megapotId e < 2 ^ 31"
  shows "followEpochs (Suc (length (epochs (backendAfter acts)))) env None (backendAfter acts)
    = Some (map (viewEpoch env) (revealedNewest (protoEnv.pNow env) (backendAfter acts)))"
proof -
  let ?w = "backendAfter acts"
  have "distinct (map megapotId (epochs ?w))"
    using reachable_epochs [of acts] by (simp add: epochsSound_def backendAfter_def)
  then have s: "sorted_wrt (\<lambda>a b. megapotId b < megapotId a) (revealedNewest (protoEnv.pNow env) ?w)"
    by (rule newest_sorted)
  have "length (revealedNewest (protoEnv.pNow env) ?w) \<le> length (epochs ?w)"
    by (simp add: revealedNewest_def)
  then show ?thesis
    using followEpochs_drop [OF s assms, of None 0 "Suc (length (epochs ?w))"]
    by (simp add: belowCursor_fun del: followEpochs.simps)
qed

text \<open>A boot that finds two settled rounds of Megapot, and the browser afterwards.\<close>

definition settledRound :: "string \<Rightarrow> int \<Rightarrow> megapotRound" where
  "settledRound i ends = (liveRound i ends)\<lparr> round_status := ''settled'', settled_at := DateMs ends,
     top_prize_amount := Some \<lparr> tokAmount = Some ''900000000'', tokDecimals = Some 6 \<rparr>,
     winning_numbers := Some \<lparr> wnNormals = [1, 2, 3, 4, 5], wnBonusball = 3 \<rparr>,
     prize_tiers := Some [\<lparr> tier_id = 3, tierPayout = \<lparr> tokAmount = Some ''2000000'', tokDecimals = Some 6 \<rparr>,
       tier_ticket_count = 4 \<rparr>] \<rparr>"

definition firstBoot :: "act list" where
  "firstBoot = [Boot 3 False rollEnv (\<lambda>k. Inl ''offline'')
     (\<lambda>c. Inr \<lparr> pageData = [settledRound ''6'' 500, settledRound ''5'' 400], next_cursor = None, page_has_more = False \<rparr>) rollEnv]"

theorem epochs_pages_cover_witness:
  "map_option (map evId) (followEpochs 3 (protoSample 9000000) None (backendAfter firstBoot)) = Some [6, 5]"
proof -
  have ids: "map megapotId (epochs (backendAfter firstBoot)) = [6, 5]" by code_simp
  have small: "0 < megapotId e \<and> megapotId e < 2 ^ 31" if "e \<in> set (epochs (backendAfter firstBoot))" for e
  proof -
    have "megapotId e \<in> set (map megapotId (epochs (backendAfter firstBoot)))" using that by simp
    then show ?thesis unfolding ids by auto
  qed
  have n: "length (epochs (backendAfter firstBoot)) = 2" using ids by (metis length_map length_Cons list.size(3) numeral_2_eq_2)
  have v: "map (\<lambda>e. evId (viewEpoch (protoSample 9000000) e)) (revealedNewest (protoEnv.pNow (protoSample 9000000)) (backendAfter firstBoot)) = [6, 5]"
    by code_simp
  show ?thesis
    using epochs_pages_cover [of firstBoot "protoSample 9000000", OF small] n v
    by (simp add: eval_nat_numeral comp_def del: followEpochs.simps)
qed

section \<open>What the browser reads from the chain\<close>

text \<open>
  \<open>Number\<close> of an on-chain 64-bit value throws beyond 53 bits. The account is what Anchor decodes; a
  read that fails leaves the query without data.
\<close>

record lordsPotAccount =
  laNormalMax :: int
  laBonusMax :: int
  laTicketPrice :: int
  laOngoingEpoch :: int
  laPaused :: bool
  laAdmin :: string

definition toNumber :: "int \<Rightarrow> (string, int) result" where
  "toNumber n = (if \<bar>n\<bar> < 2 ^ 53 then Inr n else Inl ''Number can only safely store up to 53 bits'')"

definition fetchOnChainState :: "(string, lordsPotAccount) result \<Rightarrow> (string, onChainView) result" where
  "fetchOnChainState fetched =
     (case fetched of Inl e \<Rightarrow> Inl e
      | Inr a \<Rightarrow> (case (toNumber (laTicketPrice a), toNumber (laOngoingEpoch a)) of
          (Inl e, _) \<Rightarrow> Inl e | (_, Inl e) \<Rightarrow> Inl e
        | (Inr price, Inr epoch) \<Rightarrow> Inr \<lparr> ocNormalMax = laNormalMax a, ocBonusMax = laBonusMax a, ocTicketPrice = price,
            ocPaused = laPaused a, ocAdmin = laAdmin a \<rparr>))"

text \<open>The amount of the token account; no account, a failed read or an unreadable amount count as nothing.\<close>

definition fetchUsdcBalance :: "(string, string) result \<Rightarrow> int" where
  "fetchUsdcBalance answer = (case answer of Inl e \<Rightarrow> 0 | Inr s \<Rightarrow> (case bigIntOf s of None \<Rightarrow> 0 | Some n \<Rightarrow> n))"

text \<open>Counter-signing and sending a voucher.\<close>

record wallet =
  wlPublicKey :: "string option"
  wlSign :: "(string \<Rightarrow> (string, string) result) option"
  wlSignsAll :: bool

definition hasProgram :: "wallet \<Rightarrow> bool" where
  "hasProgram wl \<longleftrightarrow> wlPublicKey wl \<noteq> None \<and> wlSign wl \<noteq> None \<and> wlSignsAll wl"

definition submitClaimVoucher ::
  "wallet \<Rightarrow> (string \<Rightarrow> (string, string) result) \<Rightarrow> (string \<Rightarrow> (string, string) result) \<Rightarrow> string \<Rightarrow> (string, string) result" where
  "submitClaimVoucher wl decode send tx64 =
     (case wlSign wl of None \<Rightarrow> Inl ''Wallet does not support signing''
      | Some sign \<Rightarrow>
        (case decode tx64 of Inl e \<Rightarrow> Inl e
         | Inr tx \<Rightarrow> (case sign tx of Inl e \<Rightarrow> Inl e | Inr raw \<Rightarrow> send raw)))"

text \<open>A balance that could not be read switches the purchase off, as a wallet without a token account.\<close>

lemma unread_balance_disables:
  assumes "hdBalance d = Some (fetchUsdcBalance (Inl e))" "0 < totalCostUnits (hdOnChain d) (hBasket st)"
  shows "Buy \<notin> set (clicks (homePage env d st))"
  using assms by (auto simp: buy_offered buyDisabled_def cannotAfford_def fetchUsdcBalance_def allComplete_def)

end
