(* ===== verification/MegapotClient.thy ===== *)
theory MegapotClient
  imports ApiContract
begin

text \<open>
  The HTTP half of \<open>services/megapotService.ts\<close>: requests, the pacing in front of them, the Dune
  metrics (fetched by no caller at present), and what the backfill stores and cannot repair. The network
  is a parameter: a request is answered, or fails with the text of an error.
\<close>

section \<open>Requests\<close>

record 'b httpAnswer =
  haStatus :: nat
  haReason :: string
  haBody :: "'b option"

definition answerOk :: "'b httpAnswer \<Rightarrow> bool" where "answerOk a \<longleftrightarrow> 200 \<le> haStatus a \<and> haStatus a < 300"

definition statusText :: "'b httpAnswer \<Rightarrow> string" where
  "statusText a = bigIntToString (int (haStatus a)) @ '' '' @ haReason a"

definition megapotFetch :: "(string \<Rightarrow> (string, 'b httpAnswer) result) \<Rightarrow> string \<Rightarrow> (string, 'b httpAnswer) result" where
  "megapotFetch net path =
     (case net path of Inl e \<Rightarrow> Inl e
      | Inr a \<Rightarrow> (if answerOk a then Inr a
          else if haStatus a = 429 then Inl ''RATE_LIMIT_EXCEEDED''
          else Inl (''Megapot API '' @ path @ '': '' @ statusText a)))"

text \<open>\<open>response.json()\<close>.\<close>

definition jsonOf :: "(string, 'b httpAnswer) result \<Rightarrow> (string, 'b) result" where
  "jsonOf r = (case r of Inl e \<Rightarrow> Inl e | Inr a \<Rightarrow> (case haBody a of None \<Rightarrow> Inl ''SyntaxError'' | Some b \<Rightarrow> Inr b))"

definition fetchActiveRoundRaw :: "(string \<Rightarrow> (string, megapotRound httpAnswer) result) \<Rightarrow> (string, megapotRound) result" where
  "fetchActiveRoundRaw net = jsonOf (megapotFetch net ''/rounds/active'')"

definition fetchRoundById ::
  "(string \<Rightarrow> (string, megapotRound httpAnswer) result) \<Rightarrow> int \<Rightarrow> (string, megapotRound) result" where
  "fetchRoundById net i = jsonOf (megapotFetch net (''/rounds/'' @ bigIntToString i))"

text \<open>The path of a page; \<open>enc\<close> is the escaping of \<open>URLSearchParams\<close>.\<close>

definition roundsPath :: "(string \<Rightarrow> string) \<Rightarrow> string option \<Rightarrow> string" where
  "roundsPath enc cursor = ''/rounds?limit=100''
     @ (case cursor of None \<Rightarrow> [] | Some c \<Rightarrow> if c = [] then [] else ''&cursor='' @ enc c)"

definition fetchRoundsPage ::
  "(string \<Rightarrow> string) \<Rightarrow> (string \<Rightarrow> (string, roundsPage httpAnswer) result) \<Rightarrow> string option \<Rightarrow> (string, roundsPage) result" where
  "fetchRoundsPage enc net cursor = jsonOf (megapotFetch net (roundsPath enc cursor))"

section \<open>Dune\<close>

text \<open>A field is missing, or a text, or a number of a type \<open>'n\<close>.\<close>

record 'n duneRow =
  jackpots_won :: "(string + 'n) option"
  prizes_won :: "(string + 'n) option"
  baseVault_tvl :: "'n option"
  relayer_eth :: "'n option"
  referrer_earned :: "'n option"
  total_tickets_bought :: "'n option"

text \<open>\<open>data.result?.rows\<close> is \<open>None\<close> when absent; a request that fails or is aborted after five seconds is an error.\<close>

definition fetchDuneMetrics :: "string \<Rightarrow> string \<Rightarrow> (string, 'n duneRow list option httpAnswer) result \<Rightarrow> 'n duneRow option" where
  "fetchDuneMetrics url key answer =
     (if url = [] \<or> key = [] then None
      else case answer of Inl e \<Rightarrow> None
        | Inr a \<Rightarrow>
          (if \<not> answerOk a then None
           else case haBody a of Some (Some [r]) \<Rightarrow> Some r | _ \<Rightarrow> None))"

section \<open>Pacing\<close>

text \<open>
  \<open>rateLimit\<close> reads the time of the last request, sleeps up to a second after it, and writes the time
  only then. \<open>lmWaiting\<close> holds the wake-up times of the calls asleep, \<open>lmSent\<close> the times requests left.
\<close>

record limiter =
  lmLast :: int
  lmWaiting :: "int list"
  lmSent :: "int list"

definition freshLimiter :: limiter where "freshLimiter = \<lparr> lmLast = 0, lmWaiting = [], lmSent = [] \<rparr>"

definition wakeAt :: "int \<Rightarrow> int \<Rightarrow> int" where "wakeAt prev now = (if now - prev < 1000 then now + (1000 - (now - prev)) else now)"

inductive limStep :: "limiter \<Rightarrow> limiter \<Rightarrow> bool" where
  lm_call: "limStep s (s\<lparr>lmWaiting := lmWaiting s @ [wakeAt (lmLast s) now]\<rparr>)"
| lm_send: "lmWaiting s = us @ wake # vs \<Longrightarrow> wake \<le> t \<Longrightarrow>
    limStep s (s\<lparr>lmWaiting := us @ vs, lmLast := t, lmSent := lmSent s @ [t]\<rparr>)"

text \<open>Calls one after the other: a call starts only when none is asleep.\<close>

inductive limSequential :: "limiter \<Rightarrow> bool" where
  ls_fresh: "limSequential freshLimiter"
| ls_call: "limSequential s \<Longrightarrow> lmWaiting s = [] \<Longrightarrow> limSequential (s\<lparr>lmWaiting := [wakeAt (lmLast s) now]\<rparr>)"
| ls_send: "limSequential s \<Longrightarrow> lmWaiting s = [wake] \<Longrightarrow> wake \<le> t \<Longrightarrow>
    limSequential (s\<lparr>lmWaiting := [], lmLast := t, lmSent := lmSent s @ [t]\<rparr>)"

lemma wakeAt_late: "wakeAt prev now \<ge> prev + 1000"
  by (simp add: wakeAt_def)

lemma sequential_spaced:
  assumes "limSequential s"
  shows "sorted_wrt (\<lambda>a b. a + 1000 \<le> b) (lmSent s) \<and> (\<forall>t \<in> set (lmSent s). t \<le> lmLast s)
    \<and> (\<forall>wake \<in> set (lmWaiting s). lmLast s + 1000 \<le> wake)"
  using assms
proof induction
  case (ls_send s wake t)
  then have "a + 1000 \<le> t" if "a \<in> set (lmSent s)" for a using that by force
  then show ?case using ls_send by (auto simp: sorted_wrt_append intro: order_trans)
qed (auto simp: freshLimiter_def wakeAt_late)

text \<open>Two calls that overlap read the same last time, sleep to the same moment and leave together.\<close>

lemma overlapping_calls_leave_together:
  "limStep\<^sup>*\<^sup>* freshLimiter \<lparr> lmLast = 1000, lmWaiting = [], lmSent = [1000, 1000] \<rparr>"
proof -
  define s1 where "s1 = freshLimiter\<lparr>lmWaiting := [wakeAt 0 0]\<rparr>"
  define s2 where "s2 = freshLimiter\<lparr>lmWaiting := [wakeAt 0 0, wakeAt 0 1]\<rparr>"
  define s3 where "s3 = \<lparr> lmLast = 1000, lmWaiting = [wakeAt 0 1], lmSent = [1000] \<rparr>"
  have "limStep freshLimiter s1" using lm_call [of freshLimiter 0] by (simp add: s1_def freshLimiter_def)
  moreover have "limStep s1 s2" using lm_call [of s1 1] by (simp add: s1_def s2_def freshLimiter_def)
  moreover have "limStep s2 s3"
    using lm_send [of s2 "[]" "wakeAt 0 0" "[wakeAt 0 1]" 1000] by (simp add: s2_def s3_def freshLimiter_def wakeAt_def)
  moreover have "limStep s3 \<lparr> lmLast = 1000, lmWaiting = [], lmSent = [1000, 1000] \<rparr>"
    using lm_send [of s3 "[]" "wakeAt 0 1" "[]" 1000] by (simp add: s3_def wakeAt_def)
  ultimately show ?thesis by (meson converse_rtranclp_into_rtranclp rtranclp.rtrancl_refl)
qed

section \<open>What the backfill cannot repair\<close>

definition epochIds :: "world \<Rightarrow> int set" where "epochIds w = megapotId ` set (epochs w)"

lemma updEpochs_ids:
  assumes "epochPayload d = Inr f"
  shows "epochIds (updEpochs sel f w) = epochIds w"
proof -
  have "megapotId (f e) = megapotId e" for e using epochPayload_step(1) [OF assms] by (simp add: epochStep_def)
  then have "map megapotId (updateMany sel f es) = map megapotId es" for es by (induction es) simp_all
  from arg_cong [OF this, of set] show ?thesis by (simp add: epochIds_def)
qed

lemma upsert_ids:
  assumes "upsertSettledEpoch d w = (e, v)" "j \<in> epochIds v"
  shows "j \<in> epochIds w \<or> parseInt10 (round_id d) = Some j"
proof (cases "epochPayload d")
  case (Inl err)
  then show ?thesis using assms by (simp add: upsertSettledEpoch_def split: if_splits)
next
  case (Inr f)
  have upd: "epochIds (updEpochs sel f w) = epochIds w" for sel by (rule updEpochs_ids [OF Inr])
  have new: "megapotId (f (blankEpoch i)) = i" for i
    using epochPayload_step(1) [OF Inr, of "blankEpoch i"] by (simp add: epochStep_def blankEpoch_def)
  show ?thesis
  proof (cases "parseInt10 (round_id d)")
    case None
    then show ?thesis using assms Inr by (simp add: upsertSettledEpoch_def split: if_splits)
  next
    case (Some i)
    then have "v = w \<or> v = updEpochs (\<lambda>e. megapotId e = i) f w \<or> v = w\<lparr>epochs := epochs w @ [f (blankEpoch i)]\<rparr>"
      using assms(1) Inr by (simp add: upsertSettledEpoch_def split: if_splits)
    then show ?thesis
    proof (elim disjE)
      assume "v = w" then show ?thesis using assms(2) by simp
    next
      assume "v = updEpochs (\<lambda>e. megapotId e = i) f w" then show ?thesis using assms(2) upd by simp
    next
      assume "v = w\<lparr>epochs := epochs w @ [f (blankEpoch i)]\<rparr>"
      then show ?thesis using assms(2) new Some by (auto simp: epochIds_def)
    qed
  qed
qed

lemma syncPage_ids: "syncPage payouts highest ds w = (e, v) \<Longrightarrow> j \<in> epochIds v \<Longrightarrow> j \<in> epochIds w \<or> highest < j"
proof (induction ds arbitrary: w)
  case (Cons d ds)
  have a: "epochIds u = epochIds w" if "processActiveRound payouts d w = (x, u)" for x u
    using processActive_epochs' [OF that] by (simp add: epochIds_def)
  obtain x u where act: "processActiveRound payouts d w = (x, u)" by fastforce
  obtain y v' where ups: "upsertSettledEpoch d w = (y, v')" by fastforce
  consider (active) "round_status d = ''active''" | (settled) "round_status d = ''settled''"
    | (other) "round_status d \<noteq> ''active''" "round_status d \<noteq> ''settled''" by blast
  then show ?case
  proof cases
    case active
    then show ?thesis using Cons act a [OF act] by (cases x) auto
  next
    case settled
    show ?thesis
    proof (cases "parseInt10 (round_id d)")
      case None
      then show ?thesis using Cons ups upsert_ids [OF ups] settled by (cases y) auto
    next
      case (Some i)
      show ?thesis
      proof (cases "i \<le> highest")
        case True
        then show ?thesis using Cons.prems settled Some by simp
      next
        case False
        then have low: "j \<in> epochIds w \<or> highest < j" if "j \<in> epochIds v'"
          using upsert_ids [OF ups that] Some by auto
        show ?thesis
        proof (cases y)
          case None
          then have "syncPage payouts highest ds v' = (e, v)" using Cons.prems settled Some False ups by simp
          then show ?thesis using Cons.IH Cons.prems(2) low by blast
        next
          case (Some err)
          then show ?thesis using Cons.prems settled \<open>parseInt10 (round_id d) = Some i\<close> False ups low by simp
        qed
      qed
    qed
  next
    case other
    then show ?thesis using Cons by auto
  qed
qed simp

lemma syncPages_ids:
  "syncPages n payouts fetch highest cursor w = Some v \<Longrightarrow> j \<in> epochIds v \<Longrightarrow> j \<in> epochIds w \<or> highest < j"
proof (induction n arbitrary: cursor w)
  case (Suc n)
  obtain e u where u: "syncPage payouts highest (pageData (projr (fetch cursor))) w = (e, u)" by fastforce
  show ?case
    using Suc.prems Suc.IH [of _ u] u syncPage_ids [OF u, of j]
    by (auto split: sum.splits if_splits pageEnd.splits)
qed simp

text \<open>
  A backfill alone never stores a round below the newest one it finds in the table: rounds that a backfill
  cut off halfway left out stay out, unless the settlement worker asks for one, or the transition that concludes it.
\<close>

lemma backfill_skips_gaps:
  assumes "syncAllSettledRounds n payouts fetch w = Some v" "i < highestEpoch w" "i \<notin> epochIds w"
  shows "i \<notin> epochIds v"
  using syncPages_ids [of n payouts fetch "highestEpoch w" None w v i] assms by (auto simp: syncAllSettledRounds_def)

text \<open>The first backfill is cut off after a page; the second reads every round and does not store round 4.\<close>

definition allPayouts :: "int \<Rightarrow> (string, int list) result" where
  "allPayouts i = Inr (replicate 12 5000000)"

definition cutOff :: "world option" where
  "cutOff = syncAllSettledRounds 3 allPayouts
     (\<lambda>c. if c = None then Inr \<lparr> pageData = [settledRound ''6'' 500, settledRound ''5'' 400], next_cursor = Some ''p'',
            page_has_more = True \<rparr> else Inl ''RATE_LIMIT_EXCEEDED'') emptyWorld"

definition threeRounds :: "string option \<Rightarrow> (string, roundsPage) result" where
  "threeRounds c = Inr \<lparr> pageData = map (\<lambda>i. settledRound i 500) [''6'', ''5'', ''4''], next_cursor = None, page_has_more = False \<rparr>"

lemma cutOff_stays:
  "map_option (map megapotId \<circ> epochs) cutOff = Some [6, 5]"
  "map_option (map megapotId \<circ> epochs) (Option.bind cutOff (syncAllSettledRounds 3 allPayouts threeRounds)) = Some [6, 5]"
  by code_simp+

section \<open>What a backfill stores\<close>

definition isSettled :: "megapotRound \<Rightarrow> bool" where "isSettled d \<longleftrightarrow> round_status d = ''settled''"

definition idOf :: "megapotRound \<Rightarrow> int" where "idOf d = the (parseInt10 (round_id d))"

text \<open>A round the sync does not stumble over.\<close>

definition readable :: "(int \<Rightarrow> (string, int list) result) \<Rightarrow> megapotRound \<Rightarrow> bool" where
  "readable payouts d \<longleftrightarrow> (round_status d = ''active'' \<longrightarrow> (\<forall>w. fst (processActiveRound payouts d w) = None))
     \<and> (isSettled d \<longrightarrow> storable d (idOf d))"

text \<open>The API serves the rounds page by page, each page but the last with a cursor to the next.\<close>

fun serves :: "(string option \<Rightarrow> (string, roundsPage) result) \<Rightarrow> string option \<Rightarrow> megapotRound list list \<Rightarrow> bool" where
  "serves fetch c [] = (\<exists>p. fetch c = Inr p \<and> pageData p = [])"
| "serves fetch c (ds # pages) = (\<exists>p. fetch c = Inr p \<and> pageData p = ds \<and> ds \<noteq> []
     \<and> (if page_has_more p \<and> truthyStr (next_cursor p) then serves fetch (next_cursor p) pages else pages = []))"

text \<open>The row a settled round becomes.\<close>

definition rowOf :: "megapotRound \<Rightarrow> megapotEpoch \<Rightarrow> bool" where
  "rowOf d e \<longleftrightarrow> megapotId e = idOf d
     \<and> (\<exists>wn. winning_numbers d = Some wn \<and> winningNormals e = wnNormals wn \<and> winningBonusBall e = wnBonusball wn)"

definition newRounds :: "int \<Rightarrow> megapotRound list \<Rightarrow> megapotRound list" where
  "newRounds h ds = filter (\<lambda>d. isSettled d \<and> h < idOf d) ds"

definition newestFirst :: "megapotRound list \<Rightarrow> bool" where
  "newestFirst ds \<longleftrightarrow> sorted_wrt (\<lambda>a b. idOf b < idOf a) (filter isSettled ds)"

lemma upsert_new:
  assumes "storable d (idOf d)" "idOf d \<notin> epochIds w"
  shows "\<exists>e. upsertSettledEpoch d w = (None, w\<lparr>epochs := epochs w @ [e]\<rparr>) \<and> rowOf d e"
proof -
  obtain f where f: "round_status d = ''settled''" "prize_tiers d \<noteq> None" "ticket_count d \<noteq> None"
    "parseInt10 (round_id d) = Some (idOf d)" "epochPayload d = Inr f" using assms(1) by (auto simp: storable_def)
  note p = payload_writes [OF f(5)]
  have none: "\<not> (\<exists>e \<in> set (epochs w). megapotId e = idOf d)"
    using assms(2) unfolding epochIds_def by (metis image_eqI)
  have "rowOf d (f (blankEpoch (idOf d)))" using p(1,3) by (simp add: rowOf_def blankEpoch_def)
  moreover have "winning_numbers d \<noteq> None" using p(3) by blast
  ultimately show ?thesis using f p(2) none by (auto simp: upsertSettledEpoch_def)
qed

lemma rows_ids: "list_all2 rowOf ds es \<Longrightarrow> map megapotId es = map idOf ds"
  by (induction rule: list_all2_induct) (simp_all add: rowOf_def)

lemma newRounds_low: "(\<And>d. d \<in> set ds \<Longrightarrow> isSettled d \<Longrightarrow> idOf d \<le> h) \<Longrightarrow> newRounds h ds = []"
  by (force simp: newRounds_def filter_empty_conv)

lemma newestFirst_Cons:
  "newestFirst (d # ds) \<Longrightarrow> newestFirst ds \<and> (isSettled d \<longrightarrow> (\<forall>x \<in> set ds. isSettled x \<longrightarrow> idOf x < idOf d))"
  by (auto simp: newestFirst_def split: if_splits)

lemma newestFirst_append:
  "newestFirst (xs @ ys) \<Longrightarrow> newestFirst xs \<and> newestFirst ys
     \<and> (\<forall>x \<in> set xs. \<forall>y \<in> set ys. isSettled x \<longrightarrow> isSettled y \<longrightarrow> idOf y < idOf x)"
  by (auto simp: newestFirst_def sorted_wrt_append)

definition pageStores :: "int \<Rightarrow> megapotRound list \<Rightarrow> world \<Rightarrow> pageEnd \<times> world \<Rightarrow> bool" where
  "pageStores h ds w out \<longleftrightarrow> (\<exists>new. epochs (snd out) = epochs w @ new \<and> list_all2 rowOf (newRounds h ds) new)
     \<and> (fst out = PageDone \<or> (fst out = CaughtUp \<and> (\<exists>d \<in> set ds. isSettled d \<and> idOf d \<le> h)))"

lemma pageStores_Cons:
  assumes "pageStores h ds v out" "epochs v = epochs w @ us" "list_all2 rowOf (newRounds h [d]) us"
  shows "pageStores h (d # ds) w out"
proof -
  obtain new where n: "epochs (snd out) = epochs v @ new" "list_all2 rowOf (newRounds h ds) new"
    using assms(1) by (auto simp: pageStores_def)
  have "newRounds h (d # ds) = newRounds h [d] @ newRounds h ds" by (simp add: newRounds_def)
  then have "list_all2 rowOf (newRounds h (d # ds)) (us @ new)" using assms(3) n(2) by (simp add: list_all2_appendI)
  then show ?thesis using assms(1,2) n(1) by (auto simp: pageStores_def)
qed

lemma syncPage_stores:
  assumes "\<And>d. d \<in> set ds \<Longrightarrow> readable payouts d" "newestFirst ds"
    "\<And>d. d \<in> set ds \<Longrightarrow> isSettled d \<Longrightarrow> h < idOf d \<Longrightarrow> idOf d \<notin> epochIds w"
  shows "pageStores h ds w (syncPage payouts h ds w)"
  using assms
proof (induction ds arbitrary: w)
  case Nil
  then show ?case by (simp add: pageStores_def newRounds_def)
next
  case (Cons d ds)
  have below: "isSettled d \<Longrightarrow> x \<in> set ds \<Longrightarrow> isSettled x \<Longrightarrow> idOf x < idOf d" and rest: "newestFirst ds" for x
    using newestFirst_Cons [OF Cons.prems(2)] by blast+
  have IH: "pageStores h ds v (syncPage payouts h ds v)"
    if "\<And>x. x \<in> set ds \<Longrightarrow> isSettled x \<Longrightarrow> h < idOf x \<Longrightarrow> idOf x \<notin> epochIds v" for v
    using Cons.IH [OF Cons.prems(1) rest that] by simp
  consider (active) "round_status d = ''active''" | (settled) "round_status d = ''settled''"
    | (other) "round_status d \<noteq> ''active''" "round_status d \<noteq> ''settled''" by blast
  then show ?case
  proof cases
    case active
    obtain v where v: "processActiveRound payouts d w = (None, v)"
      using Cons.prems(1) [of d] active by (cases "processActiveRound payouts d w") (auto simp: readable_def dest: spec [of _ w])
    have e: "epochs v = epochs w" by (rule processActive_epochs' [OF v])
    have "pageStores h ds v (syncPage payouts h ds v)"
      by (rule IH) (use Cons.prems(3) e in \<open>simp add: epochIds_def\<close>)
    then have "pageStores h (d # ds) w (syncPage payouts h ds v)"
      by (rule pageStores_Cons [of _ _ _ _ _ "[]"]) (use e active in \<open>simp_all add: newRounds_def isSettled_def\<close>)
    then show ?thesis using active v by simp
  next
    case settled
    then have st: "storable d (idOf d)" using Cons.prems(1) [of d] by (simp add: readable_def isSettled_def)
    then have id: "parseInt10 (round_id d) = Some (idOf d)" by (simp add: storable_def)
    show ?thesis
    proof (cases "idOf d \<le> h")
      case True
      have "newRounds h (d # ds) = []"
        by (rule newRounds_low) (use True below settled in \<open>fastforce simp: isSettled_def\<close>)
      then show ?thesis using settled id True by (auto simp: pageStores_def isSettled_def)
    next
      case False
      then obtain e where e: "upsertSettledEpoch d w = (None, w\<lparr>epochs := epochs w @ [e]\<rparr>)" "rowOf d e"
        using upsert_new [OF st, of w] Cons.prems(3) [of d] settled by (auto simp: isSettled_def)
      have "pageStores h ds (w\<lparr>epochs := epochs w @ [e]\<rparr>) (syncPage payouts h ds (w\<lparr>epochs := epochs w @ [e]\<rparr>))"
      proof (rule IH)
        fix x assume x: "x \<in> set ds" "isSettled x" "h < idOf x"
        have "idOf x < idOf d" using below x settled by (simp add: isSettled_def)
        then show "idOf x \<notin> epochIds (w\<lparr>epochs := epochs w @ [e]\<rparr>)"
          using Cons.prems(3) [of x] x e(2) by (auto simp: epochIds_def rowOf_def)
      qed
      then have "pageStores h (d # ds) w (syncPage payouts h ds (w\<lparr>epochs := epochs w @ [e]\<rparr>))"
        by (rule pageStores_Cons [of _ _ _ _ _ "[e]"]) (use e(2) False settled in \<open>simp_all add: newRounds_def isSettled_def\<close>)
      then show ?thesis using settled id False e(1) by simp
    qed
  next
    case other
    have "pageStores h ds w (syncPage payouts h ds w)" by (rule IH) (use Cons.prems(3) in simp)
    then have "pageStores h (d # ds) w (syncPage payouts h ds w)"
      by (rule pageStores_Cons [of _ _ _ _ _ "[]"]) (use other in \<open>simp_all add: newRounds_def isSettled_def\<close>)
    then show ?thesis using other by simp
  qed
qed

lemma syncPages_stores:
  assumes "serves fetch c pages" "length pages < n" "\<And>d. d \<in> set (concat pages) \<Longrightarrow> readable payouts d"
    "newestFirst (concat pages)" "\<And>d. d \<in> set (concat pages) \<Longrightarrow> isSettled d \<Longrightarrow> h < idOf d \<Longrightarrow> idOf d \<notin> epochIds w"
  shows "\<exists>v new. syncPages n payouts fetch h c w = Some v \<and> epochs v = epochs w @ new
    \<and> list_all2 rowOf (newRounds h (concat pages)) new"
  using assms
proof (induction pages arbitrary: n c w)
  case Nil
  then show ?case by (cases n) (auto simp: newRounds_def)
next
  case (Cons ds pages)
  obtain p where p: "fetch c = Inr p" "pageData p = ds" "ds \<noteq> []"
    "if page_has_more p \<and> truthyStr (next_cursor p) then serves fetch (next_cursor p) pages else pages = []"
    using Cons.prems(1) by auto
  obtain m where m: "n = Suc m" "length pages < m" using Cons.prems(2) by (cases n) auto
  have nf: "newestFirst ds" "newestFirst (concat pages)"
    "\<And>x y. x \<in> set ds \<Longrightarrow> y \<in> set (concat pages) \<Longrightarrow> isSettled x \<Longrightarrow> isSettled y \<Longrightarrow> idOf y < idOf x"
    using newestFirst_append [of ds "concat pages"] Cons.prems(4) by simp_all blast
  have split: "newRounds h (concat (ds # pages)) = newRounds h ds @ newRounds h (concat pages)" by (simp add: newRounds_def)
  obtain e v where out: "syncPage payouts h ds w = (e, v)" by fastforce
  have "pageStores h ds w (e, v)"
    unfolding out [symmetric] by (rule syncPage_stores) (use Cons.prems(3,5) nf(1) in auto)
  then obtain us where us: "epochs v = epochs w @ us" "list_all2 rowOf (newRounds h ds) us"
    and ends: "e = PageDone \<or> (e = CaughtUp \<and> (\<exists>d \<in> set ds. isSettled d \<and> idOf d \<le> h))" by (auto simp: pageStores_def)
  from ends show ?case
  proof (elim disjE conjE bexE)
    fix d assume c: "e = CaughtUp" "d \<in> set ds" "isSettled d" "idOf d \<le> h"
    have "newRounds h (concat pages) = []" by (rule newRounds_low) (use nf(3) c in fastforce)
    then have "list_all2 rowOf (newRounds h (concat (ds # pages))) us" using us(2) unfolding split by simp
    then show ?thesis using us(1) m(1) p(1-3) out c(1) by simp
  next
    assume d: "e = PageDone"
    show ?thesis
    proof (cases "page_has_more p \<and> truthyStr (next_cursor p)")
      case True
      then have sv: "serves fetch (next_cursor p) pages" using p(4) by simp
      have fresh: "idOf x \<notin> epochIds v" if "x \<in> set (concat pages)" "isSettled x" "h < idOf x" for x
      proof
        assume "idOf x \<in> epochIds v"
        moreover have "idOf x \<notin> epochIds w" using Cons.prems(5) [of x] that by simp
        ultimately obtain r where r: "r \<in> set us" "megapotId r = idOf x"
          unfolding epochIds_def us(1) set_append image_Un by (metis Un_iff imageE)
        obtain y where y: "y \<in> set (newRounds h ds)" "rowOf y r"
          using us(2) r(1) by (metis in_set_conv_nth list_all2_conv_all_nth)
        then have "idOf y = idOf x" using r(2) by (simp add: rowOf_def)
        then show False using nf(3) [of y x] y(1) that by (auto simp: newRounds_def)
      qed
      have good: "readable payouts x" if "x \<in> set (concat pages)" for x using Cons.prems(3) that by simp
      obtain v' new where rest: "syncPages m payouts fetch h (next_cursor p) v = Some v'" "epochs v' = epochs v @ new"
        "list_all2 rowOf (newRounds h (concat pages)) new"
        using Cons.IH [OF sv m(2) good nf(2) fresh] by blast
      have "list_all2 rowOf (newRounds h (concat (ds # pages))) (us @ new)"
        unfolding split by (rule list_all2_appendI [OF us(2) rest(3)])
      then show ?thesis using rest(1,2) us(1) m(1) p(1-3) out d True by simp
    next
      case False
      then have "pages = []" using p(4) by (simp split: if_splits)
      then show ?thesis using us m(1) p(1-3) out d False by (auto simp: newRounds_def)
    qed
  qed
qed

lemma highest_bound: "i \<in> epochIds w \<Longrightarrow> i \<le> highestEpoch w"
  by (auto simp: epochIds_def highestEpoch_def)

text \<open>
  C5: when the API serves its rounds page by page, newest first, each round readable, a backfill ends and
  appends to the table exactly one row for each settled round listed above the highest stored one, with
  the round's id and winning numbers, in the order of the list, and changes no row that is there. If the
  table had no gap below its highest round, every settled round the API lists is then stored.
\<close>
theorem backfill_complete:
  assumes "serves fetch None pages" "length pages < fuel" "\<And>d. d \<in> set (concat pages) \<Longrightarrow> readable payouts d"
    and "newestFirst (concat pages)"
  shows "\<exists>v new. syncAllSettledRounds fuel payouts fetch w = Some v \<and> epochs v = epochs w @ new
    \<and> list_all2 rowOf (filter (\<lambda>d. isSettled d \<and> highestEpoch w < idOf d) (concat pages)) new
    \<and> ((\<forall>d \<in> set (concat pages). isSettled d \<and> idOf d \<le> highestEpoch w \<longrightarrow> idOf d \<in> epochIds w)
        \<longrightarrow> (\<forall>d \<in> set (concat pages). isSettled d \<longrightarrow> idOf d \<in> epochIds v))"
proof -
  have "idOf d \<notin> epochIds w" if "highestEpoch w < idOf d" for d
    using highest_bound [of "idOf d" w] that by linarith
  then obtain v new where v: "syncPages fuel payouts fetch (highestEpoch w) None w = Some v" "epochs v = epochs w @ new"
    "list_all2 rowOf (newRounds (highestEpoch w) (concat pages)) new"
    using syncPages_stores [OF assms, of "highestEpoch w" w] by blast
  have "idOf d \<in> epochIds v" if d: "d \<in> set (concat pages)" "isSettled d"
      and gap: "\<forall>d \<in> set (concat pages). isSettled d \<and> idOf d \<le> highestEpoch w \<longrightarrow> idOf d \<in> epochIds w" for d
  proof (cases "idOf d \<le> highestEpoch w")
    case True
    then have "idOf d \<in> epochIds w" using gap d by blast
    then show ?thesis using v(2) by (auto simp: epochIds_def)
  next
    case False
    then have "d \<in> set (newRounds (highestEpoch w) (concat pages))" using d by (auto simp: newRounds_def)
    then obtain e where e: "e \<in> set new" "rowOf d e"
      using v(3) by (metis in_set_conv_nth list_all2_conv_all_nth)
    have "megapotId e \<in> epochIds v" using e(1) v(2) by (simp add: epochIds_def)
    then show ?thesis using e(2) by (simp add: rowOf_def)
  qed
  then show ?thesis using v unfolding newRounds_def syncAllSettledRounds_def by blast
qed

theorem backfill_complete_witness:
  "\<exists>v new. syncAllSettledRounds 2 allPayouts threeRounds emptyWorld = Some v \<and> epochs v = new \<and> map megapotId new = [6, 5, 4]"
proof -
  let ?page = "map (\<lambda>i. settledRound i 500) [''6'', ''5'', ''4'']"
  have ids: "map idOf ?page = [6, 5, 4]" "list_all isSettled ?page" by code_simp+
  have "list_all (\<lambda>d. round_status d = ''settled'' \<and> prize_tiers d \<noteq> None \<and> ticket_count d \<noteq> None
      \<and> parseInt10 (round_id d) = Some (idOf d) \<and> (case epochPayload d of Inl e \<Rightarrow> False | Inr f \<Rightarrow> True)) ?page" by code_simp
  then have good: "readable allPayouts d" if "d \<in> set (concat [?page])" for d
    using that by (auto simp: readable_def storable_def isSettled_def list_all_iff split: sum.splits)
  have serve: "serves threeRounds None [?page]" by (simp add: threeRounds_def truthyStr_def)
  have new: "newestFirst (concat [?page])" using ids by (simp add: newestFirst_def)
  have all: "filter (\<lambda>d. isSettled d \<and> highestEpoch emptyWorld < idOf d) (concat [?page]) = ?page"
    using ids by (simp add: highestEpoch_def emptyWorld_def)
  obtain v rows where v: "syncAllSettledRounds 2 allPayouts threeRounds emptyWorld = Some v" "epochs v = epochs emptyWorld @ rows"
    "list_all2 rowOf ?page rows"
    using backfill_complete [OF serve _ good new, of 2 emptyWorld] unfolding all by auto
  show ?thesis using v(1,2) rows_ids [OF v(3)] ids(1) by (simp add: emptyWorld_def)
qed

end
