(* ===== verification/Workers.thy ===== *)
theory Workers
  imports Ops Harvest PayoutConfirmer
begin

text \<open>
  How the worker process (\<open>workers/index.ts\<close>) keeps its loops going: the two confirmers that schedule
  their next tick when the last has ended, the two interval workers with their \<open>tickInFlight\<close> flag and
  their Redis nudges, the lock that keeps harvest ticks of several processes apart, and what a shutdown
  waits for. Timers and messages fire as steps, in any order the runtime allows.
\<close>

section \<open>Loops that schedule themselves\<close>

text \<open>
  \<open>timer\<close> holds the handle of the last timeout set, fired or not; \<open>lpPending\<close> the timeouts that have
  neither fired nor been cleared, with the time they are due.
\<close>

record loop =
  lpClock :: int
  lpTimer :: "nat option"
  lpPending :: "(nat \<times> int) list"
  lpStopped :: bool
  lpRunning :: nat

definition freshLoop :: loop where
  "freshLoop = \<lparr> lpClock = 0, lpTimer = None, lpPending = [], lpStopped = False, lpRunning = 0 \<rparr>"

text \<open>Handles are unique; \<open>h\<close> is the one the runtime hands out.\<close>

definition scheduleNext :: "nat \<Rightarrow> int \<Rightarrow> loop \<Rightarrow> loop" where
  "scheduleNext h delayMs s =
     (if lpStopped s then s
      else s\<lparr>lpTimer := Some h, lpPending := lpPending s @ [(h, lpClock s + delayMs)]\<rparr>)"

definition startLoop :: "nat \<Rightarrow> int \<Rightarrow> loop \<Rightarrow> loop" where
  "startLoop h pollMs s = (if lpTimer s \<noteq> None \<or> lpStopped s then s else scheduleNext h pollMs s)"

text \<open>The hook that the start registers.\<close>

definition stopLoop :: "loop \<Rightarrow> loop" where
  "stopLoop s = s\<lparr>lpStopped := True,
     lpPending := (case lpTimer s of None \<Rightarrow> lpPending s | Some h \<Rightarrow> filter (\<lambda>p. fst p \<noteq> h) (lpPending s))\<rparr>"

definition timeoutFires :: "nat \<times> int \<Rightarrow> loop \<Rightarrow> loop" where
  "timeoutFires p s = s\<lparr>lpPending := remove1 p (lpPending s), lpRunning := lpRunning s + 1\<rparr>"

definition tickResolves :: "nat \<Rightarrow> int \<Rightarrow> loop \<Rightarrow> loop" where
  "tickResolves h delayMs s = scheduleNext h delayMs (s\<lparr>lpRunning := lpRunning s - 1\<rparr>)"

text \<open>
  \<open>pollMs\<close> is the first delay, \<open>delayOf\<close> the delay after a tick that threw or returned the number of
  rows it found.
\<close>

inductive loopStep :: "int \<Rightarrow> (('e, nat) result \<Rightarrow> int) \<Rightarrow> loop \<Rightarrow> loop \<Rightarrow> bool" for pollMs delayOf where
  lp_time: "0 \<le> d \<Longrightarrow> loopStep pollMs delayOf s (s\<lparr>lpClock := lpClock s + d\<rparr>)"
| lp_start: "h \<notin> fst ` set (lpPending s) \<Longrightarrow> loopStep pollMs delayOf s (startLoop h pollMs s)"
| lp_fire: "p \<in> set (lpPending s) \<Longrightarrow> snd p \<le> lpClock s \<Longrightarrow> loopStep pollMs delayOf s (timeoutFires p s)"
| lp_end: "0 < lpRunning s \<Longrightarrow> h \<notin> fst ` set (lpPending s) \<Longrightarrow>
    loopStep pollMs delayOf s (tickResolves h (delayOf r) s)"
| lp_stop: "lpTimer s \<noteq> None \<Longrightarrow> loopStep pollMs delayOf s (stopLoop s)"

text \<open>
  At most one tick or timeout; exactly one while the loop is on; the timeout is the one \<open>timer\<close> names,
  so the hook clears it, and it is at most \<open>idle\<close> away.
\<close>

definition paced :: "int \<Rightarrow> loop \<Rightarrow> bool" where
  "paced idle s \<longleftrightarrow> lpRunning s \<le> 1
     \<and> (lpTimer s = None \<longrightarrow> lpRunning s = 0) \<and> (lpTimer s = None \<or> lpStopped s \<longrightarrow> lpPending s = [])
     \<and> (lpTimer s \<noteq> None \<and> \<not> lpStopped s \<longrightarrow> length (lpPending s) + lpRunning s = 1)
     \<and> (\<forall>p \<in> set (lpPending s). lpTimer s = Some (fst p) \<and> snd p \<le> lpClock s + idle)"

lemma paced_fresh: "paced idle freshLoop"
  by (simp add: paced_def freshLoop_def)

locale paced_loop =
  fixes pollMs :: int and delayOf :: "('e, nat) result \<Rightarrow> int" and idle :: int
  assumes first: "pollMs \<le> idle" and later: "delayOf r \<le> idle"
begin

lemma step_paced: "loopStep pollMs delayOf s s' \<Longrightarrow> paced idle s \<Longrightarrow> paced idle s'"
proof (induction rule: loopStep.induct)
  case (lp_start h s)
  then show ?case using first by (auto simp: paced_def startLoop_def scheduleNext_def)
next
  case (lp_fire p s)
  then have "lpTimer s \<noteq> None" "\<not> lpStopped s" by (auto simp: paced_def)
  then have "length (lpPending s) + lpRunning s = 1" using lp_fire(3) by (simp add: paced_def)
  then have "lpPending s = [p]" "lpRunning s = 0" using lp_fire(1) by (cases "lpPending s"; simp)+
  then show ?case using lp_fire by (simp add: paced_def timeoutFires_def)
next
  case (lp_end s h r)
  then have t: "lpTimer s \<noteq> None" and one: "lpRunning s = 1" by (auto simp: paced_def)
  then have none: "lpPending s = []" using lp_end(3) by (cases "lpStopped s") (auto simp: paced_def)
  show ?case using later [of r] t one none by (simp add: paced_def tickResolves_def scheduleNext_def)
next
  case (lp_stop s)
  then obtain h where h: "lpTimer s = Some h" by blast
  have "filter (\<lambda>p. fst p \<noteq> h) (lpPending s) = []"
    using lp_stop(2) h by (auto simp: paced_def filter_empty_conv)
  then show ?case using lp_stop(2) h by (simp add: paced_def stopLoop_def)
qed (auto simp: paced_def intro: order_trans)

lemma run_paced: "(loopStep pollMs delayOf)\<^sup>*\<^sup>* freshLoop s \<Longrightarrow> paced idle s"
  by (induction rule: rtranclp_induct) (auto simp: paced_fresh intro: step_paced)

end

interpretation baseLoop: paced_loop POLL_MS nextDelay IDLE_POLL_MS
  by unfold_locales (auto simp: POLL_MS_def IDLE_POLL_MS_def nextDelay_def split: sum.splits)

interpretation payoutLoop: paced_loop PAYOUT_POLL_MS payoutNextDelay PAYOUT_IDLE_POLL_MS
  by unfold_locales (auto simp: PAYOUT_POLL_MS_def PAYOUT_IDLE_POLL_MS_def payoutNextDelay_def split: sum.splits)

text \<open>A stopped loop stays stopped and starts no tick; the one running may end.\<close>

lemma stopped_step:
  "loopStep pollMs delayOf s s' \<Longrightarrow> lpStopped s \<Longrightarrow> lpPending s = []
    \<Longrightarrow> lpStopped s' \<and> lpPending s' = [] \<and> lpRunning s' \<le> lpRunning s"
  by (induction rule: loopStep.induct)
     (auto simp: startLoop_def scheduleNext_def tickResolves_def stopLoop_def timeoutFires_def split: option.splits)

lemma stopped_run:
  "(loopStep pollMs delayOf)\<^sup>*\<^sup>* s s' \<Longrightarrow> lpStopped s \<Longrightarrow> lpPending s = []
    \<Longrightarrow> lpStopped s' \<and> lpPending s' = [] \<and> lpRunning s' \<le> lpRunning s"
  by (induction rule: rtranclp_induct) (auto dest: stopped_step)

text \<open>
  C40: in any order of starts, timeouts, ends of ticks, failures and shutdowns the base confirmer runs
  one tick at a time and never falls silent: once started and not shut down, either a tick is running
  or one is due within two minutes. Shut down, it starts no further tick.
\<close>
theorem confirmer_keeps_ticking:
  assumes "(loopStep POLL_MS nextDelay)\<^sup>*\<^sup>* freshLoop s"
  shows "lpRunning s \<le> 1
    \<and> (lpTimer s \<noteq> None \<and> \<not> lpStopped s \<longrightarrow>
         lpRunning s = 1 \<or> (\<exists>h due. lpPending s = [(h, due)] \<and> due \<le> lpClock s + 120000))
    \<and> (\<forall>s'. lpStopped s \<and> (loopStep POLL_MS nextDelay)\<^sup>*\<^sup>* s s' \<longrightarrow> lpPending s' = [] \<and> lpRunning s' \<le> lpRunning s)"
proof (intro conjI allI impI)
  note p = baseLoop.run_paced [OF assms]
  show "lpRunning s \<le> 1" using p by (simp add: paced_def)
  show "lpRunning s = 1 \<or> (\<exists>h due. lpPending s = [(h, due)] \<and> due \<le> lpClock s + 120000)"
    if "lpTimer s \<noteq> None \<and> \<not> lpStopped s"
    using p that by (cases "lpPending s") (auto simp: paced_def IDLE_POLL_MS_def)
  show "lpPending s' = []" "lpRunning s' \<le> lpRunning s"
    if "lpStopped s \<and> (loopStep POLL_MS nextDelay)\<^sup>*\<^sup>* s s'" for s'
    using stopped_run [of POLL_MS nextDelay s s'] p that by (auto simp: paced_def)
qed

text \<open>Started at 0, the first tick finds an order and the second none.\<close>

definition loopSample :: loop where
  "loopSample = \<lparr> lpClock = 10000, lpTimer = Some 2, lpPending = [(2, 130000)], lpStopped = False, lpRunning = 0 \<rparr>"

lemma loopSample_reach: "(loopStep POLL_MS nextDelay)\<^sup>*\<^sup>* freshLoop loopSample"
proof -
  let ?after = "\<lambda>t n due r. \<lparr> lpClock = t, lpTimer = Some n, lpPending = due, lpStopped = False, lpRunning = r \<rparr>"
  have "(loopStep POLL_MS nextDelay)\<^sup>*\<^sup>* freshLoop (?after 0 0 [(0, 5000)] 0)"
    by (rule r_into_rtranclp) (use lp_start [of 0 freshLoop POLL_MS nextDelay] in
      \<open>simp add: freshLoop_def startLoop_def scheduleNext_def POLL_MS_def\<close>)
  also have "loopStep POLL_MS nextDelay (?after 0 0 [(0, 5000)] 0) (?after 5000 0 [(0, 5000)] 0)"
    using lp_time [of 5000 POLL_MS nextDelay "?after 0 0 [(0, 5000)] 0"] by simp
  also (rtranclp.rtrancl_into_rtrancl) have "loopStep POLL_MS nextDelay (?after 5000 0 [(0, 5000)] 0) (?after 5000 0 [] 1)"
    using lp_fire [of "(0, 5000)" "?after 5000 0 [(0, 5000)] 0" POLL_MS nextDelay] by (simp add: timeoutFires_def)
  also (rtranclp.rtrancl_into_rtrancl) have "loopStep POLL_MS nextDelay (?after 5000 0 [] 1) (?after 5000 1 [(1, 10000)] 0)"
    using lp_end [of "?after 5000 0 [] 1" 1 POLL_MS nextDelay "Inr 1"]
    by (simp add: tickResolves_def scheduleNext_def nextDelay_def POLL_MS_def)
  also (rtranclp.rtrancl_into_rtrancl) have "loopStep POLL_MS nextDelay (?after 5000 1 [(1, 10000)] 0) (?after 10000 1 [(1, 10000)] 0)"
    using lp_time [of 5000 POLL_MS nextDelay "?after 5000 1 [(1, 10000)] 0"] by simp
  also (rtranclp.rtrancl_into_rtrancl) have "loopStep POLL_MS nextDelay (?after 10000 1 [(1, 10000)] 0) (?after 10000 1 [] 1)"
    using lp_fire [of "(1, 10000)" "?after 10000 1 [(1, 10000)] 0" POLL_MS nextDelay] by (simp add: timeoutFires_def)
  also (rtranclp.rtrancl_into_rtrancl) have "loopStep POLL_MS nextDelay (?after 10000 1 [] 1) loopSample"
    using lp_end [of "?after 10000 1 [] 1" 2 POLL_MS nextDelay "Inr 0"]
    by (simp add: tickResolves_def scheduleNext_def nextDelay_def IDLE_POLL_MS_def loopSample_def)
  finally (rtranclp.rtrancl_into_rtrancl) show ?thesis by blast
qed

theorem confirmer_keeps_ticking_witness:
  "lpRunning loopSample = 1 \<or> (\<exists>h due. lpPending loopSample = [(h, due)] \<and> due \<le> lpClock loopSample + 120000)"
  using confirmer_keeps_ticking [OF loopSample_reach] by (simp add: loopSample_def)

section \<open>Workers on an interval\<close>

text \<open>
  The settlement and the harvest worker: a tick on start, every two minutes, and on each message on
  the Redis channel; the cron loop calls the settlement tick too. \<open>wkBegun\<close> and \<open>wkEnded\<close> count.
\<close>

record worker =
  wkHandle :: bool
  wkTimer :: bool
  wkListens :: bool
  wkInFlight :: bool
  wkBegun :: nat
  wkEnded :: nat

definition freshWorker :: worker where
  "freshWorker = \<lparr> wkHandle = False, wkTimer = False, wkListens = False, wkInFlight = False, wkBegun = 0, wkEnded = 0 \<rparr>"

definition tickCalled :: "worker \<Rightarrow> worker" where
  "tickCalled s = (if wkInFlight s then s else s\<lparr>wkInFlight := True, wkBegun := wkBegun s + 1\<rparr>)"

definition tickEnds :: "worker \<Rightarrow> worker" where
  "tickEnds s = s\<lparr>wkInFlight := False, wkEnded := wkEnded s + 1\<rparr>"

definition startWorker :: "worker \<Rightarrow> worker" where
  "startWorker s = (if wkHandle s then s else (tickCalled s)\<lparr>wkHandle := True, wkTimer := True, wkListens := True\<rparr>)"

definition stopWorker :: "worker \<Rightarrow> worker" where
  "stopWorker s = s\<lparr>wkTimer := False\<rparr>"

inductive workerStep :: "worker \<Rightarrow> worker \<Rightarrow> bool" where
  wk_start: "workerStep s (startWorker s)"
| wk_interval: "wkTimer s \<Longrightarrow> workerStep s (tickCalled s)"
| wk_nudge: "wkListens s \<Longrightarrow> workerStep s (tickCalled s)"
| wk_cron: "workerStep s (tickCalled s)"
| wk_end: "wkEnded s < wkBegun s \<Longrightarrow> workerStep s (tickEnds s)"
| wk_stop: "wkHandle s \<Longrightarrow> workerStep s (stopWorker s)"

lemma worker_one_tick:
  "workerStep\<^sup>*\<^sup>* freshWorker s \<Longrightarrow> wkBegun s = wkEnded s + of_bool (wkInFlight s)"
proof (induction rule: rtranclp_induct)
  case (step s s')
  from step(2) show ?case using step(3)
    by cases (auto simp: startWorker_def tickCalled_def tickEnds_def stopWorker_def)
qed (simp add: freshWorker_def)

text \<open>The hook clears the interval and leaves the subscription, so a message still starts a tick.\<close>

lemma stopped_worker_is_nudged:
  "wkListens s \<Longrightarrow> \<not> wkInFlight s \<Longrightarrow>
    workerStep (stopWorker s) (tickCalled (stopWorker s)) \<and> wkInFlight (tickCalled (stopWorker s))"
  using wk_nudge [of "stopWorker s"] by (simp add: stopWorker_def tickCalled_def)

section \<open>One harvest at a time\<close>

text \<open>
  Harvest ticks of several processes meet in one Redis key, set with \<open>NX\<close> and an expiry of 300
  seconds and deleted when the tick ends (the deletion may fail). \<open>lkTicks\<close> holds the processes
  between \<open>set\<close> and \<open>del\<close> and the times they got the key; a crash is an end without deletion.
\<close>

definition LOCK_TTL_SEC :: int where "LOCK_TTL_SEC = 300"

record harvestLock =
  lkNow :: int
  lkKey :: "(nat \<times> int) option"
  lkTicks :: "(nat \<times> int) list"

definition freshLock :: harvestLock where "freshLock = \<lparr> lkNow = 0, lkKey = None, lkTicks = [] \<rparr>"

definition keyExists :: "harvestLock \<Rightarrow> bool" where
  "keyExists s = (case lkKey s of None \<Rightarrow> False | Some (pid, expires) \<Rightarrow> lkNow s < expires)"

definition harvestBegins :: "nat \<Rightarrow> harvestLock \<Rightarrow> harvestLock" where
  "harvestBegins pid s =
     (if pid \<in> set (map fst (lkTicks s)) \<or> keyExists s then s
      else s\<lparr>lkKey := Some (pid, lkNow s + LOCK_TTL_SEC * 1000), lkTicks := lkTicks s @ [(pid, lkNow s)]\<rparr>)"

definition harvestEnds :: "bool \<Rightarrow> nat \<times> int \<Rightarrow> harvestLock \<Rightarrow> harvestLock" where
  "harvestEnds deleted x s = s\<lparr>lkTicks := remove1 x (lkTicks s), lkKey := (if deleted then None else lkKey s)\<rparr>"

inductive lockStep :: "harvestLock \<Rightarrow> harvestLock \<Rightarrow> bool" where
  lk_time: "0 \<le> d \<Longrightarrow> lockStep s (s\<lparr>lkNow := lkNow s + d\<rparr>)"
| lk_begin: "lockStep s (harvestBegins pid s)"
| lk_end: "x \<in> set (lkTicks s) \<Longrightarrow> lockStep s (harvestEnds deleted x s)"

text \<open>Every tick still running began less than the expiry ago.\<close>

definition promptly :: "harvestLock \<Rightarrow> bool" where
  "promptly s = list_all (\<lambda>(pid, began). lkNow s < began + LOCK_TTL_SEC * 1000) (lkTicks s)"

inductive promptRun :: "harvestLock \<Rightarrow> bool" where
  pr_fresh: "promptRun freshLock"
| pr_step: "promptRun s \<Longrightarrow> lockStep s s' \<Longrightarrow> promptly s' \<Longrightarrow> promptRun s'"

text \<open>
  C13: harvest ticks of all processes exclude each other as long as every tick ends within the five
  minutes the key lives, in any order of ticks, ends, failed deletions and crashes: at most one runs,
  and the key is the one it set.
\<close>
theorem harvest_lock_exclusive:
  assumes "promptRun s"
  shows "length (lkTicks s) \<le> 1 \<and> list_all (\<lambda>(pid, began). lkKey s = Some (pid, began + LOCK_TTL_SEC * 1000)) (lkTicks s)"
  using assms
proof induction
  case (pr_step s s')
  consider (none) "lkTicks s = []"
    | (one) pid began where "lkTicks s = [(pid, began)]" "lkKey s = Some (pid, began + LOCK_TTL_SEC * 1000)"
    using pr_step.IH by (cases "lkTicks s") (auto split: prod.splits)
  then show ?case
  proof cases
    case none
    from pr_step.hyps(2) show ?thesis
      by cases (use none in \<open>auto simp: harvestBegins_def harvestEnds_def\<close>)
  next
    case one
    from pr_step.hyps(2) show ?thesis
    proof cases
      case (lk_begin other)
      have "promptly s" using pr_step.hyps(1) by cases (simp_all add: promptly_def freshLock_def)
      then have "keyExists s" using one by (simp add: promptly_def keyExists_def)
      then show ?thesis using one lk_begin by (simp add: harvestBegins_def)
    qed (use one in \<open>auto simp: harvestEnds_def\<close>)
  qed
qed (simp add: freshLock_def)

definition lockSample :: harvestLock where
  "lockSample = harvestBegins 2 (harvestBegins 1 freshLock)"

theorem harvest_lock_exclusive_witness: "lkTicks lockSample = [(1, 0)] \<and> lkKey lockSample = Some (1, 300000)"
proof -
  have "promptRun (harvestBegins 1 freshLock)"
    by (rule pr_step [OF pr_fresh lk_begin]) (simp add: promptly_def harvestBegins_def freshLock_def keyExists_def LOCK_TTL_SEC_def)
  then have "promptRun lockSample"
    unfolding lockSample_def
    by (rule pr_step [OF _ lk_begin])
       (simp add: promptly_def harvestBegins_def freshLock_def keyExists_def LOCK_TTL_SEC_def)
  from harvest_lock_exclusive [OF this] show ?thesis
    by (simp add: lockSample_def harvestBegins_def freshLock_def keyExists_def LOCK_TTL_SEC_def)
qed

text \<open>
  A tick that outlives its key frees the next one's: \<open>del\<close> does not look at the value. Process 1 runs
  for five minutes, 2 gets the key, 1 ends, 3 gets the key, and 2 and 3 run together.
\<close>

lemma late_end_frees_others_lock:
  "lockStep\<^sup>*\<^sup>* freshLock \<lparr> lkNow = 300000, lkKey = Some (3, 600000), lkTicks = [(2, 300000), (3, 300000)] \<rparr>"
proof -
  define s1 where "s1 = \<lparr> lkNow = 0, lkKey = Some (1::nat, 300000), lkTicks = [(1, 0)] \<rparr>"
  define s2 where "s2 = s1\<lparr>lkNow := 300000\<rparr>"
  define s3 where "s3 = harvestBegins 2 s2"
  define s4 where "s4 = harvestEnds True (1, 0) s3"
  note defs = s1_def s2_def s3_def s4_def harvestBegins_def harvestEnds_def keyExists_def freshLock_def LOCK_TTL_SEC_def
  have "lockStep freshLock s1" using lk_begin [of freshLock 1] by (simp add: defs)
  moreover have "lockStep s1 s2" using lk_time [of 300000 s1] by (simp add: defs)
  moreover have "lockStep s2 s3" using lk_begin [of s2 2] by (simp add: s3_def)
  moreover have "lockStep s3 s4" using lk_end [of "(1, 0)" s3 True] by (simp add: defs)
  moreover have "lockStep s4 \<lparr> lkNow = 300000, lkKey = Some (3, 600000), lkTicks = [(2, 300000), (3, 300000)] \<rparr>"
    using lk_begin [of s4 3] by (simp add: defs)
  ultimately show ?thesis by (meson converse_rtranclp_into_rtranclp rtranclp.rtrancl_refl)
qed

section \<open>The worker process\<close>

text \<open>\<open>pcJobs\<close> counts the BullMQ jobs in work; handles \<open>hb\<close> and \<open>hp\<close> are the runtime's.\<close>

record process =
  pcJobs :: nat
  pcBase :: loop
  pcPayout :: loop
  pcSettle :: worker
  pcHarvest :: worker
  pcHooks :: hooksState

definition startWorkers :: "nat \<Rightarrow> nat \<Rightarrow> process \<Rightarrow> process" where
  "startWorkers hb hp p =
     (let newly = (\<lambda>fresh n hk. if fresh then onShutdown n False hk else hk);
          baseNew = (lpTimer (pcBase p) = None \<and> \<not> lpStopped (pcBase p));
          payoutNew = (lpTimer (pcPayout p) = None \<and> \<not> lpStopped (pcPayout p))
      in p\<lparr>pcBase := startLoop hb POLL_MS (pcBase p), pcSettle := startWorker (pcSettle p),
           pcHarvest := startWorker (pcHarvest p), pcPayout := startLoop hp PAYOUT_POLL_MS (pcPayout p),
           pcHooks := onShutdown ''bullmq-workers'' False (newly payoutNew ''payout-confirmer''
             (newly (\<not> wkHandle (pcHarvest p)) ''harvest-worker'' (newly (\<not> wkHandle (pcSettle p)) ''settlement-worker''
             (newly baseNew ''base-confirmer'' (pcHooks p)))))\<rparr>)"

text \<open>A hook of the process; closing the BullMQ workers waits for the jobs in work.\<close>

definition closeHook :: "string \<Rightarrow> process \<Rightarrow> process" where
  "closeHook n p =
     (if n = ''bullmq-workers'' then p\<lparr>pcJobs := 0\<rparr>
      else if n = ''base-confirmer'' then p\<lparr>pcBase := stopLoop (pcBase p)\<rparr>
      else if n = ''payout-confirmer'' then p\<lparr>pcPayout := stopLoop (pcPayout p)\<rparr>
      else if n = ''settlement-worker'' then p\<lparr>pcSettle := stopWorker (pcSettle p)\<rparr>
      else if n = ''harvest-worker'' then p\<lparr>pcHarvest := stopWorker (pcHarvest p)\<rparr> else p)"

definition shutdownProcess :: "process \<Rightarrow> process" where
  "shutdownProcess p =
     (if shuttingDown (pcHooks p) then p
      else (fold closeHook (rev (map fst (hooks (pcHooks p)))) p)\<lparr>pcHooks := shutdown (pcHooks p)\<rparr>)"

lemma closeHook_running [simp]:
  "lpRunning (pcBase (closeHook n p)) = lpRunning (pcBase p)" "lpRunning (pcPayout (closeHook n p)) = lpRunning (pcPayout p)"
  "wkInFlight (pcSettle (closeHook n p)) = wkInFlight (pcSettle p)" "wkInFlight (pcHarvest (closeHook n p)) = wkInFlight (pcHarvest p)"
  by (simp_all add: closeHook_def stopLoop_def stopWorker_def)

lemma closeHooks_running [simp]:
  "lpRunning (pcBase (fold closeHook ns p)) = lpRunning (pcBase p)" "lpRunning (pcPayout (fold closeHook ns p)) = lpRunning (pcPayout p)"
  "wkInFlight (pcSettle (fold closeHook ns p)) = wkInFlight (pcSettle p)"
  "wkInFlight (pcHarvest (fold closeHook ns p)) = wkInFlight (pcHarvest p)"
  by (induction ns arbitrary: p) simp_all

lemma closeHooks_jobs: "pcJobs (fold closeHook ns p) = (if ''bullmq-workers'' \<in> set ns then 0 else pcJobs p)"
  by (induction ns arbitrary: p) (auto simp: closeHook_def)

lemma startWorkers_hooks:
  "''bullmq-workers'' \<in> set (map fst (hooks (pcHooks (startWorkers hb hp p))))"
  "shuttingDown (pcHooks (startWorkers hb hp p)) = shuttingDown (pcHooks p)"
  by (simp_all add: startWorkers_def Let_def onShutdown_def)

text \<open>
  A shutdown drains the BullMQ jobs and then leaves: a tick of a confirmer, of the settlement or of the
  harvest that is running when the process exits is cut off wherever it is.
\<close>

lemma shutdown_cuts_ticks_off:
  assumes "\<not> shuttingDown (pcHooks p)" "''bullmq-workers'' \<in> set (map fst (hooks (pcHooks p)))"
  shows "pcJobs (shutdownProcess p) = 0" "exited (pcHooks (shutdownProcess p))"
    "wkInFlight (pcHarvest (shutdownProcess p)) = wkInFlight (pcHarvest p)"
    "lpRunning (pcBase (shutdownProcess p)) = lpRunning (pcBase p)"
  using assms by (simp_all add: shutdownProcess_def closeHooks_jobs shutdown_def)

lemma shutdown_during_first_harvest:
  assumes "\<not> shuttingDown (pcHooks p)" "pcHarvest p = freshWorker"
  shows "exited (pcHooks (shutdownProcess (startWorkers hb hp p)))
    \<and> wkInFlight (pcHarvest (shutdownProcess (startWorkers hb hp p)))"
proof -
  have "wkInFlight (pcHarvest (startWorkers hb hp p))"
    using assms(2) by (simp add: startWorkers_def Let_def startWorker_def tickCalled_def freshWorker_def)
  then show ?thesis
    using shutdown_cuts_ticks_off [of "startWorkers hb hp p"] startWorkers_hooks [of hb hp p] assms(1) by simp
qed

end
