(* ===== verification/SolanaProgram.thy ===== *)
theory SolanaProgram
  imports SolanaService "HOL-Library.Word"
begin

text \<open>
  The Solana program (\<open>programs/solana_smart_contracts/src/lib.rs\<close>): its state account, every
  instruction with the checks of its accounts, and what the instructions do to the vault's USDC.
  The token program, address derivation and the clock are parameters.
\<close>

section \<open>State\<close>

record lordsPotState =
  normal_max :: "8 word"
  bonus_max :: "8 word"
  ticket_price :: "64 word"
  ongoing_epoch :: "64 word"
  is_lords_pot_paused :: bool
  admin :: string
  version :: "8 word"
  relay_fee_base :: "64 word"
  relay_fee_per_ticket :: "64 word"
  fee_recipient :: string
  max_tickets_per_purchase :: "8 word"
  max_claim_amount :: "64 word"
  treasury_authority :: string

text \<open>The layout of 60 bytes that \<open>migrate_state\<close> reads.\<close>

record legacyState =
  old_normal_max :: "8 word"
  old_bonus_max :: "8 word"
  old_ticket_price :: "64 word"
  old_ongoing_epoch :: "64 word"
  old_paused :: bool
  old_admin :: string

datatype stateAccount = NoAccount | LegacyAccount legacyState | CurrentAccount lordsPotState

record programTicket =
  normal_ball :: "8 word list"
  bonus_ball :: "8 word"

datatype progEvent =
    TicketPurchased string "64 word" "32 word" "programTicket list" int "64 word"
  | WinningsClaimed string "64 word" int
  | VaultWithdrawal string string "64 word" int

datatype lordsPotError =
    ProtocolPaused | ProtocolNotPaused | Unauthorized | NoTicketsProvided | InvalidTicketLength
  | NormalBallOutOfBounds | BonusBallOutOfBounds | BallsNotSortedOrDuplicated | MathOverflow | TooManyTickets
  | SameAsPreviousEpoch | InvalidNextEpoch | InvalidAmount | InsufficientVaultFunds | InvalidDestination
  | ExceedsMaxTicketsPerPurchase | ClaimExceedsMaxAmount | InvalidMaxTicketsPerPurchase | InvalidMaxClaimAmount
  | UnexpectedStateSize | InvalidStateAccount | SameAsPreviousAdmin | InvalidTreasuryAuthority
  | AccountNotInitialized | AccountInUse | WrongTokenAccount | DuplicateMutableAccount | TokenError | SystemError

text \<open>USDC token accounts by address, and the events emitted.\<close>

type_synonym tokens = "string \<Rightarrow> int option"

record progWorld =
  pwState :: stateAccount
  pwTokens :: tokens
  pwLog :: "progEvent list"

record progEnv =
  prTransfer :: "string \<Rightarrow> string \<Rightarrow> int \<Rightarrow> tokens \<Rightarrow> tokens option"
  prAta :: "string \<Rightarrow> string"
  prVaultAuthority :: string
  prClock :: int
  prTopUp :: bool

definition vaultAta :: "progEnv \<Rightarrow> string" where "vaultAta env = prAta env (prVaultAuthority env)"

definition DEFAULT_PUBKEY :: string where "DEFAULT_PUBKEY = replicate 32 (CHR ''1'')"

definition HARD_MAX_TICKETS_PER_PURCHASE :: "8 word" where "HARD_MAX_TICKETS_PER_PURCHASE = 100"

definition STATE_VERSION :: "8 word" where "STATE_VERSION = 2"

definition stateLen :: "stateAccount \<Rightarrow> nat option" where
  "stateLen a = (case a of NoAccount \<Rightarrow> None | LegacyAccount _ \<Rightarrow> Some 60 | CurrentAccount _ \<Rightarrow> Some (8 + 238))"

definition checkedMul :: "64 word \<Rightarrow> 64 word \<Rightarrow> 64 word option" where
  "checkedMul a b = (if uint a * uint b < 2 ^ 64 then Some (a * b) else None)"

definition checkedAdd :: "64 word \<Rightarrow> 64 word \<Rightarrow> 64 word option" where
  "checkedAdd a b = (if uint a + uint b < 2 ^ 64 then Some (a + b) else None)"

section \<open>Configuration\<close>

record relayConfig =
  rcFeeBase :: "64 word"
  rcFeePerTicket :: "64 word"
  rcFeeRecipient :: string
  rcMaxTickets :: "8 word"
  rcMaxClaim :: "64 word"

definition validateRelayConfig :: "relayConfig \<Rightarrow> lordsPotError option" where
  "validateRelayConfig c =
     (if \<not> (1 \<le> rcMaxTickets c \<and> rcMaxTickets c \<le> HARD_MAX_TICKETS_PER_PURCHASE) then Some InvalidMaxTicketsPerPurchase
      else if \<not> 0 < rcMaxClaim c then Some InvalidMaxClaimAmount else None)"

definition validateTreasury :: "string \<Rightarrow> lordsPotError option" where
  "validateTreasury k = (if k = DEFAULT_PUBKEY then Some InvalidTreasuryAuthority else None)"

definition withConfig :: "relayConfig \<Rightarrow> lordsPotState \<Rightarrow> lordsPotState" where
  "withConfig c st = st\<lparr>relay_fee_base := rcFeeBase c, relay_fee_per_ticket := rcFeePerTicket c,
     fee_recipient := rcFeeRecipient c, max_tickets_per_purchase := rcMaxTickets c, max_claim_amount := rcMaxClaim c\<rparr>"

text \<open>The typed account: missing and short accounts do not deserialize.\<close>

definition loadState :: "progWorld \<Rightarrow> (lordsPotError, lordsPotState) result" where
  "loadState s = (case pwState s of CurrentAccount st \<Rightarrow> Inr st | _ \<Rightarrow> Inl AccountNotInitialized)"

definition asAdmin :: "string \<Rightarrow> progWorld \<Rightarrow> (lordsPotError, lordsPotState) result" where
  "asAdmin k s = (case loadState s of Inl e \<Rightarrow> Inl e | Inr st \<Rightarrow> (if k = admin st then Inr st else Inl Unauthorized))"

section \<open>Instructions\<close>

definition initialize ::
  "progEnv \<Rightarrow> string \<Rightarrow> 8 word \<Rightarrow> 8 word \<Rightarrow> 64 word \<Rightarrow> 64 word \<Rightarrow> relayConfig \<Rightarrow> string \<Rightarrow> progWorld
    \<Rightarrow> (lordsPotError, progWorld) result" where
  "initialize env signer nm bm price epoch c treasury s =
     (if pwState s \<noteq> NoAccount \<or> pwTokens s (vaultAta env) \<noteq> None then Inl AccountInUse
      else case validateRelayConfig c of Some e \<Rightarrow> Inl e
      | None \<Rightarrow> (case validateTreasury treasury of Some e \<Rightarrow> Inl e
      | None \<Rightarrow> Inr (s\<lparr>pwTokens := (pwTokens s)(vaultAta env \<mapsto> 0),
          pwState := CurrentAccount \<lparr> normal_max = nm, bonus_max = bm, ticket_price = price, ongoing_epoch = epoch,
            is_lords_pot_paused = False, admin = signer, version = STATE_VERSION, relay_fee_base = rcFeeBase c,
            relay_fee_per_ticket = rcFeePerTicket c, fee_recipient = rcFeeRecipient c,
            max_tickets_per_purchase = rcMaxTickets c, max_claim_amount = rcMaxClaim c,
            treasury_authority = treasury \<rparr>\<rparr>)))"

text \<open>A program-owned account at this address has one of the two layouts, so no other size occurs.\<close>

definition migrateState ::
  "progEnv \<Rightarrow> string \<Rightarrow> relayConfig \<Rightarrow> string \<Rightarrow> progWorld \<Rightarrow> (lordsPotError, progWorld) result" where
  "migrateState env k c treasury s =
     (if pwState s = NoAccount then Inl InvalidStateAccount
      else case validateRelayConfig c of Some e \<Rightarrow> Inl e
      | None \<Rightarrow> (case validateTreasury treasury of Some e \<Rightarrow> Inl e
      | None \<Rightarrow>
        (case pwState s of
           LegacyAccount old \<Rightarrow>
             (if k \<noteq> old_admin old then Inl Unauthorized
              else if \<not> prTopUp env then Inl SystemError
              else Inr (s\<lparr>pwState := CurrentAccount \<lparr> normal_max = old_normal_max old, bonus_max = old_bonus_max old,
                ticket_price = old_ticket_price old, ongoing_epoch = old_ongoing_epoch old,
                is_lords_pot_paused = old_paused old, admin = old_admin old, version = STATE_VERSION,
                relay_fee_base = rcFeeBase c, relay_fee_per_ticket = rcFeePerTicket c,
                fee_recipient = rcFeeRecipient c, max_tickets_per_purchase = rcMaxTickets c,
                max_claim_amount = rcMaxClaim c, treasury_authority = treasury \<rparr>\<rparr>))
         | _ \<Rightarrow> Inr s)))"

definition setAdmin :: "string \<Rightarrow> string \<Rightarrow> progWorld \<Rightarrow> (lordsPotError, progWorld) result" where
  "setAdmin k new s = (case asAdmin k s of Inl e \<Rightarrow> Inl e
     | Inr st \<Rightarrow> (if new = admin st then Inl SameAsPreviousAdmin else Inr (s\<lparr>pwState := CurrentAccount (st\<lparr>admin := new\<rparr>)\<rparr>)))"

definition setTreasuryAuthority :: "string \<Rightarrow> string \<Rightarrow> progWorld \<Rightarrow> (lordsPotError, progWorld) result" where
  "setTreasuryAuthority k new s =
     (case loadState s of Inl e \<Rightarrow> Inl e
      | Inr st \<Rightarrow> (case validateTreasury new of Some e \<Rightarrow> Inl e
      | None \<Rightarrow>
          (if treasury_authority st = DEFAULT_PUBKEY \<and> k \<noteq> admin st then Inl Unauthorized
           else if treasury_authority st \<noteq> DEFAULT_PUBKEY \<and> k \<noteq> treasury_authority st then Inl Unauthorized
           else if treasury_authority st \<noteq> DEFAULT_PUBKEY \<and> new = treasury_authority st then Inl SameAsPreviousAdmin
           else Inr (s\<lparr>pwState := CurrentAccount (st\<lparr>treasury_authority := new\<rparr>)\<rparr>))))"

definition setRelayConfig :: "string \<Rightarrow> relayConfig \<Rightarrow> progWorld \<Rightarrow> (lordsPotError, progWorld) result" where
  "setRelayConfig k c s = (case asAdmin k s of Inl e \<Rightarrow> Inl e
     | Inr st \<Rightarrow> (case validateRelayConfig c of Some e \<Rightarrow> Inl e
       | None \<Rightarrow> Inr (s\<lparr>pwState := CurrentAccount (withConfig c st)\<rparr>)))"

definition checkTicket :: "lordsPotState \<Rightarrow> programTicket \<Rightarrow> lordsPotError option" where
  "checkTicket st t =
     (if length (normal_ball t) \<noteq> 5 then Some InvalidTicketLength
      else if \<not> (0 < bonus_ball t \<and> bonus_ball t \<le> bonus_max st) then Some BonusBallOutOfBounds
      else if \<not> list_all (\<lambda>b. 0 < b \<and> b \<le> normal_max st) (normal_ball t) then Some NormalBallOutOfBounds
      else if \<not> successively (<) (normal_ball t) then Some BallsNotSortedOrDuplicated else None)"

fun checkTickets :: "lordsPotState \<Rightarrow> programTicket list \<Rightarrow> lordsPotError option" where
  "checkTickets st [] = None"
| "checkTickets st (t # ts) = (case checkTicket st t of Some e \<Rightarrow> Some e | None \<Rightarrow> checkTickets st ts)"

definition purchaseTotal :: "lordsPotState \<Rightarrow> 32 word \<Rightarrow> 64 word option" where
  "purchaseTotal st n = checkedMul (ucast n) (ticket_price st)"

definition purchaseFee :: "lordsPotState \<Rightarrow> 32 word \<Rightarrow> 64 word option" where
  "purchaseFee st n =
     Option.bind (checkedMul (relay_fee_per_ticket st) (ucast n)) (\<lambda>x. checkedAdd x (relay_fee_base st))"

text \<open>The USDC accounts the caller names: the program checks each against the address it derives.\<close>

record buyAccounts =
  buyer_usdc_account :: string
  vault_usdc_account :: string
  fee_recipient_usdc_account :: string

definition buyTicket ::
  "progEnv \<Rightarrow> string \<Rightarrow> buyAccounts \<Rightarrow> programTicket list \<Rightarrow> progWorld \<Rightarrow> (lordsPotError, progWorld) result" where
  "buyTicket env signer a ts s =
     (case loadState s of Inl e \<Rightarrow> Inl e
      | Inr st \<Rightarrow>
        let payer = buyer_usdc_account a; vault = vault_usdc_account a; fees = fee_recipient_usdc_account a;
            n = (of_nat (length ts) :: 32 word)
        in if pwTokens s payer = None \<or> pwTokens s vault = None \<or> pwTokens s fees = None then Inl AccountNotInitialized
        else if is_lords_pot_paused st then Inl ProtocolPaused
        else if payer \<noteq> prAta env signer \<or> vault \<noteq> vaultAta env \<or> fees \<noteq> prAta env (fee_recipient st) then Inl WrongTokenAccount
        else if payer = vault \<or> payer = fees \<or> vault = fees then Inl DuplicateMutableAccount
        else if ucast HARD_MAX_TICKETS_PER_PURCHASE < n then Inl TooManyTickets
        else if n = 0 then Inl NoTicketsProvided
        else if ucast (max_tickets_per_purchase st) < n then Inl ExceedsMaxTicketsPerPurchase
        else case checkTickets st ts of Some e \<Rightarrow> Inl e
        | None \<Rightarrow> (case purchaseTotal st n of None \<Rightarrow> Inl MathOverflow
        | Some cost \<Rightarrow> (case purchaseFee st n of None \<Rightarrow> Inl MathOverflow
        | Some fee \<Rightarrow> (case prTransfer env payer vault (uint cost) (pwTokens s) of None \<Rightarrow> Inl TokenError
        | Some l \<Rightarrow> (case (if 0 < fee then prTransfer env payer fees (uint fee) l else Some l) of None \<Rightarrow> Inl TokenError
        | Some l' \<Rightarrow> Inr (s\<lparr>pwTokens := l',
            pwLog := pwLog s @ [TicketPurchased signer cost n ts (prClock env) (ongoing_epoch st)]\<rparr>))))))"

definition progPause :: "string \<Rightarrow> progWorld \<Rightarrow> (lordsPotError, progWorld) result" where
  "progPause k s = (case asAdmin k s of Inl e \<Rightarrow> Inl e
     | Inr st \<Rightarrow> (if is_lords_pot_paused st then Inl ProtocolPaused
         else Inr (s\<lparr>pwState := CurrentAccount (st\<lparr>is_lords_pot_paused := True\<rparr>)\<rparr>)))"

definition progResume :: "string \<Rightarrow> 64 word \<Rightarrow> progWorld \<Rightarrow> (lordsPotError, progWorld) result" where
  "progResume k next_epoch s = (case asAdmin k s of Inl e \<Rightarrow> Inl e
     | Inr st \<Rightarrow> (if \<not> is_lords_pot_paused st then Inl ProtocolNotPaused
         else if \<not> ongoing_epoch st < next_epoch then Inl InvalidNextEpoch
         else Inr (s\<lparr>pwState := CurrentAccount (st\<lparr>is_lords_pot_paused := False, ongoing_epoch := next_epoch\<rparr>)\<rparr>)))"

definition progUpdateEpoch :: "string \<Rightarrow> 8 word \<Rightarrow> 8 word \<Rightarrow> progWorld \<Rightarrow> (lordsPotError, progWorld) result" where
  "progUpdateEpoch k nm bm s = (case asAdmin k s of Inl e \<Rightarrow> Inl e
     | Inr st \<Rightarrow> (if \<not> is_lords_pot_paused st then Inl ProtocolNotPaused
         else if nm = normal_max st \<and> bm = bonus_max st then Inl SameAsPreviousEpoch
         else Inr (s\<lparr>pwState := CurrentAccount (st\<lparr>normal_max := nm, bonus_max := bm\<rparr>)\<rparr>)))"

text \<open>\<open>init_if_needed\<close> creates the token account of a user who has none.\<close>

definition claimWinnings :: "progEnv \<Rightarrow> string \<Rightarrow> string \<Rightarrow> 64 word \<Rightarrow> progWorld \<Rightarrow> (lordsPotError, progWorld) result" where
  "claimWinnings env user k amt s =
     (case loadState s of Inl e \<Rightarrow> Inl e
      | Inr st \<Rightarrow>
        (case pwTokens s (vaultAta env) of None \<Rightarrow> Inl AccountNotInitialized
         | Some held \<Rightarrow>
           let dest = prAta env user; l = (case pwTokens s dest of None \<Rightarrow> (pwTokens s)(dest \<mapsto> 0) | Some _ \<Rightarrow> pwTokens s)
           in if k \<noteq> admin st then Inl Unauthorized
           else if is_lords_pot_paused st then Inl ProtocolPaused
           else if \<not> 0 < amt then Inl InvalidAmount
           else if \<not> amt \<le> max_claim_amount st then Inl ClaimExceedsMaxAmount
           else if held < uint amt then Inl InsufficientVaultFunds
           else case prTransfer env (vaultAta env) dest (uint amt) l of None \<Rightarrow> Inl TokenError
           | Some l' \<Rightarrow> Inr (s\<lparr>pwTokens := l', pwLog := pwLog s @ [WinningsClaimed user amt (prClock env)]\<rparr>)))"

definition withdrawVaultFunds :: "progEnv \<Rightarrow> string \<Rightarrow> string \<Rightarrow> 64 word \<Rightarrow> progWorld \<Rightarrow> (lordsPotError, progWorld) result" where
  "withdrawVaultFunds env k dest amt s =
     (case loadState s of Inl e \<Rightarrow> Inl e
      | Inr st \<Rightarrow>
        (case pwTokens s (vaultAta env) of None \<Rightarrow> Inl AccountNotInitialized
         | Some held \<Rightarrow>
           (if pwTokens s dest = None then Inl AccountNotInitialized
            else if k \<noteq> treasury_authority st then Inl Unauthorized
            else if dest = vaultAta env then Inl DuplicateMutableAccount
            else if \<not> 0 < amt then Inl InvalidAmount
            else if held < uint amt then Inl InsufficientVaultFunds
            else case prTransfer env (vaultAta env) dest (uint amt) (pwTokens s) of None \<Rightarrow> Inl TokenError
            | Some l' \<Rightarrow> Inr (s\<lparr>pwTokens := l', pwLog := pwLog s @ [VaultWithdrawal k dest amt (prClock env)]\<rparr>))))"

section \<open>Transactions\<close>

text \<open>An instruction with the keys that sign it first.\<close>

datatype progIx =
    IxInitialize string "8 word" "8 word" "64 word" "64 word" relayConfig string
  | IxMigrate string relayConfig string
  | IxSetAdmin string string
  | IxSetTreasury string string
  | IxSetRelay string relayConfig
  | IxBuy string buyAccounts "programTicket list"
  | IxPause string
  | IxResume string "64 word"
  | IxUpdate string "8 word" "8 word"
  | IxClaim string string "64 word"
  | IxWithdraw string string "64 word"

fun signedBy :: "progIx \<Rightarrow> string list" where
  "signedBy (IxInitialize k nm bm price epoch c t) = [k]"
| "signedBy (IxMigrate k c t) = [k]"
| "signedBy (IxSetAdmin k n) = [k, n]"
| "signedBy (IxSetTreasury k n) = [k, n]"
| "signedBy (IxSetRelay k c) = [k]"
| "signedBy (IxBuy k a ts) = [k]"
| "signedBy (IxPause k) = [k]"
| "signedBy (IxResume k n) = [k]"
| "signedBy (IxUpdate k nm bm) = [k]"
| "signedBy (IxClaim u k a) = [u, k]"
| "signedBy (IxWithdraw k d a) = [k]"

fun execIx :: "progEnv \<Rightarrow> progIx \<Rightarrow> progWorld \<Rightarrow> (lordsPotError, progWorld) result" where
  "execIx env (IxInitialize k nm bm price epoch c t) s = initialize env k nm bm price epoch c t s"
| "execIx env (IxMigrate k c t) s = migrateState env k c t s"
| "execIx env (IxSetAdmin k n) s = setAdmin k n s"
| "execIx env (IxSetTreasury k n) s = setTreasuryAuthority k n s"
| "execIx env (IxSetRelay k c) s = setRelayConfig k c s"
| "execIx env (IxBuy k a ts) s = buyTicket env k a ts s"
| "execIx env (IxPause k) s = progPause k s"
| "execIx env (IxResume k n) s = progResume k n s"
| "execIx env (IxUpdate k nm bm) s = progUpdateEpoch k nm bm s"
| "execIx env (IxClaim u k a) s = claimWinnings env u k a s"
| "execIx env (IxWithdraw k d a) s = withdrawVaultFunds env k d a s"

text \<open>A transaction runs all its instructions or has no effect; a failed one leaves the world to the next.\<close>

fun runTx :: "progEnv \<Rightarrow> progIx list \<Rightarrow> progWorld \<Rightarrow> (lordsPotError, progWorld) result" where
  "runTx env [] s = Inr s"
| "runTx env (i # is) s = (case execIx env i s of Inl e \<Rightarrow> Inl e | Inr s' \<Rightarrow> runTx env is s')"

definition submitTx :: "progEnv \<Rightarrow> progIx list \<Rightarrow> progWorld \<Rightarrow> progWorld" where
  "submitTx env is s = (case runTx env is s of Inl e \<Rightarrow> s | Inr s' \<Rightarrow> s')"

section \<open>What the token program promises\<close>

text \<open>
  The documented behaviour of a transfer: both accounts exist, the payer has the amount, it moves, and
  a transfer to the same account changes nothing. Derived addresses do not collide.
\<close>

definition splToken :: "progEnv \<Rightarrow> bool" where
  "splToken env \<longleftrightarrow> inj (prAta env) \<and>
     (\<forall>payer to n l. prTransfer env payer to n l =
        (case (l payer, l to) of (Some held, Some got) \<Rightarrow>
            (if held < n then None else if payer = to then Some l
             else Some (l(payer \<mapsto> held - n, to \<mapsto> got + n)))
         | _ \<Rightarrow> None))"

definition heldBy :: "tokens \<Rightarrow> string \<Rightarrow> int" where
  "heldBy l a = (case l a of None \<Rightarrow> 0 | Some n \<Rightarrow> n)"

lemma transfer_held:
  assumes "splToken env" "prTransfer env payer to n l = Some l'"
  shows "payer \<noteq> to \<Longrightarrow> heldBy l payer = heldBy l' payer + n" "payer \<noteq> to \<Longrightarrow> heldBy l' to = heldBy l to + n"
    "a \<noteq> payer \<Longrightarrow> a \<noteq> to \<Longrightarrow> heldBy l' a = heldBy l a" "payer = to \<Longrightarrow> l' = l"
  using assms by (auto simp: splToken_def heldBy_def split: option.splits if_splits)

section \<open>The ledger of the vault\<close>

fun paidIn :: "progEvent \<Rightarrow> int" where
  "paidIn (TicketPurchased u amt n ts t ep) = uint amt"
| "paidIn _ = 0"

fun paidOut :: "string \<Rightarrow> progEvent \<Rightarrow> int" where
  "paidOut vault (WinningsClaimed u amt t) = uint amt"
| "paidOut vault (VaultWithdrawal k dest amt t) = (if dest = vault then 0 else uint amt)"
| "paidOut vault _ = 0"

definition eventsIn :: "progWorld \<Rightarrow> int" where "eventsIn s = sum_list (map paidIn (pwLog s))"

definition eventsOut :: "progEnv \<Rightarrow> progWorld \<Rightarrow> int" where
  "eventsOut env s = sum_list (map (paidOut (vaultAta env)) (pwLog s))"

definition balanced :: "progEnv \<Rightarrow> int \<Rightarrow> progWorld \<Rightarrow> bool" where
  "balanced env start s \<longleftrightarrow> heldBy (pwTokens s) (vaultAta env) + eventsOut env s = start + eventsIn s"

lemma loadState_Inr: "loadState s = Inr st \<longleftrightarrow> pwState s = CurrentAccount st"
  by (simp add: loadState_def split: stateAccount.splits)

lemma asAdmin_Inr: "asAdmin k s = Inr st \<longleftrightarrow> pwState s = CurrentAccount st \<and> k = admin st"
  by (auto simp: asAdmin_def loadState_def split: stateAccount.splits)

lemma quiet_ix:
  assumes "execIx env i s = Inr s'" "case i of IxBuy _ _ _ \<Rightarrow> False | IxClaim _ _ _ \<Rightarrow> False | IxWithdraw _ _ _ \<Rightarrow> False | _ \<Rightarrow> True"
  shows "pwLog s' = pwLog s \<and> heldBy (pwTokens s') a = heldBy (pwTokens s) a"
  using assms
  by (cases i) (auto simp: initialize_def migrateState_def setAdmin_def setTreasuryAuthority_def setRelayConfig_def
    progPause_def progResume_def progUpdateEpoch_def heldBy_def split: sum.splits option.splits if_splits stateAccount.splits)

lemma buy_effect:
  assumes "splToken env" "buyTicket env k a ts s = Inr s'"
  obtains st amt n where "pwState s = CurrentAccount st" "pwState s' = pwState s"
    "pwLog s' = pwLog s @ [TicketPurchased k amt n ts (prClock env) (ongoing_epoch st)]"
    "n = of_nat (length ts)" "purchaseTotal st n = Some amt" "checkTickets st ts = None" "\<not> is_lords_pot_paused st"
    "heldBy (pwTokens s') (vaultAta env) = heldBy (pwTokens s) (vaultAta env) + uint amt"
proof -
  obtain st where st: "pwState s = CurrentAccount st"
    using assms(2) by (auto simp: buyTicket_def loadState_def split: stateAccount.splits)
  define payer vault fees n where "payer = prAta env k" and "vault = vaultAta env" and "fees = prAta env (fee_recipient st)"
    and "n = (of_nat (length ts) :: 32 word)"
  have acc: "buyer_usdc_account a = payer" "vault_usdc_account a = vault" "fee_recipient_usdc_account a = fees"
    using assms(2) st by (auto simp: buyTicket_def loadState_def Let_def payer_def vault_def fees_def split: if_splits)
  note defs = payer_def [symmetric] vault_def [symmetric] fees_def [symmetric] n_def [symmetric]
  have "\<exists>amt fee l l'. purchaseTotal st n = Some amt \<and> purchaseFee st n = Some fee \<and> checkTickets st ts = None
      \<and> \<not> is_lords_pot_paused st \<and> payer \<noteq> vault \<and> vault \<noteq> fees
      \<and> prTransfer env payer vault (uint amt) (pwTokens s) = Some l
      \<and> (if 0 < fee then prTransfer env payer fees (uint fee) l else Some l) = Some l'
      \<and> s' = s\<lparr>pwTokens := l', pwLog := pwLog s @ [TicketPurchased k amt n ts (prClock env) (ongoing_epoch st)]\<rparr>"
    using assms(2) st unfolding buyTicket_def loadState_def Let_def acc
    by (auto simp: defs split: if_splits option.splits)
  then obtain amt fee l l' where eff: "purchaseTotal st n = Some amt" "purchaseFee st n = Some fee" "checkTickets st ts = None"
      "\<not> is_lords_pot_paused st" "payer \<noteq> vault" "vault \<noteq> fees"
      "prTransfer env payer vault (uint amt) (pwTokens s) = Some l"
      "(if 0 < fee then prTransfer env payer fees (uint fee) l else Some l) = Some l'"
      "s' = s\<lparr>pwTokens := l', pwLog := pwLog s @ [TicketPurchased k amt n ts (prClock env) (ongoing_epoch st)]\<rparr>"
    by blast
  have "heldBy l vault = heldBy (pwTokens s) vault + uint amt" by (rule transfer_held(2) [OF assms(1) eff(7,5)])
  moreover have "heldBy l' vault = heldBy l vault"
  proof (cases "0 < fee")
    case True
    then have "prTransfer env payer fees (uint fee) l = Some l'" using eff(8) by simp
    from transfer_held(3) [OF assms(1) this] show ?thesis using eff(5,6) by simp
  qed (use eff(8) in simp)
  ultimately have "heldBy l' vault = heldBy (pwTokens s) vault + uint amt" by simp
  then show ?thesis
    by (intro that [of st amt n]) (simp_all add: eff(1) [unfolded n_def] eff(3,4,9) st n_def vault_def)
qed

lemma claim_effect:
  assumes "splToken env" "claimWinnings env user k amt s = Inr s'" "user \<noteq> prVaultAuthority env"
  obtains st where "pwState s = CurrentAccount st" "k = admin st" "\<not> is_lords_pot_paused st" "amt \<le> max_claim_amount st"
    "pwState s' = pwState s" "pwLog s' = pwLog s @ [WinningsClaimed user amt (prClock env)]"
    "heldBy (pwTokens s) (vaultAta env) = heldBy (pwTokens s') (vaultAta env) + uint amt"
proof -
  obtain st where st: "pwState s = CurrentAccount st" "k = admin st"
    using assms(2) by (auto simp: claimWinnings_def loadState_def Let_def split: stateAccount.splits option.splits if_splits)
  define dest l where "dest = prAta env user"
    and "l = (case pwTokens s dest of None \<Rightarrow> (pwTokens s)(dest \<mapsto> 0) | Some _ \<Rightarrow> pwTokens s)"
  have "dest \<noteq> vaultAta env" using assms(1,3) by (auto simp: dest_def vaultAta_def splToken_def inj_def)
  then have same: "l (vaultAta env) = pwTokens s (vaultAta env)" by (auto simp: l_def split: option.splits)
  have "\<exists>l'. \<not> is_lords_pot_paused st \<and> amt \<le> max_claim_amount st \<and> prTransfer env (vaultAta env) dest (uint amt) l = Some l'
      \<and> s' = s\<lparr>pwTokens := l', pwLog := pwLog s @ [WinningsClaimed user amt (prClock env)]\<rparr>"
    using assms(2) st unfolding claimWinnings_def Let_def loadState_def
    by (auto simp: l_def dest_def split: if_splits option.splits)
  then obtain l' where eff: "\<not> is_lords_pot_paused st" "amt \<le> max_claim_amount st"
      "prTransfer env (vaultAta env) dest (uint amt) l = Some l'"
      "s' = s\<lparr>pwTokens := l', pwLog := pwLog s @ [WinningsClaimed user amt (prClock env)]\<rparr>" by blast
  have "heldBy (pwTokens s) (vaultAta env) = heldBy l (vaultAta env)" using same by (simp add: heldBy_def)
  also have "\<dots> = heldBy l' (vaultAta env) + uint amt"
    using transfer_held(1) [OF assms(1) eff(3)] \<open>dest \<noteq> vaultAta env\<close> by blast
  finally have "heldBy (pwTokens s) (vaultAta env) = heldBy l' (vaultAta env) + uint amt" .
  then show ?thesis using that [of st] st eff by simp
qed

lemma withdraw_effect:
  assumes "splToken env" "withdrawVaultFunds env k dest amt s = Inr s'"
  obtains st where "pwState s = CurrentAccount st" "k = treasury_authority st" "pwState s' = pwState s"
    "pwLog s' = pwLog s @ [VaultWithdrawal k dest amt (prClock env)]"
    "heldBy (pwTokens s) (vaultAta env) = heldBy (pwTokens s') (vaultAta env) + (if dest = vaultAta env then 0 else uint amt)"
proof -
  have "\<exists>st l'. pwState s = CurrentAccount st \<and> k = treasury_authority st
      \<and> prTransfer env (vaultAta env) dest (uint amt) (pwTokens s) = Some l'
      \<and> s' = s\<lparr>pwTokens := l', pwLog := pwLog s @ [VaultWithdrawal k dest amt (prClock env)]\<rparr>"
    using assms(2) by (auto simp: withdrawVaultFunds_def loadState_def split: if_splits option.splits stateAccount.splits)
  then obtain st l' where eff: "pwState s = CurrentAccount st" "k = treasury_authority st"
      "prTransfer env (vaultAta env) dest (uint amt) (pwTokens s) = Some l'"
      "s' = s\<lparr>pwTokens := l', pwLog := pwLog s @ [VaultWithdrawal k dest amt (prClock env)]\<rparr>" by blast
  have "heldBy (pwTokens s) (vaultAta env) = heldBy l' (vaultAta env) + (if dest = vaultAta env then 0 else uint amt)"
    using transfer_held(1,4) [OF assms(1) eff(3)] by (cases "dest = vaultAta env") simp_all
  then show ?thesis using that [of st] eff by simp
qed

lemma exec_balanced:
  assumes "splToken env" "prVaultAuthority env \<notin> set (signedBy i)" "execIx env i s = Inr s'" "balanced env start s"
  shows "balanced env start s'"
proof -
  consider (buy) k acc ts where "i = IxBuy k acc ts" | (claim) u k a where "i = IxClaim u k a"
    | (withdraw) k d a where "i = IxWithdraw k d a"
    | (other) "case i of IxBuy _ _ _ \<Rightarrow> False | IxClaim _ _ _ \<Rightarrow> False | IxWithdraw _ _ _ \<Rightarrow> False | _ \<Rightarrow> True"
    by (cases i) auto
  then show ?thesis
  proof cases
    case buy
    then have "buyTicket env k acc ts s = Inr s'" using assms(3) by simp
    then show ?thesis by (rule buy_effect [OF assms(1)]) (use assms(4) in \<open>simp add: balanced_def eventsIn_def eventsOut_def\<close>)
  next
    case claim
    then have "claimWinnings env u k a s = Inr s'" "u \<noteq> prVaultAuthority env" using assms(2,3) by auto
    then show ?thesis
      by (rule claim_effect [OF assms(1)]) (use assms(4) in \<open>simp add: balanced_def eventsIn_def eventsOut_def\<close>)
  next
    case withdraw
    then have "withdrawVaultFunds env k d a s = Inr s'" using assms(3) by simp
    then show ?thesis
      by (rule withdraw_effect [OF assms(1)]) (use assms(4) in \<open>simp add: balanced_def eventsIn_def eventsOut_def\<close>)
  next
    case other
    then show ?thesis using quiet_ix [OF assms(3)] assms(4) by (simp add: balanced_def eventsIn_def eventsOut_def)
  qed
qed

lemma runTx_balanced:
  "splToken env \<Longrightarrow> list_all (\<lambda>i. prVaultAuthority env \<notin> set (signedBy i)) is \<Longrightarrow> runTx env is s = Inr s'
    \<Longrightarrow> balanced env start s \<Longrightarrow> balanced env start s'"
  by (induction "is" arbitrary: s) (auto split: sum.splits intro: exec_balanced)

text \<open>A purchase, an attempt of a stranger to pause, and a claim.\<close>

definition moveUsdc :: "string \<Rightarrow> string \<Rightarrow> int \<Rightarrow> tokens \<Rightarrow> tokens option" where
  "moveUsdc payer to n l = (case (l payer, l to) of (Some held, Some got) \<Rightarrow>
       (if held < n then None else if payer = to then Some l else Some (l(payer \<mapsto> held - n, to \<mapsto> got + n)))
     | _ \<Rightarrow> None)"

definition devnet :: progEnv where
  "devnet = \<lparr> prTransfer = moveUsdc, prAta = (\<lambda>k. ''ata:'' @ k), prVaultAuthority = ''pda'', prClock = 1700000000, prTopUp = True \<rparr>"

lemma devnet_spl: "splToken devnet"
  by (simp add: splToken_def devnet_def moveUsdc_def inj_def)

definition liveState :: lordsPotState where
  "liveState = \<lparr> normal_max = 30, bonus_max = 10, ticket_price = 1000000, ongoing_epoch = 152, is_lords_pot_paused = False,
     admin = ''admin'', version = 2, relay_fee_base = 0, relay_fee_per_ticket = 0, fee_recipient = ''admin'',
     max_tickets_per_purchase = 65, max_claim_amount = 100000000000, treasury_authority = ''cold'' \<rparr>"

definition liveWorld :: progWorld where
  "liveWorld = \<lparr> pwState = CurrentAccount liveState,
     pwTokens = [''ata:alice'' \<mapsto> 5000000, ''ata:pda'' \<mapsto> 7000000, ''ata:admin'' \<mapsto> 0], pwLog = [] \<rparr>"

text \<open>The accounts of a caller who derives them from its own key and a fee recipient.\<close>

definition ownAccounts :: "progEnv \<Rightarrow> string \<Rightarrow> string \<Rightarrow> buyAccounts" where
  "ownAccounts env k feeRecipient = \<lparr> buyer_usdc_account = prAta env k, vault_usdc_account = vaultAta env,
     fee_recipient_usdc_account = prAta env feeRecipient \<rparr>"

definition liveTxs :: "progIx list list" where
  "liveTxs = [[IxBuy ''alice'' (ownAccounts devnet ''alice'' ''admin'') [\<lparr> normal_ball = [1, 5, 9, 13, 18], bonus_ball = 8 \<rparr>]], [IxPause ''mallory''],
     [IxClaim ''bob'' ''admin'' 2000000]]"

section \<open>Who can move the vault\<close>

text \<open>One instruction lowers the vault only with the admin's signature, up to the ceiling, or the treasury's.\<close>

lemma vault_keys:
  assumes "splToken env" "prVaultAuthority env \<notin> set (signedBy i)" "execIx env i s = Inr s'"
    "heldBy (pwTokens s') (vaultAta env) < heldBy (pwTokens s) (vaultAta env)"
  shows "\<exists>st. pwState s = CurrentAccount st
    \<and> ((\<exists>u amt. i = IxClaim u (admin st) amt \<and> amt \<le> max_claim_amount st \<and> \<not> is_lords_pot_paused st)
       \<or> (\<exists>dest amt. i = IxWithdraw (treasury_authority st) dest amt))"
proof -
  consider (buy) k acc ts where "i = IxBuy k acc ts" | (claim) u k a where "i = IxClaim u k a"
    | (withdraw) k d a where "i = IxWithdraw k d a"
    | (other) "case i of IxBuy _ _ _ \<Rightarrow> False | IxClaim _ _ _ \<Rightarrow> False | IxWithdraw _ _ _ \<Rightarrow> False | _ \<Rightarrow> True"
    by (cases i) auto
  then show ?thesis
  proof cases
    case buy
    then have "buyTicket env k acc ts s = Inr s'" using assms(3) by simp
    then show ?thesis by (rule buy_effect [OF assms(1)]) (use assms(4) in simp)
  next
    case claim
    then have "claimWinnings env u k a s = Inr s'" "u \<noteq> prVaultAuthority env" using assms(2,3) by auto
    then show ?thesis by (rule claim_effect [OF assms(1)]) (use claim in simp)
  next
    case withdraw
    then have "withdrawVaultFunds env k d a s = Inr s'" using assms(3) by simp
    then show ?thesis by (rule withdraw_effect [OF assms(1)]) (use withdraw in simp)
  next
    case other
    then show ?thesis using quiet_ix [OF assms(3)] assms(4) by simp
  qed
qed

text \<open>
  The ceiling of a claim is set by the same key that signs claims, so the admin key alone empties the
  vault in one transaction, to itself, without the treasury.
\<close>

definition raisedCeiling :: "string \<Rightarrow> relayConfig" where
  "raisedCeiling k = \<lparr> rcFeeBase = 0, rcFeePerTicket = 0, rcFeeRecipient = k, rcMaxTickets = 1, rcMaxClaim = - 1 \<rparr>"

lemma admin_key_empties_vault:
  assumes "splToken env" "pwState s = CurrentAccount st" "\<not> is_lords_pot_paused st"
    "pwTokens s (vaultAta env) = Some held" "0 < held" "held < 2 ^ 64" "admin st \<noteq> prVaultAuthority env"
  shows "\<exists>s'. runTx env [IxSetRelay (admin st) (raisedCeiling (admin st)), IxClaim (admin st) (admin st) (word_of_int held)] s = Inr s'
    \<and> pwTokens s' (vaultAta env) = Some 0"
proof -
  define dest where "dest = prAta env (admin st)"
  define l where "l = (case pwTokens s dest of None \<Rightarrow> (pwTokens s)(dest \<mapsto> 0) | Some _ \<Rightarrow> pwTokens s)"
  have d: "dest \<noteq> vaultAta env" using assms(1,7) by (auto simp: dest_def vaultAta_def splToken_def inj_def)
  then have l: "l (vaultAta env) = Some held" "l dest \<noteq> None" using assms(4) by (auto simp: l_def split: option.splits)
  have u: "uint (word_of_int held :: 64 word) = held" using assms(5,6) by (simp add: uint_word_of_int)
  then have pos: "(0 :: 64 word) < word_of_int held" using assms(5) by (simp add: word_less_def)
  obtain got where got: "l dest = Some got" using l(2) by blast
  have t: "prTransfer env (vaultAta env) dest held l = Some (l(vaultAta env \<mapsto> 0, dest \<mapsto> got + held))"
    using assms(1) l(1) got d by (auto simp: splToken_def)
  have c: "setRelayConfig (admin st) (raisedCeiling (admin st)) s
      = Inr (s\<lparr>pwState := CurrentAccount (withConfig (raisedCeiling (admin st)) st)\<rparr>)"
    using assms(2) by (simp add: setRelayConfig_def asAdmin_def loadState_def validateRelayConfig_def raisedCeiling_def
        HARD_MAX_TICKETS_PER_PURCHASE_def word_gt_0)
  have "\<exists>s'. claimWinnings env (admin st) (admin st) (word_of_int held)
      (s\<lparr>pwState := CurrentAccount (withConfig (raisedCeiling (admin st)) st)\<rparr>) = Inr s'
    \<and> pwTokens s' (vaultAta env) = Some 0"
    using assms(3,4) pos u t d
    by (cases "pwTokens s dest") (simp_all add: claimWinnings_def loadState_def withConfig_def
        raisedCeiling_def Let_def l_def flip: dest_def)
  then show ?thesis by (auto simp: c)
qed

end
