(* ===== verification/Deploy.thy ===== *)
theory Deploy
  imports SolanaProgram
begin

text \<open>
  The deployment script (\<open>solana_smart_contracts/migrations/deploy.ts\<close>) over the program: which of its
  three states it finds, which transactions it sends, and what holds when it has run.
\<close>

section \<open>The constants of the script\<close>

definition NORMAL_MAX :: "8 word" where "NORMAL_MAX = 30"

definition BONUS_MAX :: "8 word" where "BONUS_MAX = 10"

definition TICKET_PRICE :: "64 word" where "TICKET_PRICE = 1000000"

definition INIT_EPOCH :: "64 word" where "INIT_EPOCH = 152"

definition LEGACY_STATE_SIZE :: nat where "LEGACY_STATE_SIZE = 60"

text \<open>The wallet \<open>k\<close> of the deployer is admin, fee recipient and treasury.\<close>

definition relayConstants :: "string \<Rightarrow> relayConfig" where
  "relayConstants k = \<lparr> rcFeeBase = 0, rcFeePerTicket = 0, rcFeeRecipient = k, rcMaxTickets = 65, rcMaxClaim = 100000000000 \<rparr>"

section \<open>The script\<close>

text \<open>
  Every \<open>rpc()\<close> is a transaction of its own: what it wrote stays when a later one fails. The result
  is the error thrown, the world after it and the instructions sent.
\<close>

record deployRun =
  drError :: "lordsPotError option"
  drWorld :: progWorld
  drSent :: "progIx list"

definition rpc :: "progEnv \<Rightarrow> progIx \<Rightarrow> deployRun \<Rightarrow> deployRun" where
  "rpc env i r =
     (if drError r \<noteq> None then r
      else case execIx env i (drWorld r) of
        Inl e \<Rightarrow> r\<lparr>drError := Some e, drSent := drSent r @ [i]\<rparr>
      | Inr s \<Rightarrow> r\<lparr>drWorld := s, drSent := drSent r @ [i]\<rparr>)"

definition drifted :: "string \<Rightarrow> lordsPotState \<Rightarrow> bool" where
  "drifted k st \<longleftrightarrow> relay_fee_base st \<noteq> rcFeeBase (relayConstants k)
     \<or> relay_fee_per_ticket st \<noteq> rcFeePerTicket (relayConstants k)
     \<or> fee_recipient st \<noteq> rcFeeRecipient (relayConstants k)
     \<or> max_tickets_per_purchase st \<noteq> rcMaxTickets (relayConstants k)
     \<or> max_claim_amount st \<noteq> rcMaxClaim (relayConstants k)"

text \<open>\<open>account.lordsPotState.fetch\<close>, which throws when there is none to decode.\<close>

definition withFetched :: "(lordsPotState \<Rightarrow> deployRun \<Rightarrow> deployRun) \<Rightarrow> deployRun \<Rightarrow> deployRun" where
  "withFetched f r =
     (if drError r \<noteq> None then r
      else case loadState (drWorld r) of Inl e \<Rightarrow> r\<lparr>drError := Some e\<rparr> | Inr st \<Rightarrow> f st r)"

definition bootstrapTreasury :: "progEnv \<Rightarrow> string \<Rightarrow> lordsPotState \<Rightarrow> deployRun \<Rightarrow> deployRun" where
  "bootstrapTreasury env k st r = (if treasury_authority st = DEFAULT_PUBKEY then rpc env (IxSetTreasury k k) r else r)"

definition syncConfig :: "progEnv \<Rightarrow> string \<Rightarrow> lordsPotState \<Rightarrow> deployRun \<Rightarrow> deployRun" where
  "syncConfig env k st r = (if drifted k st then rpc env (IxSetRelay k (relayConstants k)) r else r)"

definition deploy :: "progEnv \<Rightarrow> string \<Rightarrow> progWorld \<Rightarrow> deployRun" where
  "deploy env k s =
     (let r = \<lparr> drError = None, drWorld = s, drSent = [] \<rparr>
      in case stateLen (pwState s) of
        None \<Rightarrow> rpc env (IxInitialize k NORMAL_MAX BONUS_MAX TICKET_PRICE INIT_EPOCH (relayConstants k) k) r
      | Some n \<Rightarrow>
        (if n = LEGACY_STATE_SIZE then rpc env (IxMigrate k (relayConstants k) k) r
         else withFetched (syncConfig env k) (withFetched (bootstrapTreasury env k) r)))"

section \<open>What a run leaves\<close>














text \<open>An upgrade keeps the rules of the game, the admin and the pause.\<close>

lemma migrate_keeps:
  assumes "pwState s = LegacyAccount old" "drError (deploy env k s) = None"
  shows "\<exists>st. pwState (drWorld (deploy env k s)) = CurrentAccount st \<and> admin st = old_admin old
    \<and> ongoing_epoch st = old_ongoing_epoch old \<and> ticket_price st = old_ticket_price old \<and> is_lords_pot_paused st = old_paused old
    \<and> normal_max st = old_normal_max old \<and> bonus_max st = old_bonus_max old"
  using assms by (auto simp: deploy_def stateLen_def LEGACY_STATE_SIZE_def rpc_def migrateState_def
      split: if_splits option.splits)

text \<open>Whoever initializes first is the admin, and a vault account made beforehand blocks everyone.\<close>

lemma first_comer_is_admin:
  "initialize env k nm bm price epoch c t s = Inr s' \<Longrightarrow> \<exists>st. pwState s' = CurrentAccount st \<and> admin st = k"
  by (auto simp: initialize_def split: if_splits option.splits)

lemma squatted_vault_blocks_initialize:
  "pwTokens s (vaultAta env) \<noteq> None \<Longrightarrow> initialize env k nm bm price epoch c t s = Inl AccountInUse"
  by (simp add: initialize_def)

end
