(* ===== verification/Purchase.thy ===== *)
theory Purchase
  imports ApiContract Deploy
begin

text \<open>
  From the buy button to the chain: what \<open>pages/Home\<close> and \<open>solana/buyTickets.ts\<close> send, run by the
  program, and the order the ticket worker makes of the event.
\<close>

section \<open>What is sent\<close>

text \<open>
  The encoding of a ticket by the IDL, and one transaction per chunk, each instruction with the accounts
  \<open>buyTickets.ts\<close> derives: the buyer's own, the vault's, and that of the key it is given as fee recipient.
\<close>

definition toProgramTicket :: "ixTicket \<Rightarrow> programTicket" where
  "toProgramTicket x = \<lparr> normal_ball = ixNormals x, bonus_ball = word_of_int (ixBonus x) \<rparr>"

definition purchaseTxs :: "progEnv \<Rightarrow> string \<Rightarrow> string \<Rightarrow> stagedTicket list \<Rightarrow> progIx list list" where
  "purchaseTxs env k feeRecipient ts =
     map (map (\<lambda>ix. IxBuy k (ownAccounts env k feeRecipient) (map toProgramTicket ix))) (buildTransactions ts)"

text \<open>The buy page gives the admin of the state account as fee recipient.\<close>

definition homeTxs :: "progEnv \<Rightarrow> string \<Rightarrow> onChainView \<Rightarrow> stagedTicket list \<Rightarrow> progIx list list" where
  "homeTxs env k oc ts = purchaseTxs env k (ocAdmin oc) ts"


fun boughtIn :: "progEvent \<Rightarrow> programTicket list" where
  "boughtIn (TicketPurchased u amt n ts t ep) = ts"
| "boughtIn _ = []"

fun isPurchaseOf :: "string \<Rightarrow> 64 word \<Rightarrow> progEvent \<Rightarrow> bool" where
  "isPurchaseOf k epoch (TicketPurchased u amt n ts t ep) = (u = k \<and> ep = epoch \<and> unat n = length ts)"
| "isPurchaseOf k epoch _ = False"

section \<open>One instruction\<close>






section \<open>A whole purchase\<close>

definition wire :: "stagedTicket \<Rightarrow> programTicket" where "wire t = toProgramTicket (formatTicket t)"

definition buyTx :: "progEnv \<Rightarrow> string \<Rightarrow> string \<Rightarrow> stagedTicket list \<Rightarrow> progIx list" where
  "buyTx env k feeRecipient c = [IxBuy k (ownAccounts env k feeRecipient) (map wire c)]"

lemma purchaseTxs_chunks: "purchaseTxs env k fr ts = map (buyTx env k fr) (chunksOf MAX_TICKETS_PER_IX ts)"
  by (simp add: purchaseTxs_def buildTransactions_single buyTx_def wire_def comp_def)





text \<open>
  The page passes the admin for the fee recipient, and the program looks for the fee recipient's account:
  where the two are not the same key, every purchase fails, whatever is staged and whoever pays.
\<close>

lemma other_fee_recipient_sells_nothing:
  assumes "splToken env" "pwState s = CurrentAccount st" "ocAdmin oc \<noteq> fee_recipient st"
  shows "fold (submitTx env) (homeTxs env k oc ts) s = s"
proof -
  have a: "prAta env (ocAdmin oc) \<noteq> prAta env (fee_recipient st)" using assms(1,3) by (auto simp: splToken_def inj_def)
  have "submitTx env (buyTx env k (ocAdmin oc) c) s = s" for c
    using a assms(2) by (auto simp: submitTx_def buyTx_def buyTicket_def loadState_def Let_def ownAccounts_def)
  then have "fold (submitTx env) (map (buyTx env k (ocAdmin oc)) cs) s = s" for cs
    by (induction cs) simp_all
  then show ?thesis by (simp add: homeTxs_def purchaseTxs_chunks)
qed




section \<open>The order\<close>

text \<open>What the Anchor decoder of the worker gives for an event of the program.\<close>

fun decoded :: "progEvent \<Rightarrow> purchaseEvent list" where
  "decoded (TicketPurchased u amt n ts t epoch) =
     [\<lparr> peName = ''TicketPurchaseEvent'', peBuyer = u, peEpoch = uint epoch, peTimestamp = t, peAmount = uint amt,
        peCount = uint n, peTickets = map (\<lambda>x. (uint (bonus_ball x), map uint (normal_ball x))) ts \<rparr>]"
| "decoded _ = []"

lemma wire_decodes:
  assumes "ticketOk t" "isTicketComplete t nm bm" "nm \<le> 255" "bm \<le> 255"
  shows "(uint (bonus_ball (wire t)), map uint (normal_ball (wire t))) = (the (stBonus t), stNormals t)"
proof -
  have c: "\<forall>n \<in> set (stNormals t). 1 \<le> n \<and> n \<le> nm" "\<exists>b. stBonus t = Some b \<and> 1 \<le> b \<and> b \<le> bm"
    using assms complete_iff by blast+
  have "uint (word_of_int n :: 8 word) = n" if "1 \<le> n" "n \<le> 255" for n
    using that by (simp add: uint_word_of_int)
  then show ?thesis
    using c assms(3,4) by (force simp: wire_def toProgramTicket_def formatTicket_def intro: map_idI)
qed

text \<open>
  The worker that reads such an event records an order of its buyer and epoch with the tickets as they
  were on the page.
\<close>

lemma event_becomes_order:
  assumes "isPurchaseOf k epoch ev" "boughtIn ev = map wire c" "parseEvents ienv logs = decoded ev"
    "\<not> orderTaken (idHash ienv sig) sig w"
    "\<And>t. t \<in> set c \<Longrightarrow> ticketOk t \<and> isTicketComplete t nm bm" "nm \<le> 255" "bm \<le> 255"
  shows "\<exists>new r. tickets (snd (runTicketJob ienv sig logs w)) = tickets w @ new
    \<and> map (\<lambda>t. (bonusBall t, normalBalls t)) new = map (\<lambda>t. (the (stBonus t), stNormals t)) c
    \<and> orders (snd (runTicketJob ienv sig logs w)) = orders w @ [r]
    \<and> buyer r = k \<and> purchaseEpoch r = uint epoch \<and> orderTicketCount r = int (length c) \<and> amountUsdc r = paidIn ev"
proof -
  obtain amt n t where ev: "ev = TicketPurchased k amt n (map wire c) t epoch" "unat n = length c"
    using assms(1,2) by (cases ev) auto
  then have un: "uint n = int (length c)" by (metis uint_nat)
  let ?pe = "hd (decoded ev)"
  have p: "purchases ienv logs = [?pe]" "peBuyer ?pe = k" "peEpoch ?pe = uint epoch" "peCount ?pe = int (length c)"
    "peAmount ?pe = paidIn ev"
    using assms(3) ev by (simp_all add: purchases_def isTicketPurchaseEvent_def un)
  have tks: "peTickets ?pe = map (\<lambda>t. (the (stBonus t), stNormals t)) c"
    using wire_decodes [of _ nm bm] assms(5-7) by (simp add: ev)
  have "agree [?pe]" by (simp add: agree_def)
  then show ?thesis
    using createTickets_rows [of ienv "idHash ienv sig" "peTickets ?pe" "w\<lparr>orders := orders w @ [newOrder ienv sig [?pe]]\<rparr>"]
    by (auto simp: runTicketJob_def Let_def p assms(4) tks newOrder_def enqueue_def)
qed

end
