(* ===== verification/OnChain.thy ===== *)
theory OnChain
  imports Transition SolanaProgram
begin

text \<open>
  The backend's transactions (\<open>services/solanaService.ts\<close>) run by the program: the resume that ends an
  epoch transition and the claim voucher a user sends.
\<close>

text \<open>An instruction of the service, signed by the admin \<open>k\<close>; compute budgets do not reach the program.\<close>

fun programIx :: "string \<Rightarrow> solInstr \<Rightarrow> progIx list" where
  "programIx k PauseProtocol = [IxPause k]"
| "programIx k (UpdateEpoch nm bm) = [IxUpdate k (word_of_int nm) (word_of_int bm)]"
| "programIx k (ResumeProtocol i) = [IxResume k (word_of_int i)]"
| "programIx k (ClaimWinnings u amt) = [IxClaim u k (word_of_int amt)]"
| "programIx k _ = []"

definition programTx :: "string \<Rightarrow> solTx \<Rightarrow> progIx list" where
  "programTx k tx = concat (map (programIx k) (txInstrs tx))"

lemma programTx_priced: "programTx k (priced env payer bh units core) = concat (map (programIx k) core)"
  by (simp add: programTx_def priced_def)

text \<open>What \<open>fetchOnChainState\<close> of the service reads.\<close>

definition chainRead :: "lordsPotState \<Rightarrow> onChainState" where
  "chainRead st = \<lparr> isLordsPotPaused = is_lords_pot_paused st, chainNormalMax = uint (normal_max st),
     chainBonusMax = uint (bonus_max st), ongoingEpoch = uint (ongoing_epoch st) \<rparr>"

section \<open>The resume\<close>

definition resumed :: "int \<Rightarrow> int \<Rightarrow> int \<Rightarrow> lordsPotState \<Rightarrow> lordsPotState" where
  "resumed n b i st = st\<lparr>is_lords_pot_paused := False, ongoing_epoch := word_of_int i, normal_max := word_of_int n,
     bonus_max := word_of_int b\<rparr>"

text \<open>
  C22: the resume a transition sends lands: when the chain it read is the chain the transaction meets,
  the update it includes is never refused as unchanged, and the program accepts the transaction exactly
  when the round's id is above the epoch on chain; then it is unpaused on that round with its limits.
\<close>
theorem resume_lands:
  assumes "rolledOver env j cur (Resumed n b upd i)" "tOnChain env j = Inr (chainRead st)" "pwState s = CurrentAccount st"
    "0 \<le> n" "n < 256" "0 \<le> b" "b < 256" "0 \<le> i" "i < 2 ^ 64"
  shows "runTx penv (programTx (admin st) (priced senv payer bh units (resumeInstrs n b upd i))) s
    = (if uint (ongoing_epoch st) < i then Inr (s\<lparr>pwState := CurrentAccount (resumed n b i st)\<rparr>) else Inl InvalidNextEpoch)"
proof -
  obtain bp where bp: "normals_max bp = Some n" "bonusball_max bp = Some b" "upd = limitsDiffer bp (chainRead st)"
    and p: "is_lords_pot_paused st"
    using assms(1,2) by (auto simp: rolledOver_def chainRead_def)
  have w: "uint (word_of_int n :: 8 word) = n" "uint (word_of_int b :: 8 word) = b" "uint (word_of_int i :: 64 word) = i"
    using assms(4-9) by (simp_all add: uint_word_of_int)
  have differ: "upd \<longleftrightarrow> word_of_int n \<noteq> normal_max st \<or> word_of_int b \<noteq> bonus_max st"
    using bp w by (auto simp: limitsDiffer_def chainRead_def)
  have less: "ongoing_epoch st < word_of_int i \<longleftrightarrow> uint (ongoing_epoch st) < i" using w by (simp add: word_less_def)
  show ?thesis
  proof (cases upd)
    case True
    then show ?thesis
      using differ less p assms(3)
      by (auto simp: programTx_priced resumeInstrs_def progUpdateEpoch_def progResume_def asAdmin_def loadState_def resumed_def)
  next
    case False
    then have "resumed n b i st = st\<lparr>is_lords_pot_paused := False, ongoing_epoch := word_of_int i\<rparr>"
      using differ by (auto simp: resumed_def)
    then show ?thesis
      using False less p assms(3)
      by (auto simp: programTx_priced resumeInstrs_def progResume_def asAdmin_def loadState_def)
  qed
qed

definition pausedState :: lordsPotState where
  "pausedState = liveState\<lparr>is_lords_pot_paused := True, ongoing_epoch := 7\<rparr>"

lemma rolled_sample: "rolledOver (rollEnv\<lparr>tOnChain := (\<lambda>_. Inr (chainRead pausedState))\<rparr>) 2 (Some 7) (Resumed 30 11 True 8)"
proof -
  have "bigIntOf ''8'' = Some 8" "newerThan (parseInt10 ''8'') (Some 7)" by code_simp+
  then show ?thesis
    unfolding rolledOver_def
    by (intro exI [of _ "liveRound ''8'' 90000000"] exI [of _ "chainRead pausedState"]
        exI [of _ "\<lparr> normals_max = Some 30, bonusball_max = Some 11 \<rparr>"] exI)
       (simp add: rollEnv_def liveRound_def limitsDiffer_def chainRead_def pausedState_def liveState_def)
qed

theorem resume_lands_witness:
  "map_sum id pwState (runTx devnet (programTx ''admin'' (priced (nodeOf [] (\<lambda>_. None)) ''admin'' ''bh'' 40000 (resumeInstrs 30 11 True 8)))
      (liveWorld\<lparr>pwState := CurrentAccount pausedState\<rparr>))
   = Inr (CurrentAccount (pausedState\<lparr>is_lords_pot_paused := False, ongoing_epoch := 8, bonus_max := 11\<rparr>))"
  using resume_lands [OF rolled_sample, of pausedState "liveWorld\<lparr>pwState := CurrentAccount pausedState\<rparr>" devnet "nodeOf [] (\<lambda>_. None)" "''admin''" "''bh''" 40000]
  by (simp add: pausedState_def liveState_def resumed_def)

section \<open>The voucher\<close>

text \<open>
  A voucher the user sends pays the user its amount, out of the vault, exactly when the program is not
  paused, the amount is within the ceiling and the vault holds it.
\<close>

lemma voucher_pays:
  assumes "splToken penv" "pwState s = CurrentAccount st" "pwTokens s (vaultAta penv) = Some held"
    "user \<noteq> prVaultAuthority penv" "0 < amt" "amt < 2 ^ 64"
  shows "(\<exists>s'. runTx penv (programTx (admin st) (priced senv user bh CU_LIMIT_CLAIM [ClaimWinnings user amt])) s = Inr s')
    \<longleftrightarrow> \<not> is_lords_pot_paused st \<and> amt \<le> uint (max_claim_amount st) \<and> amt \<le> held"
    and "runTx penv (programTx (admin st) (priced senv user bh CU_LIMIT_CLAIM [ClaimWinnings user amt])) s = Inr s'
    \<Longrightarrow> heldBy (pwTokens s') (prAta penv user) = heldBy (pwTokens s) (prAta penv user) + amt
      \<and> heldBy (pwTokens s') (vaultAta penv) = held - amt"
proof -
  define dest l where "dest = prAta penv user"
    and "l = (case pwTokens s dest of None \<Rightarrow> (pwTokens s)(dest \<mapsto> 0) | Some _ \<Rightarrow> pwTokens s)"
  have d: "dest \<noteq> vaultAta penv" using assms(1,4) by (auto simp: dest_def vaultAta_def splToken_def inj_def)
  have u: "uint (word_of_int amt :: 64 word) = amt" using assms(5,6) by (simp add: uint_word_of_int)
  have l: "l (vaultAta penv) = Some held" "l dest \<noteq> None" "heldBy l dest = heldBy (pwTokens s) dest"
    using d assms(3) by (auto simp: l_def heldBy_def split: option.splits)
  have t: "prTransfer penv (vaultAta penv) dest amt l
      = (if held < amt then None else Some (l(vaultAta penv \<mapsto> held - amt, dest \<mapsto> heldBy l dest + amt)))"
    using assms(1) l d by (auto simp: splToken_def heldBy_def)
  have run: "runTx penv (programTx (admin st) (priced senv user bh CU_LIMIT_CLAIM [ClaimWinnings user amt])) s
      = (if is_lords_pot_paused st then Inl ProtocolPaused
         else if \<not> amt \<le> uint (max_claim_amount st) then Inl ClaimExceedsMaxAmount
         else if held < amt then Inl InsufficientVaultFunds
         else Inr (s\<lparr>pwTokens := l(vaultAta penv \<mapsto> held - amt, dest \<mapsto> heldBy l dest + amt),
           pwLog := pwLog s @ [WinningsClaimed user (word_of_int amt) (prClock penv)]\<rparr>))"
    using assms(2,3,5) u t
    by (simp add: programTx_priced claimWinnings_def loadState_def Let_def word_less_def word_le_def
        l_def [symmetric] dest_def [symmetric])
  show "(\<exists>s'. runTx penv (programTx (admin st) (priced senv user bh CU_LIMIT_CLAIM [ClaimWinnings user amt])) s = Inr s')
    \<longleftrightarrow> \<not> is_lords_pot_paused st \<and> amt \<le> uint (max_claim_amount st) \<and> amt \<le> held"
    unfolding run by auto
  show "heldBy (pwTokens s') (prAta penv user) = heldBy (pwTokens s) (prAta penv user) + amt
      \<and> heldBy (pwTokens s') (vaultAta penv) = held - amt"
    if "runTx penv (programTx (admin st) (priced senv user bh CU_LIMIT_CLAIM [ClaimWinnings user amt])) s = Inr s'"
    using that d l(3) unfolding run by (auto simp: heldBy_def dest_def split: if_splits)
qed

end
