(* ===== verification/ApiServer.thy ===== *)
theory ApiServer
  imports ApiContract
begin

text \<open>
  The HTTP server of \<open>api/server.ts\<close>: the middleware in the order it is registered, the health check in
  front of the rate limit, the three routers that are mounted and the routes each declares. Express, the
  CORS and JSON middleware and the rate limiter are packages: each is a parameter, a function that may
  answer a request itself. The theory shows that a run of the server is a run of the backend's actions and
  that every call of the browser reaches the route written for it.
\<close>

section \<open>Requests and the packages\<close>

record httpRequest =
  rqMethod :: string
  rqUrl :: string
  rqIp :: string
  rqOrigin :: "string option"
  rqAuth :: string
  rqBody :: string

text \<open>An answer has a status and a body; \<open>None\<close> is a body that is not JSON.\<close>

type_synonym answer = "nat \<times> json option"

text \<open>
  \<open>spCors origins\<close>: the CORS middleware, which answers a preflight itself. \<open>spBody\<close>: the JSON reader, with
  its answer to a body it refuses or the value of \<open>req.body\<close> (\<open>JNull\<close> when there is none). \<open>spLimit max
  window\<close>: the limiter's answer for an address and its counters afterwards. \<open>spMatch\<close>: whether a request
  matches the method and the pattern of a route, and the values of the pattern's parameters.
  \<open>spQuery\<close>: a parameter of the query string.
\<close>

record 's serverParts =
  spCors :: "string list \<Rightarrow> httpRequest \<Rightarrow> answer option"
  spBody :: "string \<Rightarrow> httpRequest \<Rightarrow> (answer, json) result"
  spLimit :: "int \<Rightarrow> int \<Rightarrow> string \<Rightarrow> 's \<Rightarrow> answer option \<times> 's"
  spMatch :: "string \<Rightarrow> string \<Rightarrow> httpRequest \<Rightarrow> string list option"
  spQuery :: "httpRequest \<Rightarrow> string \<Rightarrow> json option"

record serverEnv =
  seNow :: int
  seOrigin :: "string option"
  seIngest :: ingestEnv
  seClaim :: claimEnv
  seProto :: protoEnv
  seUtc :: utc

fun splitAt :: "char \<Rightarrow> string \<Rightarrow> string list" where
  "splitAt d [] = [[]]"
| "splitAt d (c # cs) =
     (if c = d then [] # splitAt d cs
      else case splitAt d cs of s # r \<Rightarrow> (c # s) # r | [] \<Rightarrow> [[c]])"

text \<open>\<open>(process.env.FRONTEND_ORIGIN ?? 'http://localhost:5173').split(',')\<close>.\<close>

definition allowedOrigins :: "string option \<Rightarrow> string list" where
  "allowedOrigins en = splitAt (CHR '','') (case en of None \<Rightarrow> ''http://localhost:5173'' | Some s \<Rightarrow> s)"

section \<open>The routes\<close>

type_synonym handler =
  "serverEnv \<Rightarrow> (string \<Rightarrow> json option) \<Rightarrow> string list \<Rightarrow> httpRequest \<Rightarrow> json \<Rightarrow> world \<Rightarrow> answer \<times> world"

text \<open>A handler that throws is answered by Express with status 500.\<close>

definition sent :: "(nat \<times> json) option \<Rightarrow> answer" where
  "sent a = (case a of None \<Rightarrow> (500, None) | Some (n, v) \<Rightarrow> (n, Some v))"

definition webhookAnswer :: "webhookResponse \<Rightarrow> answer" where
  "webhookAnswer r =
     (case r of
        WhMisconfigured \<Rightarrow> (500, Some (JObj [(''ok'', JBool False), (''error'', JStr ''Server misconfiguration'')]))
      | WhUnauthorized \<Rightarrow> (401, Some (JObj [(''ok'', JBool False)]))
      | WhOk n k \<Rightarrow> (200, Some (JObj [(''ok'', JBool True), (''received'', numJson (int n)), (''enqueued'', numJson (int k))]))
      | WhError \<Rightarrow> (500, Some (JObj [(''ok'', JBool False)])))"

definition postHelius :: handler where
  "postHelius env q ps rq body w =
     (case heliusWebhook (seIngest env) (rqAuth rq) body w of (r, w') \<Rightarrow> (webhookAnswer r, w'))"

definition getSummary :: handler where
  "getSummary env q ps rq body w =
     (sent (served (claimSummaryJson (seUtc env)) (summaryRoute (seClaim env) (q ''wallet'') w)), w)"

text \<open>\<open>req.body?.wallet\<close>.\<close>

definition bodyWallet :: "json \<Rightarrow> json" where
  "bodyWallet body = (case getProp ''wallet'' body of None \<Rightarrow> JNull | Some v \<Rightarrow> v)"

definition postVoucher :: handler where
  "postVoucher env q ps rq body w =
     (case voucherRoute (seClaim env) (bodyWallet body) w of
        (r, w') \<Rightarrow> (sent (Some (voucherJson r)), w'))"

definition getState :: handler where
  "getState env q ps rq body w = (sent (served (stateJson (seUtc env)) (stateRoute w)), w)"

definition getEpochs :: handler where
  "getEpochs env q ps rq body w =
     (sent (served (epochsJson (seUtc env)) (epochsRoute (seProto env) (q ''limit'') (q ''cursor'') w)), w)"

definition getStats :: handler where
  "getStats env q ps rq body w = (sent (statsServed (statsRoute w)), w)"

definition getWinners :: handler where
  "getWinners env q ps rq body w =
     (sent (served winnersJson (winnersRoute (seProto env) (ps ! 0) (q ''limit'') (q ''offset'') w)), w)"

definition getWinnerDetail :: handler where
  "getWinnerDetail env q ps rq body w =
     (sent (served winnerDetailJson (winnerDetailRoute (seProto env) (ps ! 0) (ps ! 1) w)), w)"

definition getTickets :: handler where
  "getTickets env q ps rq body w =
     (sent (served (userTicketsJson (seUtc env)) (ticketsRoute (seProto env) (q ''wallet'') (q ''limit'') (q ''offset'') w)), w)"

text \<open>The routers in the order they are mounted; orders, state and quote are commented out.\<close>

definition webhookRouter :: "(string \<times> string \<times> handler) list" where
  "webhookRouter = [(''POST'', ''/helius'', postHelius)]"

definition claimsRouter :: "(string \<times> string \<times> handler) list" where
  "claimsRouter = [(''GET'', ''/summary'', getSummary), (''POST'', ''/voucher'', postVoucher)]"

definition protocolRouter :: "(string \<times> string \<times> handler) list" where
  "protocolRouter =
     [(''GET'', ''/state'', getState), (''GET'', ''/epochs'', getEpochs), (''GET'', ''/stats'', getStats),
      (''GET'', ''/epochs/:megapotId/winners'', getWinners),
      (''GET'', ''/epochs/:megapotId/winners/:buyer'', getWinnerDetail), (''GET'', ''/tickets'', getTickets)]"

definition mounted :: "string \<Rightarrow> (string \<times> string \<times> handler) list \<Rightarrow> (string \<times> string \<times> handler) list" where
  "mounted base router = map (\<lambda>(m, p, h). (m, base @ p, h)) router"

definition routes :: "(string \<times> string \<times> handler) list" where
  "routes = mounted ''/webhooks'' webhookRouter @ mounted ''/v1/claims'' claimsRouter @ mounted ''/v1/protocol'' protocolRouter"

fun dispatch :: "'s serverParts \<Rightarrow> (string \<times> string \<times> handler) list \<Rightarrow> serverEnv \<Rightarrow> httpRequest \<Rightarrow> json \<Rightarrow> world \<Rightarrow> answer \<times> world" where
  "dispatch parts [] env rq body w = ((404, None), w)"
| "dispatch parts ((m, p, h) # rs) env rq body w =
     (case spMatch parts m p rq of
        None \<Rightarrow> dispatch parts rs env rq body w
      | Some ps \<Rightarrow> h env (spQuery parts rq) ps rq body w)"

section \<open>The middleware\<close>

definition healthAnswer :: "int \<Rightarrow> answer" where
  "healthAnswer now = (200, Some (JObj [(''ok'', JBool True), (''ts'', numJson now)]))"

definition bodyLimit :: string where "bodyLimit = ''1mb''"
definition limitWindowMs :: int where "limitWindowMs = 60 * 1000"
definition limitMax :: int where "limitMax = 60"

text \<open>Behind the health check: the limiter, then the routes.\<close>

definition limited :: "'s serverParts \<Rightarrow> serverEnv \<Rightarrow> httpRequest \<Rightarrow> json \<Rightarrow> 's \<times> world \<Rightarrow> answer \<times> 's \<times> world" where
  "limited parts env rq body st =
     (case spLimit parts limitMax limitWindowMs (rqIp rq) (fst st) of
        (Some a, s') \<Rightarrow> (a, s', snd st)
      | (None, s') \<Rightarrow> (case dispatch parts routes env rq body (snd st) of (a, w') \<Rightarrow> (a, s', w')))"

definition serve :: "'s serverParts \<Rightarrow> serverEnv \<Rightarrow> httpRequest \<Rightarrow> 's \<times> world \<Rightarrow> answer \<times> 's \<times> world" where
  "serve parts env rq st =
     (case spCors parts (allowedOrigins (seOrigin env)) rq of
        Some a \<Rightarrow> (a, st)
      | None \<Rightarrow>
        (case spBody parts bodyLimit rq of
           Inl a \<Rightarrow> (a, st)
         | Inr body \<Rightarrow>
           (case spMatch parts ''GET'' ''/health'' rq of
              Some ps \<Rightarrow> (healthAnswer (seNow env), st)
            | None \<Rightarrow> limited parts env rq body st)))"

text \<open>A run: requests one after the other, each with what the outside world answers at its time.\<close>

definition serveAll :: "'s serverParts \<Rightarrow> (serverEnv \<times> httpRequest) list \<Rightarrow> 's \<times> world \<Rightarrow> 's \<times> world" where
  "serveAll parts rqs st = fold (\<lambda>(env, rq) st. snd (serve parts env rq st)) rqs st"

section \<open>Plain paths\<close>

text \<open>
  What Express documents about a path of letters, digits and dashes: the segments of the pattern are
  compared in turn, literals without regard to case, and a segment with a colon takes any one segment.
\<close>

definition lower :: "char \<Rightarrow> char" where
  "lower c = (let n = of_char c :: nat in if 65 \<le> n \<and> n \<le> 90 then char_of (n + 32) else c)"

definition plainChar :: "char \<Rightarrow> bool" where
  "plainChar c = (let n = of_char (lower c) :: nat in (48 \<le> n \<and> n \<le> 57) \<or> (97 \<le> n \<and> n \<le> 122) \<or> n = 45)"

fun bindSegs :: "string list \<Rightarrow> string list \<Rightarrow> string list option" where
  "bindSegs [] [] = Some []"
| "bindSegs (p # ps) (s # ss) =
     (if take 1 p = '':'' then map_option ((#) s) (bindSegs ps ss)
      else if map lower p = map lower s then bindSegs ps ss else None)"
| "bindSegs _ _ = None"

definition plainPath :: "string \<Rightarrow> bool" where
  "plainPath u = (case splitAt (CHR ''/'') u of
     [] # s # ss \<Rightarrow> list_all (\<lambda>s. s \<noteq> [] \<and> list_all plainChar s) (s # ss) | _ \<Rightarrow> False)"

definition plainMatch :: "string \<Rightarrow> string \<Rightarrow> string list option" where
  "plainMatch p u = bindSegs (splitAt (CHR ''/'') p) (splitAt (CHR ''/'') u)"

definition plainRouter :: "'s serverParts \<Rightarrow> bool" where
  "plainRouter parts \<longleftrightarrow> (\<forall>m p rq. plainPath (pathOf (rqUrl rq)) \<longrightarrow> rqMethod rq \<in> {''GET'', ''POST''} \<longrightarrow>
     spMatch parts m p rq = (if rqMethod rq = m then plainMatch p (pathOf (rqUrl rq)) else None))"

lemma splitAt_tail: "d \<notin> set s \<Longrightarrow> splitAt d (s @ d # r) = s # splitAt d r" "d \<notin> set s \<Longrightarrow> splitAt d s = [s]"
  by (induction s) auto

fun joinOn :: "char \<Rightarrow> string list \<Rightarrow> string" where
  "joinOn d [] = []"
| "joinOn d [s] = s"
| "joinOn d (s # t # r) = s @ d # joinOn d (t # r)"

lemma joinOn_Cons: "joinOn d ((c # s) # r) = c # joinOn d (s # r)"
  by (cases r) simp_all

lemma join_split: "splitAt d s \<noteq> [] \<and> joinOn d (splitAt d s) = s"
proof (induction s)
  case (Cons c s)
  then obtain x r where "splitAt d s = x # r" "joinOn d (x # r) = s" by (cases "splitAt d s") auto
  then show ?case by (simp add: joinOn_Cons)
qed simp

lemma splitAt_inj: "splitAt d s = splitAt d t \<longleftrightarrow> s = t"
  using join_split by metis

lemma lower_slash [simp]: "lower c = CHR ''/'' \<longleftrightarrow> c = CHR ''/''"
proof (cases "65 \<le> (of_char c :: nat) \<and> (of_char c :: nat) \<le> 90")
  case True
  then have "(of_char (lower c) :: nat) = of_char c + 32" by (simp add: lower_def Let_def)
  then have "lower c \<noteq> CHR ''/''" using True by auto
  moreover have "c \<noteq> CHR ''/''" using True by auto
  ultimately show ?thesis by simp
qed (auto simp: lower_def Let_def)

lemma splitAt_lower: "splitAt (CHR ''/'') (map lower s) = map (map lower) (splitAt (CHR ''/'') s)"
  by (induction s) (auto split: list.split)

lemma bindSegs_literal:
  "list_all (\<lambda>p. take 1 p \<noteq> '':'') ps \<Longrightarrow>
   bindSegs ps ss = (if map (map lower) ps = map (map lower) ss then Some [] else None)"
  by (induction ps ss rule: bindSegs.induct) auto

text \<open>A pattern without a parameter matches its own text only, in any case.\<close>

lemma plainMatch_literal:
  assumes "list_all (\<lambda>p. take 1 p \<noteq> '':'') (splitAt (CHR ''/'') p)"
  shows "plainMatch p u = (if map lower p = map lower u then Some [] else None)"
  unfolding plainMatch_def bindSegs_literal [OF assms] splitAt_lower [symmetric] splitAt_inj ..

section \<open>A run of the server is a run of the backend's actions\<close>

text \<open>The actions a request asks the backend for, by its method and path.\<close>

definition asksFor :: "httpRequest \<Rightarrow> string \<Rightarrow> bool" where
  "asksFor rq path \<longleftrightarrow> rqMethod rq = ''POST'' \<and> map lower (pathOf (rqUrl rq)) = path"

definition requestActs :: "serverEnv \<Rightarrow> httpRequest \<Rightarrow> json \<Rightarrow> act list" where
  "requestActs env rq body =
     (if asksFor rq ''/webhooks/helius'' then [PostWebhook (seIngest env) (rqAuth rq) body]
      else if asksFor rq ''/v1/claims/voucher'' then [IssueVoucher (seClaim env) (bodyWallet body)]
      else [])"

text \<open>
  A request gets past the CORS and JSON middleware with a body; a request for the health check is not
  counted by the limiter, every other one is.
\<close>

definition passes :: "'s serverParts \<Rightarrow> serverEnv \<Rightarrow> httpRequest \<Rightarrow> json option" where
  "passes parts env rq =
     (if spCors parts (allowedOrigins (seOrigin env)) rq \<noteq> None then None
      else case spBody parts bodyLimit rq of Inl a \<Rightarrow> None | Inr body \<Rightarrow> Some body)"

definition asksHealth :: "httpRequest \<Rightarrow> bool" where
  "asksHealth rq \<longleftrightarrow> rqMethod rq = ''GET'' \<and> map lower (pathOf (rqUrl rq)) = ''/health''"

fun runActs :: "'s serverParts \<Rightarrow> (serverEnv \<times> httpRequest) list \<Rightarrow> 's \<Rightarrow> act list" where
  "runActs parts [] s = []"
| "runActs parts ((env, rq) # rqs) s =
     (case passes parts env rq of
        None \<Rightarrow> runActs parts rqs s
      | Some body \<Rightarrow>
        (if asksHealth rq then runActs parts rqs s
         else case spLimit parts limitMax limitWindowMs (rqIp rq) s of
             (Some a, s') \<Rightarrow> runActs parts rqs s'
           | (None, s') \<Rightarrow> requestActs env rq body @ runActs parts rqs s'))"

definition plainRequest :: "httpRequest \<Rightarrow> bool" where
  "plainRequest rq \<longleftrightarrow> plainPath (pathOf (rqUrl rq)) \<and> rqMethod rq \<in> {''GET'', ''POST''}"

lemmas handler_defs = postHelius_def getSummary_def postVoucher_def getState_def getEpochs_def getStats_def
  getWinners_def getWinnerDetail_def getTickets_def

lemmas route_defs = routes_def mounted_def webhookRouter_def claimsRouter_def protocolRouter_def

lemma dispatch_acts:
  assumes "plainRouter parts" "plainRequest rq"
  shows "snd (dispatch parts routes env rq body w) = fold perform (requestActs env rq body) w"
proof -
  let ?u = "map lower (pathOf (rqUrl rq))"
  have m: "spMatch parts m p rq = (if rqMethod rq = m then plainMatch p (pathOf (rqUrl rq)) else None)" for m p
    using assms unfolding plainRouter_def plainRequest_def by blast
  show ?thesis
  proof (cases "rqMethod rq = ''GET''")
    case True
    then show ?thesis
      by (simp add: route_defs handler_defs m requestActs_def asksFor_def split: option.split)
  next
    case False
    then have post: "rqMethod rq = ''POST''" using assms(2) by (simp add: plainRequest_def)
    have "plainMatch ''/webhooks/helius'' (pathOf (rqUrl rq)) = (if ?u = ''/webhooks/helius'' then Some [] else None)"
      "plainMatch ''/v1/claims/voucher'' (pathOf (rqUrl rq)) = (if ?u = ''/v1/claims/voucher'' then Some [] else None)"
      by (subst plainMatch_literal, simp, simp add: lower_def eq_commute [of _ ?u])+
    then show ?thesis
      by (simp add: route_defs handler_defs m post requestActs_def asksFor_def bodyWallet_def case_prod_beta)
  qed
qed

lemma health_match:
  assumes "plainRouter parts" "plainRequest rq"
  shows "spMatch parts ''GET'' ''/health'' rq \<noteq> None \<longleftrightarrow> asksHealth rq"
proof -
  have "plainMatch ''/health'' (pathOf (rqUrl rq)) \<noteq> None \<longleftrightarrow> map lower (pathOf (rqUrl rq)) = ''/health''"
    by (subst plainMatch_literal, simp, simp add: lower_def eq_commute [of _ "map lower _"])
  then show ?thesis using assms by (auto simp: plainRouter_def plainRequest_def asksHealth_def)
qed

lemma serveAll_Cons: "serveAll parts ((env, rq) # rqs) st = serveAll parts rqs (snd (serve parts env rq st))"
  by (simp add: serveAll_def)

text \<open>
  C39: the server as a refinement of the backend's actions, requests handled one after the other: a run
  of it leaves in the database exactly what the actions its requests ask for leave, in their order. A POST
  to the webhook's path is the delivery of its body under its own authorization header, a POST to the
  voucher's path the issue of a voucher to the wallet its body names; a request turned away by the
  middleware, over the limit, for the health check or for any other path changes nothing. The
  router is assumed to match plain paths as Express documents it.
\<close>
theorem server_refines_system:
  assumes "plainRouter parts" "list_all (\<lambda>r. plainRequest (snd r)) rqs"
  shows "snd (serveAll parts rqs (s, w)) = fold perform (runActs parts rqs s) w"
  using assms(2)
proof (induction rqs arbitrary: s w)
  case (Cons r rqs)
  obtain env rq where r: "r = (env, rq)" by fastforce
  then have plain: "plainRequest rq" using Cons.prems by simp
  have IH: "snd (serveAll parts rqs (s', w')) = fold perform (runActs parts rqs s') w'" for s' w'
    using Cons by simp
  note health = health_match [OF assms(1) plain]
  obtain l s' where l: "spLimit parts limitMax limitWindowMs (rqIp rq) s = (l, s')" by fastforce
  have "serve parts env rq (s, w) = (fst (serve parts env rq (s, w)), snd (serve parts env rq (s, w)))" by simp
  show ?case
  proof (cases "passes parts env rq")
    case None
    then have "snd (serve parts env rq (s, w)) = (s, w)"
      by (auto simp: serve_def passes_def split: option.splits sum.splits if_splits)
    then show ?thesis using None by (simp add: r serveAll_Cons IH)
  next
    case (Some body)
    then have b: "spCors parts (allowedOrigins (seOrigin env)) rq = None" "spBody parts bodyLimit rq = Inr body"
      by (cases "spCors parts (allowedOrigins (seOrigin env)) rq"; cases "spBody parts bodyLimit rq"; simp add: passes_def)+
    show ?thesis
    proof (cases "asksHealth rq")
      case True
      then have "snd (serve parts env rq (s, w)) = (s, w)" using health by (auto simp: serve_def b)
      then show ?thesis using Some True by (simp add: r serveAll_Cons IH)
    next
      case False
      then have s: "serve parts env rq (s, w) = limited parts env rq body (s, w)" using health by (simp add: serve_def b)
      have "snd (limited parts env rq body (s, w))
          = (s', fold perform (if l = None then requestActs env rq body else []) w)"
        using dispatch_acts [OF assms(1) plain, of env body w]
        by (cases l) (auto simp: limited_def l split: prod.split)
      then show ?thesis using Some False by (cases l) (simp_all add: r serveAll_Cons s IH l)
    qed
  qed
qed (simp add: serveAll_def)

section \<open>Every call of the browser reaches its route\<close>

text \<open>The calls of \<open>api/protocol.ts\<close> and \<open>api/claims.ts\<close>.\<close>

datatype call = CallState | CallStats | CallEpochs "int option" | CallWinners int "int option" | CallDetail int string
  | CallTickets string | CallSummary string | CallVoucher string

fun callUrl :: "call \<Rightarrow> string" where
  "callUrl CallState = ''/v1/protocol/state''"
| "callUrl CallStats = ''/v1/protocol/stats''"
| "callUrl (CallEpochs c) = epochsPath c"
| "callUrl (CallWinners i off) = winnersPath i off"
| "callUrl (CallDetail i b) = winnerDetailPath i b"
| "callUrl (CallTickets wal) = userTicketsPath wal"
| "callUrl (CallSummary wal) = claimSummaryPath wal"
| "callUrl (CallVoucher wal) = ''/v1/claims/voucher''"

fun callMethod :: "call \<Rightarrow> string" where
  "callMethod (CallVoucher wal) = ''POST''"
| "callMethod _ = ''GET''"

fun callType :: "call \<Rightarrow> tsType" where
  "callType CallState = tsProtocolState"
| "callType CallStats = tsAllTimeStats"
| "callType (CallEpochs c) = tsEpochs"
| "callType (CallWinners i off) = tsEpochWinners"
| "callType (CallDetail i b) = tsEpochWinnerDetail"
| "callType (CallTickets wal) = tsUserTickets"
| "callType (CallSummary wal) = tsClaimSummary"
| "callType (CallVoucher wal) = tsClaimVoucher"

text \<open>
  A wallet is its base58 text; an epoch id and a cursor are values of an integer column, which are what
  the browser was given before.
\<close>

fun callPlain :: "call \<Rightarrow> bool" where
  "callPlain (CallEpochs (Some c)) = (0 \<le> c \<and> c < 2 ^ 31)"
| "callPlain (CallWinners i off) = (0 \<le> i \<and> i < 2 ^ 31)"
| "callPlain (CallDetail i b) = (0 \<le> i \<and> i < 2 ^ 31 \<and> b \<noteq> [] \<and> list_all plainChar b)"
| "callPlain (CallTickets wal) = list_all plainChar wal"
| "callPlain (CallSummary wal) = list_all plainChar wal"
| "callPlain _ = True"

text \<open>The body a call is sent with: \<open>JSON.stringify({ wallet })\<close> or none.\<close>

fun callBody :: "call \<Rightarrow> json" where
  "callBody (CallVoucher wal) = JObj [(''wallet'', JStr wal)]"
| "callBody _ = JNull"

text \<open>The answer of the route a call is meant for, with the values of the call as the route reads them.\<close>

fun answerOf :: "serverEnv \<Rightarrow> call \<Rightarrow> world \<Rightarrow> (nat \<times> json) option" where
  "answerOf env CallState w = served (stateJson (seUtc env)) (stateRoute w)"
| "answerOf env CallStats w = statsServed (statsRoute w)"
| "answerOf env (CallEpochs c) w = served (epochsJson (seUtc env)) (epochsRoute (seProto env) None
     (if c = None \<or> c = Some 0 then None else Some (JStr (bigIntToString (the c)))) w)"
| "answerOf env (CallWinners i off) w = served winnersJson (winnersRoute (seProto env) (bigIntToString i) None
     (if off = None \<or> off = Some 0 then None else Some (JStr (bigIntToString (the off)))) w)"
| "answerOf env (CallDetail i b) w = served winnerDetailJson (winnerDetailRoute (seProto env) (bigIntToString i) b w)"
| "answerOf env (CallTickets wal) w = served (userTicketsJson (seUtc env)) (ticketsRoute (seProto env) (Some (JStr wal)) None None w)"
| "answerOf env (CallSummary wal) w = served (claimSummaryJson (seUtc env)) (summaryRoute (seClaim env) (Some (JStr wal)) w)"
| "answerOf env (CallVoucher wal) w = Some (voucherJson (fst (voucherRoute (seClaim env) (JStr wal) w)))"

text \<open>Answered in front of the routes.\<close>

definition turnedAway :: "'s serverParts \<Rightarrow> serverEnv \<Rightarrow> httpRequest \<Rightarrow> 's \<Rightarrow> answer \<Rightarrow> bool" where
  "turnedAway parts env rq s a \<longleftrightarrow>
     spCors parts (allowedOrigins (seOrigin env)) rq = Some a \<or> spBody parts bodyLimit rq = Inl a
     \<or> fst (spLimit parts limitMax limitWindowMs (rqIp rq) s) = Some a"

lemma plain_not: "plainChar c \<Longrightarrow> c \<noteq> CHR ''/'' \<and> c \<noteq> CHR ''?''"
  by (auto simp: plainChar_def lower_def)

lemma digit_plain: "isDigit c \<Longrightarrow> plainChar c"
  by (simp add: isDigit_def plainChar_def lower_def)

lemma toString_plain: "bigIntToString i \<noteq> [] \<and> list_all plainChar (bigIntToString i)"
proof -
  have "digitsOf n \<noteq> [] \<and> list_all plainChar (digitsOf n)" if "0 \<le> n" for n
    using digitsOf_digits [OF that] digit_plain by (auto simp: list_all_iff)
  from this [of i] this [of "- i"] show ?thesis
    by (auto simp: bigIntToString_def plainChar_def lower_def)
qed

lemma plain_sets: "list_all plainChar s \<Longrightarrow> CHR ''/'' \<notin> set s \<and> CHR ''?'' \<notin> set s"
  using plain_not by (auto simp: list_all_iff)

lemma pathOf_plain: "CHR ''?'' \<notin> set a \<Longrightarrow> pathOf (a @ b) = a @ pathOf b"
  unfolding pathOf_def by (rule takeWhile_append2) auto

lemma pathOf_simps [simp]: "pathOf [] = []" "pathOf (c # cs) = (if c = CHR ''?'' then [] else c # pathOf cs)"
  by (simp_all add: pathOf_def)

text \<open>The segments of the paths.\<close>

fun callSegs :: "call \<Rightarrow> string list" where
  "callSegs CallState = [''v1'', ''protocol'', ''state'']"
| "callSegs CallStats = [''v1'', ''protocol'', ''stats'']"
| "callSegs (CallEpochs c) = [''v1'', ''protocol'', ''epochs'']"
| "callSegs (CallWinners i off) = [''v1'', ''protocol'', ''epochs'', bigIntToString i, ''winners'']"
| "callSegs (CallDetail i b) = [''v1'', ''protocol'', ''epochs'', bigIntToString i, ''winners'', b]"
| "callSegs (CallTickets wal) = [''v1'', ''protocol'', ''tickets'']"
| "callSegs (CallSummary wal) = [''v1'', ''claims'', ''summary'']"
| "callSegs (CallVoucher wal) = [''v1'', ''claims'', ''voucher'']"

lemma pathOf_all [simp]: "CHR ''?'' \<notin> set a \<Longrightarrow> pathOf a = a"
  unfolding pathOf_def by (rule takeWhile_eq_all_conv [THEN iffD2]) auto

lemma call_segs:
  assumes "callPlain c"
  shows "splitAt (CHR ''/'') (pathOf (callUrl c)) = [] # callSegs c"
  using assms toString_plain plain_sets
  by (cases c) (auto simp: epochsPath_def winnersPath_def winnerDetailPath_def userTicketsPath_def claimSummaryPath_def
      pathOf_plain splitAt_tail split: option.split)

lemma call_plainPath: "callPlain c \<Longrightarrow> plainPath (pathOf (callUrl c))"
  using toString_plain by (cases c) (simp_all add: plainPath_def call_segs plainChar_def lower_def del: callUrl.simps)

text \<open>The query of a call.\<close>

lemma take_to: "d \<notin> set k \<Longrightarrow> takeWhile (\<lambda>c. c \<noteq> d) (k @ d # v) = k \<and> dropWhile (\<lambda>c. c \<noteq> d) (k @ d # v) = d # v"
  by (induction k) auto

lemma queryOf_one: "CHR ''='' \<notin> set k \<Longrightarrow> CHR ''?'' \<notin> set a \<Longrightarrow>
    queryOf key (a @ CHR ''?'' # k @ CHR ''='' # v) = (if key = k then Some (JStr v) else None)"
  using take_to [of "CHR ''=''" k v] take_to [of "CHR ''?''" a "k @ CHR ''='' # v"] by (auto simp: queryOf_def Let_def)

lemma queryOf_none: "CHR ''?'' \<notin> set a \<Longrightarrow> queryOf key a = None"
proof -
  assume "CHR ''?'' \<notin> set a"
  then have d: "dropWhile (\<lambda>c. c \<noteq> CHR ''?'') a = []" by (auto simp: dropWhile_eq_Nil_conv)
  show ?thesis unfolding queryOf_def Let_def d by simp
qed

lemma call_query:
  "queryOf key (epochsPath c) = (if key = ''cursor'' \<and> c \<noteq> None \<and> c \<noteq> Some 0 then Some (JStr (bigIntToString (the c))) else None)"
  "queryOf key (winnersPath i off) = (if key = ''offset'' \<and> off \<noteq> None \<and> off \<noteq> Some 0 then Some (JStr (bigIntToString (the off))) else None)"
  "queryOf key (userTicketsPath wal) = (if key = ''wallet'' then Some (JStr wal) else None)"
  "queryOf key (claimSummaryPath wal) = (if key = ''wallet'' then Some (JStr wal) else None)"
proof -
  have d: "CHR ''?'' \<notin> set (bigIntToString n)" for n using toString_plain plain_sets by blast
  show "queryOf key (epochsPath c) = (if key = ''cursor'' \<and> c \<noteq> None \<and> c \<noteq> Some 0 then Some (JStr (bigIntToString (the c))) else None)"
    using queryOf_none [of "''/v1/protocol/epochs''" key] queryOf_one [of "''cursor''" "''/v1/protocol/epochs''" key]
    by (cases c) (auto simp: epochsPath_def)
  show "queryOf key (winnersPath i off) = (if key = ''offset'' \<and> off \<noteq> None \<and> off \<noteq> Some 0 then Some (JStr (bigIntToString (the off))) else None)"
    using queryOf_none [of "''/v1/protocol/epochs/'' @ bigIntToString i @ ''/winners''" key]
      queryOf_one [of "''offset''" "''/v1/protocol/epochs/'' @ bigIntToString i @ ''/winners''" key] d [of i]
    by (cases off) (auto simp: winnersPath_def)
  show "queryOf key (userTicketsPath wal) = (if key = ''wallet'' then Some (JStr wal) else None)"
    using queryOf_one [of "''wallet''" "''/v1/protocol/tickets''" key wal] by (simp add: userTicketsPath_def)
  show "queryOf key (claimSummaryPath wal) = (if key = ''wallet'' then Some (JStr wal) else None)"
    using queryOf_one [of "''wallet''" "''/v1/claims/summary''" key wal] by (simp add: claimSummaryPath_def)
qed

text \<open>No handler throws on the browser's calls.\<close>

lemma served_some: "r \<noteq> reply.Crashed \<Longrightarrow> \<exists>n v. served f r = Some (n, v)"
  by (cases r) (simp_all add: served_def)

lemma epochParam_id: "0 \<le> i \<Longrightarrow> i < 2 ^ 31 \<Longrightarrow> epochParam (bigIntToString i) = Some i"
  by (simp add: epochParam_def textNum_toString wholeNum_def)

lemma epochs_answers:
  assumes "callPlain (CallEpochs c)"
  shows "epochsRoute env None (if c = None \<or> c = Some 0 then None else Some (JStr (bigIntToString (the c)))) w \<noteq> reply.Crashed"
proof (cases "c = None \<or> c = Some 0")
  case True
  then show ?thesis using epochsRoute_page [of None env w] by (simp add: cursor_query Let_def)
next
  case False
  then obtain n where n: "c = Some n" "n \<noteq> 0" by auto
  then show ?thesis using epochsRoute_page [of c env w] assms by (simp add: cursor_query Let_def)
qed

lemma winners_answers:
  "0 \<le> i \<Longrightarrow> i < 2 ^ 31 \<Longrightarrow> winnersRoute env (bigIntToString i) l q w \<noteq> reply.Crashed"
  by (simp add: winnersRoute_def epochParam_id fitsInt_def)

lemma detail_answers:
  "0 \<le> i \<Longrightarrow> i < 2 ^ 31 \<Longrightarrow> winnerDetailRoute env (bigIntToString i) b w \<noteq> reply.Crashed"
  by (auto simp: winnerDetailRoute_def epochParam_id fitsInt_def Let_def split: option.split)

lemma wholeNum_numeral: "wholeNum (JFin 500) = Some 500" "wholeNum (JFin 0) = Some 0"
proof -
  have "\<lfloor>500 :: rat\<rfloor> = 500" by (metis floor_of_int of_int_numeral)
  then show "wholeNum (JFin 500) = Some 500" "wholeNum (JFin 0) = Some 0" by (simp_all add: wholeNum_def)
qed

lemma tickets_answers: "ticketsRoute env q None None w \<noteq> reply.Crashed"
  by (auto simp: ticketsRoute_def orElse_def wholeNum_numeral Let_def split: option.split)

lemma answerOf_some: "callPlain c \<Longrightarrow> \<exists>n v. answerOf env c w = Some (n, v)"
proof (cases c)
  case CallState
  then show ?thesis by (auto simp: stateRoute_def served_def split: option.split)
next
  case CallStats
  then show ?thesis by (auto simp: statsRoute_def statsServed_def served_def split: option.split)
next
  case (CallEpochs x)
  then show "callPlain c \<Longrightarrow> ?thesis" using served_some [OF epochs_answers [of x]] by simp
next
  case (CallWinners i off)
  then show "callPlain c \<Longrightarrow> ?thesis" using served_some [OF winners_answers [of i]] by simp
next
  case (CallDetail i b)
  then show "callPlain c \<Longrightarrow> ?thesis" using served_some [OF detail_answers [of i]] by simp
next
  case (CallTickets wal)
  then show ?thesis using served_some [OF tickets_answers] by simp
next
  case (CallSummary wal)
  have "summaryRoute (seClaim env) (Some (JStr wal)) w \<noteq> reply.Crashed" by (simp add: summaryRoute_def split: option.split)
  then show ?thesis using CallSummary served_some by simp
next
  case (CallVoucher wal)
  then show ?thesis by (simp add: surj_pair)
qed

lemma answerOf_typed: "clientGets reason (callType c) (answerOf env c (backendAfter acts))"
  by (cases c) (simp_all add: client_state client_stats client_epochs [OF backend_tiers] client_winners client_detail
      client_tickets client_summary client_voucher)

lemma call_dispatch:
  assumes p: "plainRouter parts" and c: "callPlain c" and rq: "rqMethod rq = callMethod c" "rqUrl rq = callUrl c"
    and q: "spQuery parts rq = (\<lambda>key. queryOf key (callUrl c))"
  shows "fst (dispatch parts routes env rq (callBody c) w) = sent (answerOf env c w)"
proof -
  have m: "spMatch parts m p rq = (if callMethod c = m then bindSegs (splitAt (CHR ''/'') p) ([] # callSegs c) else None)" for m p
    using p call_plainPath [OF c] call_segs [OF c] rq
    by (cases c) (simp_all add: plainRouter_def plainMatch_def del: callUrl.simps)
  show ?thesis
    by (cases c) (simp_all add: route_defs handler_defs m q call_query lower_def case_prod_beta bodyWallet_def)
qed

text \<open>
  C34: every call the browser makes is answered in front of the routes - a preflight, a refused body,
  a spent rate limit - or by the route written for it, with the call's own epoch, wallet, cursor and
  offset, which does not throw on it; and whatever the backend did before, the client makes of the answer
  a value of the type it declares, or the error the route gave. The router, the query reader and the body
  reader are assumed to read such a request as documented.
\<close>
theorem browser_calls_answered:
  assumes "plainRouter parts" "callPlain c" "rqMethod rq = callMethod c" "rqUrl rq = callUrl c"
    and "spQuery parts rq = (\<lambda>key. queryOf key (callUrl c))" "\<And>b. spBody parts bodyLimit rq = Inr b \<Longrightarrow> b = callBody c"
  shows "turnedAway parts env rq s (fst (serve parts env rq (s, backendAfter acts)))
    \<or> (\<exists>n v. fst (serve parts env rq (s, backendAfter acts)) = (n, Some v)
        \<and> answerOf env c (backendAfter acts) = Some (n, v) \<and> clientGets reason (callType c) (Some (n, v)))"
proof -
  let ?w = "backendAfter acts"
  have health: "spMatch parts ''GET'' ''/health'' rq = None"
    using assms(1-4) call_plainPath [OF assms(2)] call_segs [OF assms(2)]
    by (cases c) (simp_all add: plainRouter_def plainMatch_def lower_def del: callUrl.simps)
  obtain l s' where l: "spLimit parts limitMax limitWindowMs (rqIp rq) s = (l, s')" by fastforce
  obtain n v where a: "answerOf env c ?w = Some (n, v)" using answerOf_some [OF assms(2)] by blast
  have "clientGets reason (callType c) (Some (n, v))" using answerOf_typed [of reason c env acts] a by simp
  moreover have "fst (dispatch parts routes env rq (callBody c) ?w) = (n, Some v)"
    using call_dispatch [OF assms(1-5)] a by (simp add: sent_def)
  ultimately show ?thesis
    using assms(6) a
    by (cases l) (auto simp: serve_def limited_def turnedAway_def health l case_prod_beta split: option.split sum.split)
qed

text \<open>
  A server with the limiter's counter kept as the list of the addresses it let through, whose clients
  send a wallet as the text of the body.
\<close>

definition plainParts :: "string list serverParts" where
  "plainParts =
     \<lparr> spCors = (\<lambda>origins rq. None),
       spBody = (\<lambda>limit rq. Inr (if rqBody rq = [] then JNull else JObj [(''wallet'', JStr (rqBody rq))])),
       spLimit = (\<lambda>n window ip hits. if n \<le> int (length (filter (\<lambda>h. h = ip) hits)) then (Some (429, None), hits)
                                     else (None, ip # hits)),
       spMatch = (\<lambda>m p rq. if rqMethod rq = m then plainMatch p (pathOf (rqUrl rq)) else None),
       spQuery = (\<lambda>rq k. queryOf k (rqUrl rq)) \<rparr>"

definition callRequest :: "call \<Rightarrow> httpRequest" where
  "callRequest c = \<lparr> rqMethod = callMethod c, rqUrl = callUrl c, rqIp = ''ip'', rqOrigin = None, rqAuth = [],
     rqBody = (case c of CallVoucher wal \<Rightarrow> wal | _ \<Rightarrow> []) \<rparr>"

definition sampleServer :: serverEnv where
  "sampleServer = \<lparr> seNow = 9000000, seOrigin = None, seIngest = demoEnv, seClaim = deskEnv,
     seProto = protoSample 9000000, seUtc = bigIntToString \<rparr>"

lemma plainParts_router: "plainRouter plainParts"
  by (simp add: plainRouter_def plainParts_def)

theorem browser_calls_answered_witness:
  "\<exists>n v. fst (serve plainParts sampleServer (callRequest (CallWinners 6 None)) ([''ip''], backendAfter firstBoot)) = (n, Some v)
     \<and> answerOf sampleServer (CallWinners 6 None) (backendAfter firstBoot) = Some (n, v)
     \<and> clientGets ''OK'' tsEpochWinners (Some (n, v))"
proof -
  let ?rq = "callRequest (CallWinners 6 None)"
  have "\<not> turnedAway plainParts sampleServer ?rq [''ip''] a" for a
    by (simp add: turnedAway_def plainParts_def limitMax_def)
  moreover have "spQuery plainParts ?rq = (\<lambda>key. queryOf key (callUrl (CallWinners 6 None)))"
    by (simp add: plainParts_def callRequest_def)
  moreover have "b = callBody (CallWinners 6 None)" if "spBody plainParts bodyLimit ?rq = Inr b" for b
    using that by (simp add: plainParts_def callRequest_def)
  ultimately show ?thesis
    using browser_calls_answered [OF plainParts_router, of "CallWinners 6 None" ?rq sampleServer "[''ip'']" firstBoot "''OK''"]
    by (simp add: callRequest_def)
qed

text \<open>The winner of the desk asks for a voucher, then looks at the summary.\<close>

theorem server_refines_system_witness:
  "snd (serveAll plainParts
      [(sampleServer, callRequest (CallVoucher ''b'')), (sampleServer, callRequest (CallSummary ''b''))] ([], deskWorld))
   = snd (voucherRoute deskEnv (JStr ''b'') deskWorld)"
proof -
  let ?rqs = "[(sampleServer, callRequest (CallVoucher ''b'')), (sampleServer, callRequest (CallSummary ''b''))]"
  have "list_all (\<lambda>r. plainRequest (snd r)) ?rqs" by code_simp
  moreover have "runActs plainParts ?rqs [] = [IssueVoucher deskEnv (JStr ''b'')]"
    by (simp add: passes_def plainParts_def callRequest_def limitMax_def asksHealth_def asksFor_def requestActs_def lower_def
        claimSummaryPath_def bodyWallet_def sampleServer_def)
  ultimately show ?thesis
    using server_refines_system [OF plainParts_router, of ?rqs "[]" deskWorld] by simp
qed

end
