(* ===== verification/Shell.thy ===== *)
theory Shell
  imports ApiServer
begin

text \<open>
  The frame of the browser: the routes of \<open>App.tsx\<close>, the navigation bar, the query plans of
  \<open>api/hooks.ts\<close> and the data they share through the query client. The query client is a package: what
  is modelled of it is its store, a value for each query key, and which answers go in. The theory shows that a page
  never draws the answer to another query than its own, whatever wallet was connected before, and what the
  bar's dot says.
\<close>

section \<open>Query plans\<close>

text \<open>
  \<open>qEnabled\<close>: whether the query may run. \<open>qCall p\<close>: the call for a page parameter; a query that is not
  paged ignores it, and a disabled one has none. \<open>qEvery\<close>: the refetch interval in milliseconds.
\<close>

record query =
  qKey :: "json list"
  qEnabled :: bool
  qPaged :: bool
  qCall :: "int option \<Rightarrow> call option"
  qEvery :: "int option"

text \<open>The defaults of \<open>lib/queryClient.ts\<close>.\<close>

definition staleTimeMs :: int where "staleTimeMs = 10000"
definition retryCount :: nat where "retryCount = 1"
definition refetchOnFocus :: bool where "refetchOnFocus = False"

definition single :: "json list \<Rightarrow> call option \<Rightarrow> int option \<Rightarrow> query" where
  "single k c every = \<lparr> qKey = k, qEnabled = (c \<noteq> None), qPaged = False, qCall = (\<lambda>p. c), qEvery = every \<rparr>"

definition useProtocolState :: query where
  "useProtocolState = single [JStr ''protocol-state''] (Some CallState) (Some 15000)"

definition useAllTimeStats :: query where
  "useAllTimeStats = single [JStr ''all-time-stats''] (Some CallStats) None"

definition useEpochs :: query where
  "useEpochs = \<lparr> qKey = [JStr ''epochs''], qEnabled = True, qPaged = True, qCall = (\<lambda>p. Some (CallEpochs p)),
     qEvery = Some 20000 \<rparr>"

definition useEpochWinners :: "int option \<Rightarrow> query" where
  "useEpochWinners i = \<lparr> qKey = [JStr ''epoch-winners'', orNull numJson i], qEnabled = (i \<noteq> None), qPaged = True,
     qCall = (\<lambda>p. map_option (\<lambda>i. CallWinners i p) i), qEvery = None \<rparr>"

definition useEpochWinnerDetail :: "int option \<Rightarrow> string option \<Rightarrow> query" where
  "useEpochWinnerDetail i b = single [JStr ''epoch-winner-detail'', orNull numJson i, orNull JStr b]
     (case (i, b) of (Some i, Some b) \<Rightarrow> Some (CallDetail i b) | _ \<Rightarrow> None) None"

text \<open>The wallet is the connected one's base58 text, \<open>null\<close> without one.\<close>

definition useMyTickets :: "string option \<Rightarrow> query" where
  "useMyTickets w = single [JStr ''my-tickets'', orNull JStr w] (map_option CallTickets w) (Some 20000)"

definition useClaimSummary :: "string option \<Rightarrow> query" where
  "useClaimSummary w = single [JStr ''claim-summary'', orNull JStr w] (map_option CallSummary w) (Some 15000)"

text \<open>\<open>getNextPageParam\<close> of the two paged queries: what follows a page, read from its answer.\<close>

definition nextPage :: "string \<Rightarrow> json \<Rightarrow> json option" where
  "nextPage field page = (case getProp field page of None \<Rightarrow> None | Some JNull \<Rightarrow> None | Some v \<Rightarrow> Some v)"

definition epochsNext :: "json \<Rightarrow> json option" where "epochsNext = nextPage ''nextCursor''"
definition winnersNext :: "json \<Rightarrow> json option" where "winnersNext = nextPage ''nextOffset''"

text \<open>The mutation of the claim button: the call, or the error without a wallet; then the keys it invalidates.\<close>

definition requestClaimVoucher :: "string option \<Rightarrow> (string, call) result" where
  "requestClaimVoucher w = (case w of None \<Rightarrow> Inl ''Wallet not connected'' | Some w \<Rightarrow> Inr (CallVoucher w))"

definition claimInvalidates :: "json list \<Rightarrow> bool" where
  "claimInvalidates k \<longleftrightarrow> take 1 k = [JStr ''claim-summary'']"

section \<open>The store of answers\<close>

text \<open>The hooks a page of the program can call.\<close>

inductive planned :: "query \<Rightarrow> bool" where
  planned_state: "planned useProtocolState"
| planned_stats: "planned useAllTimeStats"
| planned_epochs: "planned useEpochs"
| planned_winners: "planned (useEpochWinners i)"
| planned_detail: "planned (useEpochWinnerDetail i b)"
| planned_tickets: "planned (useMyTickets w)"
| planned_summary: "planned (useClaimSummary w)"

text \<open>
  For each key the pages last fetched, each with the call that fetched it; and the keys marked stale.
\<close>

record store =
  stPages :: "json list \<Rightarrow> (call \<times> json) list option"
  stStale :: "json list \<Rightarrow> bool"

definition freshStore :: store where
  "freshStore = \<lparr> stPages = (\<lambda>k. None), stStale = (\<lambda>k. False) \<rparr>"

text \<open>A query's fetch came back: the answers of its pages replace what was stored under its key.\<close>

definition fetched :: "query \<Rightarrow> (int option \<times> json) list \<Rightarrow> store \<Rightarrow> store" where
  "fetched q answers st =
     (case those (map (\<lambda>(p, v). map_option (\<lambda>c. (c, v)) (qCall q p)) answers) of
        None \<Rightarrow> st
      | Some pages \<Rightarrow> st\<lparr>stPages := (stPages st)(qKey q \<mapsto> pages), stStale := (stStale st)(qKey q := False)\<rparr>)"

definition claimSucceeded :: "store \<Rightarrow> store" where
  "claimSucceeded st = st\<lparr>stStale := (\<lambda>k. stStale st k \<or> claimInvalidates k)\<rparr>"

text \<open>
  What a page reads: the pages under the key of its query. Wallets connect and disconnect, pages come and
  go, and fetches end in any order, those of a wallet that has left included.
\<close>

definition shown :: "query \<Rightarrow> store \<Rightarrow> (call \<times> json) list" where
  "shown q st = (case stPages st (qKey q) of None \<Rightarrow> [] | Some ps \<Rightarrow> ps)"

inductive storeReach :: "store \<Rightarrow> bool" where
  sr_fresh: "storeReach freshStore"
| sr_fetched: "storeReach st \<Longrightarrow> planned q \<Longrightarrow> qEnabled q \<Longrightarrow> storeReach (fetched q answers st)"
| sr_claimed: "storeReach st \<Longrightarrow> storeReach (claimSucceeded st)"

lemmas plan_defs = useProtocolState_def useAllTimeStats_def useEpochs_def useEpochWinners_def useEpochWinnerDetail_def
  useMyTickets_def useClaimSummary_def single_def

lemma plan_keys:
  "qKey useProtocolState = [JStr ''protocol-state'']" "qKey useAllTimeStats = [JStr ''all-time-stats'']"
  "qKey useEpochs = [JStr ''epochs'']" "qKey (useEpochWinners i) = [JStr ''epoch-winners'', orNull numJson i]"
  "qKey (useEpochWinnerDetail i b) = [JStr ''epoch-winner-detail'', orNull numJson i, orNull JStr b]"
  "qKey (useMyTickets wal) = [JStr ''my-tickets'', orNull JStr wal]"
  "qKey (useClaimSummary wal) = [JStr ''claim-summary'', orNull JStr wal]"
  by (simp_all add: plan_defs)

text \<open>The query a key stands for.\<close>

definition numArg :: "json \<Rightarrow> int option" where "numArg v = (case v of JNum r \<Rightarrow> Some \<lfloor>r\<rfloor> | _ \<Rightarrow> None)"
definition textArg :: "json \<Rightarrow> string option" where "textArg v = (case v of JStr s \<Rightarrow> Some s | _ \<Rightarrow> None)"

definition queryOfKey :: "json list \<Rightarrow> query" where
  "queryOfKey k =
     (let t = hd k; a = k ! 1 in
      if t = JStr ''protocol-state'' then useProtocolState
      else if t = JStr ''all-time-stats'' then useAllTimeStats
      else if t = JStr ''epochs'' then useEpochs
      else if t = JStr ''epoch-winners'' then useEpochWinners (numArg a)
      else if t = JStr ''epoch-winner-detail'' then useEpochWinnerDetail (numArg a) (textArg (k ! 2))
      else if t = JStr ''my-tickets'' then useMyTickets (textArg a)
      else useClaimSummary (textArg a))"

lemma arg_simps [simp]: "numArg (orNull numJson i) = i" "textArg (orNull JStr s) = s"
  by (simp_all add: numArg_def textArg_def orNull_def numJson_def split: option.split)

lemma queryOfKey_planned: "planned q \<Longrightarrow> queryOfKey (qKey q) = q"
  by (erule planned.cases) (simp_all add: queryOfKey_def plan_keys)

lemma key_identifies: "planned q \<Longrightarrow> planned q' \<Longrightarrow> qKey q = qKey q' \<Longrightarrow> q = q'"
  using queryOfKey_planned by metis

text \<open>The calls of a query.\<close>

definition ownCall :: "query \<Rightarrow> call \<Rightarrow> bool" where "ownCall q c \<longleftrightarrow> (\<exists>p. qCall q p = Some c)"

definition storeOk :: "store \<Rightarrow> bool" where
  "storeOk st \<longleftrightarrow> (\<forall>q. planned q \<longrightarrow> list_all (\<lambda>cv. ownCall q (fst cv)) (shown q st))"

lemma fetched_calls:
  "those (map (\<lambda>(p, v). map_option (\<lambda>c. (c, v)) (qCall q p)) answers) = Some pages \<Longrightarrow>
   list_all (\<lambda>cv. ownCall q (fst cv)) pages"
proof (induction answers arbitrary: pages)
  case (Cons a answers)
  obtain p v where a: "a = (p, v)" by fastforce
  from Cons.prems obtain c ps where c: "qCall q p = Some c" and pages: "pages = (c, v) # ps"
    and ps: "those (map (\<lambda>(p, v). map_option (\<lambda>c. (c, v)) (qCall q p)) answers) = Some ps"
    by (auto simp: a split: option.splits)
  show ?case using Cons.IH [OF ps] c by (auto simp: pages ownCall_def)
qed simp

lemma storeReach_ok: "storeReach st \<Longrightarrow> storeOk st"
proof (induction rule: storeReach.induct)
  case (sr_fetched st q answers)
  show ?case
  proof (cases "those (map (\<lambda>(p, v). map_option (\<lambda>c. (c, v)) (qCall q p)) answers)")
    case (Some pages)
    have "list_all (\<lambda>cv. ownCall r (fst cv)) (shown r (fetched q answers st))" if "planned r" for r
    proof (cases "qKey r = qKey q")
      case True
      then have "r = q" using key_identifies that sr_fetched.hyps(2) by blast
      then show ?thesis using fetched_calls [OF Some] by (simp add: shown_def fetched_def Some)
    next
      case False
      then show ?thesis using sr_fetched.IH that by (simp add: storeOk_def shown_def fetched_def Some)
    qed
    then show ?thesis by (simp add: storeOk_def)
  next
    case None
    then show ?thesis using sr_fetched.IH by (simp add: fetched_def)
  qed
qed (simp_all add: storeOk_def shown_def freshStore_def claimSucceeded_def)

text \<open>
  Whatever wallets were connected and whatever fetches end late, the tickets page and the balance
  draw answers to calls made for the wallet that is connected now, and none without a wallet.
\<close>
theorem wallet_sees_its_own:
  assumes "storeReach st"
  shows "list_all (\<lambda>cv. map_option CallTickets w = Some (fst cv)) (shown (useMyTickets w) st)
    \<and> list_all (\<lambda>cv. map_option CallSummary w = Some (fst cv)) (shown (useClaimSummary w) st)"
proof -
  have own: "ownCall (useMyTickets w) c \<longleftrightarrow> map_option CallTickets w = Some c"
    "ownCall (useClaimSummary w) c \<longleftrightarrow> map_option CallSummary w = Some c" for c
    by (simp_all add: ownCall_def useMyTickets_def useClaimSummary_def single_def)
  have "list_all (\<lambda>cv. ownCall q (fst cv)) (shown q st)" if "planned q" for q
    using storeReach_ok [OF assms] that unfolding storeOk_def by blast
  from this [OF planned_tickets [of w]] this [OF planned_summary [of w]] show ?thesis unfolding own by blast
qed

text \<open>Two wallets one after the other; the tickets of the first come back last.\<close>

definition switched :: store where
  "switched = fetched (useMyTickets (Some ''a'')) [(None, JStr ''as'')]
     (fetched (useMyTickets (Some ''b'')) [(None, JStr ''bs'')] freshStore)"

theorem wallet_sees_its_own_witness:
  "shown (useMyTickets (Some ''b'')) switched = [(CallTickets ''b'', JStr ''bs'')]
   \<and> list_all (\<lambda>cv. Some (CallTickets ''b'') = Some (fst cv)) (shown (useMyTickets (Some ''b'')) switched)"
proof -
  have "storeReach switched"
    unfolding switched_def
    by (intro sr_fetched sr_fresh planned_tickets) (simp_all add: useMyTickets_def single_def)
  moreover have "shown (useMyTickets (Some ''b'')) switched = [(CallTickets ''b'', JStr ''bs'')]"
    by (simp add: switched_def fetched_def shown_def freshStore_def useMyTickets_def single_def orNull_def)
  ultimately show ?thesis using wallet_sees_its_own [of switched "Some ''b''"] by simp
qed

section \<open>Routes and navigation bar\<close>

datatype page = PageHome | PageTickets | PageWinnings | PageResults

text \<open>The routes of \<open>App.tsx\<close>; there is none for any other path.\<close>

definition appRoutes :: "(string \<times> page) list" where
  "appRoutes = [(''/'', PageHome), (''/tickets'', PageTickets), (''/winnings'', PageWinnings), (''/results'', PageResults)]"

definition LINKS :: "(string \<times> string) list" where
  "LINKS = [(''/'', ''Play''), (''/tickets'', ''Tickets''), (''/winnings'', ''Winnings''), (''/results'', ''Results'')]"

text \<open>A click on a link goes to its path; the links of the small menu and the logo also close the menu.\<close>

datatype navEvent = Follow bool string | ToggleMenu

record frame =
  frPath :: string
  frMenu :: bool

definition navStep :: "navEvent \<Rightarrow> frame \<Rightarrow> frame" where
  "navStep e fr = (case e of Follow shut p \<Rightarrow> \<lparr> frPath = p, frMenu = (frMenu fr \<and> \<not> shut) \<rparr>
     | ToggleMenu \<Rightarrow> fr\<lparr>frMenu := \<not> frMenu fr\<rparr>)"

definition hasClaimable :: "bool \<Rightarrow> claimSummary option \<Rightarrow> bool" where
  "hasClaimable isConnected summary \<longleftrightarrow> isConnected
     \<and> (case summary of None \<Rightarrow> False | Some s \<Rightarrow> claimableUsdc s > 0 \<or> freeTickets s > 0)"

definition navLink :: "string \<Rightarrow> bool \<Rightarrow> bool \<Rightarrow> frame \<Rightarrow> string \<times> string \<Rightarrow> navEvent html" where
  "navLink cls shut c fr l =
     El ''Link'' [classes [cls, if frPath fr = fst l then ''linkActive'' else []], Attr ''to'' (fst l), Click (Follow shut (fst l))]
       (Txt (snd l) # onlyIf (fst l = ''/winnings'' \<and> c) [El ''span'' [Cls [''dot'']] []])"

text \<open>The wallet button is a component of the wallet package.\<close>

definition navbar :: "bool \<Rightarrow> claimSummary option \<Rightarrow> frame \<Rightarrow> navEvent html" where
  "navbar isConnected summary fr =
     (let c = hasClaimable isConnected summary in
      El ''header'' [Cls [''nav'']]
       (box ''inner''
          [box ''logoWrapper''
             [El ''Link'' [Attr ''to'' ''/'', Cls [''logoLink''], Click (Follow True ''/'')]
                [box ''logo'' [label ''logoBase'' ''LORDS'', label ''logoAccent'' ''POT'']],
              El ''a'' [Attr ''href'' ''https://megapot.io/play'', Attr ''target'' ''_blank'', Attr ''rel'' ''noopener noreferrer'',
                  Cls [''poweredByBadge'']]
                [label ''poweredByText'' ''Powered by'',
                 El ''img'' [Attr ''src'' ''/megapot.avif'', Attr ''alt'' ''Megapot'', Cls [''poweredByLogo'']] []]],
           El ''nav'' [Cls [''links'']] (map (navLink ''link'' False c fr) LINKS),
           box ''actions''
             [El ''WalletMultiButton'' [] [],
              El ''button'' [Cls [''menuToggle''], Click ToggleMenu, Attr ''aria-label'' ''Toggle menu'']
                [El ''span'' [Cls [if frMenu fr then ''iconOpen'' else ''iconClosed'']] []]]]
        # onlyIf (frMenu fr) [El ''nav'' [Cls [''mobileMenu'']] (map (navLink ''mobileLink'' True c fr) LINKS)]))"

lemma navbar_clicks:
  "set (clicks (navbar c s fr)) = {Follow True ''/'', ToggleMenu} \<union> Follow False ` fst ` set LINKS
     \<union> (if frMenu fr then Follow True ` fst ` set LINKS else {})"
  by (auto simp: navbar_def navLink_def LINKS_def element_defs Let_def)

text \<open>Whatever is clicked in the bar, a page of the program is shown afterwards and one link is marked as active.\<close>

lemma navbar_leads_to_pages:
  assumes "frPath fr \<in> fst ` set appRoutes" "e \<in> set (clicks (navbar c s fr))"
  shows "frPath (navStep e fr) \<in> fst ` set appRoutes"
  using assms by (auto simp: navbar_clicks navStep_def appRoutes_def LINKS_def split: if_splits)

lemma one_link_active:
  "frPath fr \<in> fst ` set appRoutes \<Longrightarrow> length (filter (\<lambda>l. fst l = frPath fr) LINKS) = 1"
  by (auto simp: appRoutes_def) (simp_all add: LINKS_def)

text \<open>
  The dot is there exactly when the summary has something to pay out or counts a free ticket. The count of free
  tickets includes those already bound to a voucher, so the dot can lead to a page with nothing to claim.
\<close>

lemma navbar_dot:
  "marked ''dot'' (navbar c (Some (claimsSummary now wallet w)) fr) \<noteq> [] \<longleftrightarrow>
     c \<and> (sumMany winAmount (filter (claimable now wallet w) (tickets w)) > 0
          \<or> countMany (\<lambda>t. winStatus t = CLAIMED_ON_BASE \<and> isFreeTicketTier t \<and> ofBuyer now wallet w t) (tickets w) > 0)"
  by (auto simp: navbar_def navLink_def LINKS_def element_defs Let_def hasClaimable_def claimsSummary_def hasClass_def)

definition boundFree :: world where
  "boundFree = deskWorld\<lparr>tickets := map (\<lambda>t. t\<lparr>isFreeTicketTier := True, payoutClaimId := Some ''c''\<rparr>) (tickets deskWorld)\<rparr>"

lemma dot_without_claim:
  "marked ''dot'' (navbar True (Some (claimsSummary (ceNow deskEnv) ''b'' boundFree)) \<lparr> frPath = ''/winnings'', frMenu = False \<rparr>) \<noteq> []
   \<and> Claim \<notin> set (clicks (winningsPage True (Some (claimsSummary (ceNow deskEnv) ''b'' boundFree)) False \<lparr> wTx = TxIdle, wMessage = [] \<rparr>))"
  unfolding navbar_dot claim_offered by code_simp

end
