(* ===== verification/Funds.thy ===== *)
theory Funds
  imports Deploy
begin

text \<open>
  Money that reaches the vault without an instruction of the program: plain token transfers, which anyone
  can send, and the operator's script \<open>solana_smart_contracts/scripts/transferUSDC.ts\<close>, which
  deposits that way and withdraws through the program. The vault's books, with deposits counted.
\<close>

section \<open>What the chain runs\<close>

datatype chainStep = ProgramTx "progIx list" | OpenAccount string | TokenTransfer string string "64 word"

text \<open>\<open>getOrCreateAssociatedTokenAccount\<close>: anyone may open an account for any owner.\<close>

definition getOrCreate :: "string \<Rightarrow> progWorld \<Rightarrow> progWorld" where
  "getOrCreate a s = (case pwTokens s a of None \<Rightarrow> s\<lparr>pwTokens := (pwTokens s)(a \<mapsto> 0)\<rparr> | Some _ \<Rightarrow> s)"

text \<open>The second component adds up what plain transfers brought into the vault.\<close>

fun runStep :: "progEnv \<Rightarrow> chainStep \<Rightarrow> progWorld \<times> int \<Rightarrow> progWorld \<times> int" where
  "runStep env (ProgramTx is) (s, d) = (submitTx env is s, d)"
| "runStep env (OpenAccount a) (s, d) = (getOrCreate a s, d)"
| "runStep env (TokenTransfer payer to n) (s, d) =
     (case prTransfer env payer to (uint n) (pwTokens s) of
        None \<Rightarrow> (s, d)
      | Some l \<Rightarrow> (s\<lparr>pwTokens := l\<rparr>, if to = vaultAta env then d + uint n else d))"

text \<open>The address the vault's owner is derived from has no key, so it signs nothing and pays no transfer.\<close>

fun keyless :: "progEnv \<Rightarrow> chainStep \<Rightarrow> bool" where
  "keyless env (ProgramTx is) = list_all (\<lambda>i. prVaultAuthority env \<notin> set (signedBy i)) is"
| "keyless env (OpenAccount a) = True"
| "keyless env (TokenTransfer payer to n) = (payer \<noteq> vaultAta env)"

lemma getOrCreate_sel [simp]:
  "pwLog (getOrCreate a s) = pwLog s" "pwState (getOrCreate a s) = pwState s"
  "heldBy (pwTokens (getOrCreate a s)) b = heldBy (pwTokens s) b"
  by (auto simp: getOrCreate_def heldBy_def split: option.split)

lemma runStep_balanced:
  assumes "splToken env" "keyless env st" "balanced env (start + d) s" "runStep env st (s, d) = (s', d')"
  shows "balanced env (start + d') s'"
proof (cases st)
  case (ProgramTx "is")
  then show ?thesis
    using assms runTx_balanced [OF assms(1), of "is" s _ "start + d"]
    by (auto simp: submitTx_def split: sum.splits)
next
  case (OpenAccount a)
  then show ?thesis using assms by (auto simp: balanced_def eventsIn_def eventsOut_def)
next
  case (TokenTransfer payer to n)
  show ?thesis
  proof (cases "prTransfer env payer to (uint n) (pwTokens s)")
    case (Some l)
    have p: "payer \<noteq> vaultAta env" using assms(2) TokenTransfer by simp
    have "heldBy l (vaultAta env) = heldBy (pwTokens s) (vaultAta env) + (if to = vaultAta env then uint n else 0)"
      using transfer_held(2,3) [OF assms(1) Some] p by (cases "to = vaultAta env") auto
    then show ?thesis
      using assms(3,4) TokenTransfer Some by (auto simp: balanced_def eventsIn_def eventsOut_def split: if_splits)
  qed (use assms TokenTransfer in auto)
qed

text \<open>
  C23: the vault's books: over any sequence of program transactions, whoever signs them, failed ones
  included, and of plain token transfers by anyone, the USDC in the vault is what it held at first, plus the
  amounts of all purchase events and of the transfers that paid into it, minus those of all claim and
  withdrawal events. The address derived for the vault has no key, so it never signs.
\<close>
theorem vault_books:
  assumes "splToken env" "list_all (keyless env) steps" "pwLog s = []"
    "fold (runStep env) steps (s, 0) = (s', deposits)"
  shows "heldBy (pwTokens s') (vaultAta env) + eventsOut env s'
    = heldBy (pwTokens s) (vaultAta env) + eventsIn s' + deposits"
proof -
  let ?start = "heldBy (pwTokens s) (vaultAta env)"
  have "balanced env (?start + d) u \<Longrightarrow> fold (runStep env) steps (u, d) = (s', deposits) \<Longrightarrow> balanced env (?start + deposits) s'"
    for u d
    using assms(2)
  proof (induction steps arbitrary: u d)
    case (Cons st steps)
    obtain v e where v: "runStep env st (u, d) = (v, e)" by fastforce
    with Cons.prems have "keyless env st" "list_all (keyless env) steps" "fold (runStep env) steps (v, e) = (s', deposits)"
      by simp_all
    with Cons.IH [of e v] runStep_balanced [OF assms(1) _ Cons.prems(1) v] show ?case by blast
  qed simp
  from this [of 0 s] assms(3,4) show ?thesis by (simp add: balanced_def eventsIn_def eventsOut_def)
qed

section \<open>The script\<close>

datatype fundMode = FundDeposit | FundWithdraw

definition FUND_MODE :: fundMode where "FUND_MODE = FundDeposit"
definition USDC_AMOUNT :: rat where "USDC_AMOUNT = 20"
definition rawAmount :: int where "rawAmount = \<lfloor>USDC_AMOUNT * 1000000\<rfloor>"

text \<open>
  The wallet is decoded from a key written in the script; the file is only looked for. \<open>fuResolve given
  needed\<close> is Anchor's check of the accounts named in a call against those of the instruction: an error, or none.
\<close>

record fundEnv =
  fuFileExists :: bool
  fuWallet :: string
  fuDestination :: string
  fuResolve :: "string list \<Rightarrow> string list \<Rightarrow> string option"

definition withdrawAccounts :: "string list" where
  "withdrawAccounts = [''admin'', ''lordsPotState'', ''vaultUsdcAccount'', ''destinationUsdcAccount'', ''vaultAuthority'',
     ''usdcMint'', ''tokenProgram'']"

text \<open>The accounts of the instruction, as \<open>lib.rs\<close> names them.\<close>

definition withdrawNeeds :: "string list" where
  "withdrawNeeds = [''treasury'', ''lordsPotState'', ''vaultUsdcAccount'', ''destinationUsdcAccount'', ''vaultAuthority'',
     ''usdcMint'', ''tokenProgram'']"

datatype fundEnd = NoKeypairFile | FundSuccess | FundFailed

definition fundDeposit :: "progEnv \<Rightarrow> fundEnv \<Rightarrow> progWorld \<Rightarrow> fundEnd \<times> progWorld" where
  "fundDeposit env fu s =
     (let source = prAta env (fuWallet fu);
          s1 = getOrCreate source (getOrCreate (vaultAta env) s)
      in case prTransfer env source (vaultAta env) rawAmount (pwTokens s1) of
           None \<Rightarrow> (FundFailed, s1)
         | Some l \<Rightarrow> (FundSuccess, s1\<lparr>pwTokens := l\<rparr>))"

definition fundWithdraw :: "progEnv \<Rightarrow> fundEnv \<Rightarrow> progWorld \<Rightarrow> fundEnd \<times> progWorld" where
  "fundWithdraw env fu s =
     (let dest = prAta env (fuDestination fu); s1 = getOrCreate dest s
      in case fuResolve fu withdrawAccounts withdrawNeeds of
           Some e \<Rightarrow> (FundFailed, s1)
         | None \<Rightarrow>
           (case withdrawVaultFunds env (fuWallet fu) dest (of_int rawAmount) s1 of
              Inl e \<Rightarrow> (FundFailed, s1)
            | Inr s' \<Rightarrow> (FundSuccess, s')))"

definition transferUSDC :: "progEnv \<Rightarrow> fundEnv \<Rightarrow> fundMode \<Rightarrow> progWorld \<Rightarrow> fundEnd \<times> progWorld" where
  "transferUSDC env fu mode s =
     (if \<not> fuFileExists fu then (NoKeypairFile, s)
      else case mode of FundDeposit \<Rightarrow> fundDeposit env fu s | FundWithdraw \<Rightarrow> fundWithdraw env fu s)"

text \<open>A deposit that succeeds brings twenty dollars in, without an event.\<close>

lemma deposit_arrives:
  assumes "splToken env" "fuWallet fu \<noteq> prVaultAuthority env" "transferUSDC env fu FundDeposit s = (FundSuccess, s')"
  shows "heldBy (pwTokens s') (vaultAta env) = heldBy (pwTokens s) (vaultAta env) + 20000000 \<and> pwLog s' = pwLog s"
proof -
  let ?source = "prAta env (fuWallet fu)" and ?s = "getOrCreate (prAta env (fuWallet fu)) (getOrCreate (vaultAta env) s)"
  have "?source \<noteq> vaultAta env" using assms(1,2) by (auto simp: splToken_def vaultAta_def inj_def)
  moreover obtain l where l: "prTransfer env ?source (vaultAta env) rawAmount (pwTokens ?s) = Some l" "s' = ?s\<lparr>pwTokens := l\<rparr>"
    using assms(3) by (auto simp: transferUSDC_def fundDeposit_def Let_def split: if_splits option.splits)
  ultimately have "heldBy l (vaultAta env) = heldBy (pwTokens ?s) (vaultAta env) + rawAmount"
    using transfer_held(2) [OF assms(1) l(1)] by blast
  then show ?thesis using l(2) by (simp add: rawAmount_def USDC_AMOUNT_def)
qed

text \<open>Anchor refuses a call that leaves out an account of the instruction.\<close>

definition strictNames :: "fundEnv \<Rightarrow> bool" where
  "strictNames fu \<longleftrightarrow> (\<forall>given needed. \<not> set needed \<subseteq> set given \<longrightarrow> fuResolve fu given needed \<noteq> None)"

text \<open>
  The script names its signer \<open>admin\<close>, the instruction has called it \<open>treasury\<close> since the two keys were
  parted: a withdrawal never reaches the program, whatever key runs it.
\<close>

lemma script_never_withdraws:
  assumes "strictNames fu"
  shows "fst (transferUSDC env fu FundWithdraw s) \<noteq> FundSuccess
    \<and> heldBy (pwTokens (snd (transferUSDC env fu FundWithdraw s))) (vaultAta env) = heldBy (pwTokens s) (vaultAta env)"
proof -
  have "\<not> set withdrawNeeds \<subseteq> set withdrawAccounts" by (simp add: withdrawNeeds_def withdrawAccounts_def)
  then obtain e where "fuResolve fu withdrawAccounts withdrawNeeds = Some e"
    using assms unfolding strictNames_def by blast
  then show ?thesis by (simp add: transferUSDC_def fundWithdraw_def Let_def)
qed

text \<open>A deposit by the script, a purchase, a deposit by a stranger and a claim.\<close>

definition opsFund :: fundEnv where
  "opsFund = \<lparr> fuFileExists = True, fuWallet = ''ops'', fuDestination = ''ops'',
     fuResolve = (\<lambda>given needed. List.find (\<lambda>n. n \<notin> set given) needed) \<rparr>"

definition fundSteps :: "chainStep list" where
  "fundSteps = [ProgramTx (hd liveTxs), TokenTransfer ''ata:alice'' ''ata:pda'' 1000000, ProgramTx (last liveTxs)]"

lemma fund_books:
  "map_prod (\<lambda>s. (eventsIn s, eventsOut devnet s)) id (fold (runStep devnet) fundSteps (liveWorld, 0)) = ((1000000, 2000000), 1000000)"
  by code_simp

theorem vault_books_witness:
  "heldBy (pwTokens (fst (fold (runStep devnet) fundSteps (liveWorld, 0)))) ''ata:pda'' = 7000000"
proof -
  obtain s' d where f: "fold (runStep devnet) fundSteps (liveWorld, 0) = (s', d)" by fastforce
  have "list_all (keyless devnet) fundSteps" by (simp add: fundSteps_def liveTxs_def devnet_def vaultAta_def)
  moreover have "heldBy (pwTokens liveWorld) ''ata:pda'' = 7000000" "pwLog liveWorld = []"
    by (simp_all add: liveWorld_def heldBy_def)
  moreover have "vaultAta devnet = ''ata:pda''" by (simp add: vaultAta_def devnet_def)
  ultimately show ?thesis
    using vault_books [OF devnet_spl _ _ f] fund_books f by simp
qed

lemma ops_strict: "strictNames opsFund"
  by (auto simp: strictNames_def opsFund_def find_None_iff)

end
